(* ===== verification/Prelude.thy ===== *)
theory Prelude
  imports Complex_Main "HOL-Library.Word" "HOL-Library.Multiset" "HOL-Library.Sublist"
begin

text \<open>
  Shared vocabulary of the development: the machine types of the Rust code, the collections of
  rewrite and introduction rules that the component theories fill, a few generic facts on lists and
  maps, and the interface of a transition system with an inductive invariant, which the scheduler
  and the whole poller instantiate.
\<close>

subsection \<open>Machine types\<close>

text \<open>
  Rust's fixed-width integers are words of that width: \<open>+\<close>, \<open>-\<close> and \<open>*\<close> wrap around, as they
  do in the release profile of the crate. A signed type is the same bit pattern, read with
  \<^const>\<open>sint\<close>; a cast between two integer types of Rust (\<open>as\<close>) is \<^const>\<open>ucast\<close> from an
  unsigned type and \<^const>\<open>scast\<close> from a signed one. An \<open>f64\<close> is a real number: rounding, the
  infinities and NaN are not modelled.
\<close>

type_synonym u8 = "8 word"
type_synonym u16 = "16 word"
type_synonym u32 = "32 word"
type_synonym u64 = "64 word"
type_synonym i32 = "32 word"
type_synonym i64 = "64 word"
type_synonym f64 = real

definition f64_of_u64 :: "u64 \<Rightarrow> f64" where
  "f64_of_u64 n = real (unat n)"

lemma f64_of_u64_nonneg [simp]: "0 \<le> f64_of_u64 n"
  unfolding f64_of_u64_def by (rule of_nat_0_le_iff)

lemma f64_of_u64_0 [simp]: "f64_of_u64 0 = 0"
  by (simp add: f64_of_u64_def)

lemma f64_of_u64_pos_iff [simp]: "0 < f64_of_u64 n \<longleftrightarrow> n \<noteq> 0"
  unfolding f64_of_u64_def of_nat_0_less_iff by (simp add: unat_gt_0)

lemma f64_of_u64_numeral [simp]: "f64_of_u64 (numeral k) = real (unat (numeral k :: u64))"
  by (simp add: f64_of_u64_def)

subsection \<open>Collections of rules\<close>

named_theorems codec_simps \<open>decoding what was encoded\<close>
named_theorems json_simps \<open>looking up what was put into a JSON object\<close>
named_theorems io_simps \<open>evaluating the file operations of the disk buffer\<close>
named_theorems inv_intros \<open>operations that keep an invariant\<close>
named_theorems view_simps \<open>reading an abstract view off a concrete state\<close>

subsection \<open>Keeping the first occurrence\<close>

text \<open>
  Two loops of the program collect the strings of a list that a \<open>HashSet\<close> has not seen yet. This
  is that loop: \<open>seen.insert(x)\<close> returns true iff \<open>x\<close> was new.
\<close>

fun keep_new :: "'a set \<Rightarrow> 'a list \<Rightarrow> 'a list" where
  "keep_new seen [] = []"
| "keep_new seen (x # xs) =
     (if x \<in> seen then keep_new seen xs else x # keep_new (insert x seen) xs)"

lemma set_keep_new [simp]: "set (keep_new seen xs) = set xs - seen"
  by (induction xs arbitrary: seen) auto

lemma distinct_keep_new [simp]: "distinct (keep_new seen xs)"
  by (induction xs arbitrary: seen) auto

lemma keep_new_subseq: "subseq (keep_new seen xs) xs"
  by (induction xs arbitrary: seen) auto

lemma keep_new_distinct: "distinct xs \<Longrightarrow> set xs \<inter> seen = {} \<Longrightarrow> keep_new seen xs = xs"
  by (induction xs arbitrary: seen) auto

lemma length_keep_new_le: "length (keep_new seen xs) \<le> length xs"
  by (induction xs arbitrary: seen) (auto intro: le_SucI)

subsection \<open>Generic facts\<close>

lemma map_filter_subset: "set (List.map_filter f xs) = {y. \<exists>x\<in>set xs. f x = Some y}"
  by (force simp: List.map_filter_def)

lemma take_drop_append_ge:
  "n \<le> length xs \<Longrightarrow> take n (xs @ ys) = take n xs \<and> drop n (xs @ ys) = drop n xs @ ys"
  by simp

lemma unat_of_nat_less: "n < 2 ^ LENGTH('a::len) \<Longrightarrow> unat (of_nat n :: 'a word) = n"
  by (simp add: unat_of_nat take_bit_nat_eq_self)

subsection \<open>Transition systems\<close>

text \<open>
  A component that other tasks drive is a set of start states and a step relation. An invariant
  that holds at the start and is kept by every step holds in every reachable state.
\<close>

inductive reachable :: "('s \<Rightarrow> bool) \<Rightarrow> ('s \<Rightarrow> 's \<Rightarrow> bool) \<Rightarrow> 's \<Rightarrow> bool"
  for start :: "'s \<Rightarrow> bool" and step :: "'s \<Rightarrow> 's \<Rightarrow> bool" where
  reachable_start: "start s \<Longrightarrow> reachable start step s"
| reachable_step: "reachable start step s \<Longrightarrow> step s t \<Longrightarrow> reachable start step t"

lemma reachable_mono:
  assumes "reachable start step s" and "\<And>s t. step s t \<Longrightarrow> step' s t"
  shows "reachable start step' s"
  using assms(1) by (induction rule: reachable.induct) (auto intro: reachable.intros assms(2))

lemma reachable_steps: "reachable start step s \<Longrightarrow> step\<^sup>*\<^sup>* s t \<Longrightarrow> reachable start step t"
  by (rule rtranclp_induct [of step s t "reachable start step"]) (auto intro: reachable.intros)

locale transition_system =
  fixes start :: "'s \<Rightarrow> bool"
    and step :: "'s \<Rightarrow> 's \<Rightarrow> bool"
    and inv :: "'s \<Rightarrow> bool"
  assumes inv_start: "start s \<Longrightarrow> inv s"
    and inv_step: "inv s \<Longrightarrow> step s t \<Longrightarrow> inv t"
begin

lemma reachable_inv: "reachable start step s \<Longrightarrow> inv s"
  by (induction rule: reachable.induct) (auto intro: inv_start inv_step)

lemma steps_inv: "step\<^sup>*\<^sup>* s t \<Longrightarrow> inv s \<Longrightarrow> inv t"
  by (induction rule: rtranclp_induct) (auto intro: inv_step)

end

end
