(* ===== verification/Rust_Std.thy ===== *)
theory Rust_Std
  imports Prelude
begin

text \<open>
  What the program uses of Rust's standard library on strings: the scalar values of a UTF-8
  string, trimming, splitting, case folding, number parsing, lossy decoding, and the parser of IP
  addresses behind \<open>host.parse::<IpAddr>()\<close>.

  A \<open>String\<close> is its UTF-8 bytes, one \<^typ>\<open>char\<close> (a byte in HOL) each, so that \<open>len\<close>, \<open>find\<close> and
  slicing count bytes, as they do in Rust.
\<close>

type_synonym str = string

definition as_bytes :: "str \<Rightarrow> u8 list" where
  "as_bytes s = map of_char s"

definition of_bytes :: "u8 list \<Rightarrow> str" where
  "of_bytes bs = map (\<lambda>b. char_of (unat b)) bs"

lemma unat_of_char [simp]: "unat (of_char c :: u8) = of_char c"
proof -
  have "(of_char c :: u8) = of_nat (of_char c)"
    by (metis of_nat_of_char)
  moreover have "(of_char c :: nat) < 256"
    by simp
  ultimately show ?thesis
    by (simp add: unat_of_nat take_bit_nat_eq_self)
qed

lemma of_bytes_as_bytes [simp]: "of_bytes (as_bytes s) = s"
  by (simp add: of_bytes_def as_bytes_def comp_def)

lemma length_as_bytes [simp]: "length (as_bytes s) = length s"
  by (simp add: as_bytes_def)

lemma as_bytes_inject [simp]: "as_bytes s = as_bytes t \<longleftrightarrow> s = t"
  by (metis of_bytes_as_bytes)

subsection \<open>Orderings\<close>

text \<open>\<open>std::cmp::Ordering\<close>, \<open>Ord::cmp\<close> and \<open>Ordering::then_with\<close>.\<close>

datatype ordering = Less | Equal | Greater

definition cmp_of :: "'a::linorder \<Rightarrow> 'a \<Rightarrow> ordering" where
  "cmp_of a b = (if a < b then Less else if a = b then Equal else Greater)"

fun then_with :: "ordering \<Rightarrow> ordering \<Rightarrow> ordering" where
  "then_with Equal o2 = o2"
| "then_with o1 o2 = o1"

lemma cmp_of_iffs [simp]:
  "cmp_of a b = Less \<longleftrightarrow> a < b" "cmp_of a b = Equal \<longleftrightarrow> a = b" "cmp_of a b = Greater \<longleftrightarrow> b < a"
  by (auto simp: cmp_of_def)

lemma then_with_iffs:
  "then_with o1 o2 = Less \<longleftrightarrow> o1 = Less \<or> o1 = Equal \<and> o2 = Less"
  "then_with o1 o2 = Equal \<longleftrightarrow> o1 = Equal \<and> o2 = Equal"
  "then_with o1 o2 = Greater \<longleftrightarrow> o1 = Greater \<or> o1 = Equal \<and> o2 = Greater"
  by (cases o1; simp)+

subsection \<open>Scalar values\<close>

text \<open>The bytes of the scalar value that a leading byte opens.\<close>

definition char_width :: "char \<Rightarrow> nat" where
  "char_width c = (let b = (of_char c :: nat) in
     if b < 192 then 1 else if b < 224 then 2 else if b < 240 then 3 else 4)"

text \<open>\<open>s.chars()\<close>, each scalar value as its UTF-8 encoding.\<close>

function chars :: "str \<Rightarrow> str list" where
  "chars [] = []"
| "chars (c # cs) =
     (c # take (char_width c - 1) cs) # chars (drop (char_width c - 1) cs)"
  by pat_completeness auto
termination
  by (relation "measure length") auto

lemma concat_chars [simp]: "concat (chars s) = s"
  by (induction s rule: chars.induct) auto

lemma chars_nonempty: "[] \<notin> set (chars s)"
  by (induction s rule: chars.induct) auto

lemma length_chars_le: "length (chars s) \<le> length s"
proof (induction s rule: chars.induct)
  case (2 c cs)
  have "length (drop (char_width c - 1) cs) \<le> length cs" by simp
  with 2 have "length (chars (drop (char_width c - 1) cs)) \<le> length cs"
    by (rule le_trans)
  then show ?case by simp
qed simp

lemma chars_eq_Nil_iff [simp]: "chars s = [] \<longleftrightarrow> s = []"
  by (cases s) auto

text \<open>\<open>char::is_whitespace\<close>: the scalar values with the Unicode property White\_Space.\<close>

definition is_whitespace :: "str \<Rightarrow> bool" where
  "is_whitespace c \<longleftrightarrow>
     (case map of_char c of
        [b] \<Rightarrow> (b::nat) = 32 \<or> 9 \<le> b \<and> b \<le> 13
      | [b0, b1] \<Rightarrow> b0 = 194 \<and> (b1 = 133 \<or> b1 = 160)
      | [b0, b1, b2] \<Rightarrow>
          b0 = 225 \<and> b1 = 154 \<and> b2 = 128 \<or>
          b0 = 226 \<and> b1 = 128 \<and> (128 \<le> b2 \<and> b2 \<le> 138 \<or> b2 = 168 \<or> b2 = 169 \<or> b2 = 175) \<or>
          b0 = 226 \<and> b1 = 129 \<and> b2 = 159 \<or>
          b0 = 227 \<and> b1 = 128 \<and> b2 = 128
      | _ \<Rightarrow> False)"

definition trim_start :: "str \<Rightarrow> str" where
  "trim_start s = concat (dropWhile is_whitespace (chars s))"

definition trim_end :: "str \<Rightarrow> str" where
  "trim_end s = concat (rev (dropWhile is_whitespace (rev (chars s))))"

definition trim :: "str \<Rightarrow> str" where
  "trim s = trim_end (trim_start s)"

lemma length_concat_dropWhile_le:
  "length (concat (dropWhile P xs)) \<le> length (concat xs)"
  by (induction xs) auto

lemma length_concat_rev [simp]: "length (concat (rev xs)) = length (concat xs)"
  by (simp add: length_concat rev_map [symmetric] sum_list_rev)

lemma length_trim_start_le: "length (trim_start s) \<le> length s"
  using length_concat_dropWhile_le [of is_whitespace "chars s"] by (simp add: trim_start_def)

lemma length_trim_end_le: "length (trim_end s) \<le> length s"
  using length_concat_dropWhile_le [of is_whitespace "rev (chars s)"]
  by (simp add: trim_end_def)

lemma length_trim_le: "length (trim s) \<le> length s"
  unfolding trim_def by (meson le_trans length_trim_end_le length_trim_start_le)

lemma trim_Nil [simp]: "trim [] = []"
  by (simp add: trim_def trim_start_def trim_end_def)

text \<open>\<open>s.split_whitespace()\<close>: the maximal runs of scalar values that are not white space.\<close>

fun words_of :: "str list \<Rightarrow> str \<Rightarrow> str list" where
  "words_of [] acc = (if acc = [] then [] else [acc])"
| "words_of (c # cs) acc =
     (if is_whitespace c then (if acc = [] then [] else [acc]) @ words_of cs []
      else words_of cs (acc @ c))"

definition split_whitespace :: "str \<Rightarrow> str list" where
  "split_whitespace s = words_of (chars s) []"

lemma words_of_nonempty: "[] \<notin> set (words_of cs acc)"
  by (induction cs acc rule: words_of.induct) auto

lemma length_words_of:
  "[] \<notin> set cs \<Longrightarrow>
   sum_list (map length (words_of cs acc)) + length (words_of cs acc)
     \<le> length (concat cs) + length acc + 1"
proof (induction cs acc rule: words_of.induct)
  case (1 acc)
  then show ?case by (cases acc) auto
next
  case (2 c cs acc)
  then have c: "1 \<le> length c" by (cases c) auto
  show ?case
  proof (cases "is_whitespace c")
    case True
    with 2 have "sum_list (map length (words_of cs [])) + length (words_of cs [])
        \<le> length (concat cs) + 1"
      by simp
    with True c show ?thesis by auto
  next
    case False
    with 2 show ?thesis by auto
  qed
qed

fun join :: "str \<Rightarrow> str list \<Rightarrow> str" where
  "join sep [] = []"
| "join sep [x] = x"
| "join sep (x # y # xs) = x @ sep @ join sep (y # xs)"

lemma set_join: "set (join sep xs) \<subseteq> set sep \<union> \<Union> (set ` set xs)"
  by (induction sep xs rule: join.induct) auto

lemma length_join_one:
  "length (join [c] xs) = sum_list (map length xs) + (length xs - 1)"
  by (induction "[c]" xs rule: join.induct) auto

subsection \<open>Searching and splitting\<close>

definition strip_prefix :: "str \<Rightarrow> str \<Rightarrow> str option" where
  "strip_prefix p s = (if prefix p s then Some (drop (length p) s) else None)"

fun find_sub :: "str \<Rightarrow> str \<Rightarrow> nat option" where
  "find_sub p [] = (if p = [] then Some 0 else None)"
| "find_sub p (c # s) =
     (if prefix p (c # s) then Some 0 else map_option Suc (find_sub p s))"

lemma find_sub_prefix: "find_sub p s = Some i \<Longrightarrow> prefix p (drop i s) \<and> i \<le> length s"
  by (induction p s arbitrary: i rule: find_sub.induct) (auto split: if_splits)

lemma find_sub_le: "find_sub p s = Some i \<Longrightarrow> i + length p \<le> length s"
  using find_sub_prefix [of p s i] by (auto dest!: prefix_length_le)

fun split_on :: "char \<Rightarrow> str \<Rightarrow> str list" where
  "split_on d [] = [[]]"
| "split_on d (c # s) =
     (if c = d then [] # split_on d s
      else (case split_on d s of [] \<Rightarrow> [[c]] | x # xs \<Rightarrow> (c # x) # xs))"

lemma split_on_ne [simp]: "split_on d s \<noteq> []"
  by (cases s) (auto split: list.splits)

lemma split_on_field: "d \<notin> set x \<Longrightarrow> split_on d (x @ d # s) = x # split_on d s"
  by (induction x) auto

lemma split_on_last: "d \<notin> set x \<Longrightarrow> split_on d x = [x]"
  by (induction x) auto

lemma split_on_join: "xs \<noteq> [] \<Longrightarrow> \<forall>x\<in>set xs. d \<notin> set x \<Longrightarrow> split_on d (join [d] xs) = xs"
  by (induction "[d]" xs rule: join.induct) (auto simp: split_on_field split_on_last)

text \<open>\<open>s.rsplit_once(d)\<close>: around the last occurrence of the delimiter.\<close>

fun rsplit_once :: "char \<Rightarrow> str \<Rightarrow> (str \<times> str) option" where
  "rsplit_once d [] = None"
| "rsplit_once d (c # s) =
     (case rsplit_once d s of
        Some (a, b) \<Rightarrow> Some (c # a, b)
      | None \<Rightarrow> if c = d then Some ([], s) else None)"

lemma rsplit_once_None: "d \<notin> set s \<Longrightarrow> rsplit_once d s = None"
  by (induction s) auto

lemma rsplit_once_append: "d \<notin> set b \<Longrightarrow> rsplit_once d (a @ d # b) = Some (a, b)"
  by (induction a) (auto simp: rsplit_once_None)

lemma rsplit_once_Some: "rsplit_once d s = Some (a, b) \<Longrightarrow> s = a @ d # b \<and> d \<notin> set b"
proof (induction s arbitrary: a)
  case (Cons c s)
  show ?case
  proof (cases "rsplit_once d s")
    case None
    then have "d \<notin> set s" by (induction s) (auto split: option.splits if_splits)
    with None Cons.prems show ?thesis by (auto split: if_splits)
  next
    case (Some p)
    with Cons show ?thesis by (cases p) auto
  qed
qed simp

text \<open>\<open>s.trim_end_matches(p)\<close>: the pattern is removed from the end as often as it is there.\<close>

function trim_end_matches :: "str \<Rightarrow> str \<Rightarrow> str" where
  "trim_end_matches p s =
     (if p \<noteq> [] \<and> suffix p s then trim_end_matches p (take (length s - length p) s) else s)"
  by pat_completeness auto
termination
  by (relation "measure (\<lambda>(p, s). length s)") (auto simp: suffix_def)

declare trim_end_matches.simps [simp del]

subsection \<open>Case folding\<close>

definition ascii_lower :: "char \<Rightarrow> char" where
  "ascii_lower c = (let b = (of_char c :: nat) in if 65 \<le> b \<and> b \<le> 90 then char_of (b + 32) else c)"

definition to_ascii_lowercase :: "str \<Rightarrow> str" where
  "to_ascii_lowercase s = map ascii_lower s"

lemma length_to_ascii_lowercase [simp]: "length (to_ascii_lowercase s) = length s"
  by (simp add: to_ascii_lowercase_def)

definition eq_ignore_ascii_case :: "str \<Rightarrow> str \<Rightarrow> bool" where
  "eq_ignore_ascii_case s t \<longleftrightarrow> to_ascii_lowercase s = to_ascii_lowercase t"

text \<open>
  \<open>s.to_lowercase()\<close> folds every scalar value of Unicode. The program only compares its result
  with ASCII words (or asks for an ASCII prefix), so the scalar values that matter are the ones
  whose lower case has an ASCII scalar value: the ASCII letters, KELVIN SIGN (bytes E2 84 AA, folded
  to \<open>k\<close>) and LATIN CAPITAL LETTER I WITH DOT ABOVE (C4 B0, folded to \<open>i\<close> and U+0307). Any other
  scalar value keeps a lower case without ASCII and stays as it is here.
\<close>

definition lower_char :: "str \<Rightarrow> str" where
  "lower_char c =
     (if map of_char c = [226, 132, 170 :: nat] then ''k''
      else if map of_char c = [196, 176 :: nat] then [CHR ''i'', CHR 0xCC, CHR 0x87]
      else map ascii_lower c)"

definition to_lowercase :: "str \<Rightarrow> str" where
  "to_lowercase s = concat (map lower_char (chars s))"

subsection \<open>Parsing integers\<close>

definition is_digit :: "char \<Rightarrow> bool" where
  "is_digit c \<longleftrightarrow> CHR ''0'' = c \<or> (48 \<le> (of_char c :: nat) \<and> (of_char c :: nat) \<le> 57)"

definition is_alphanumeric :: "char \<Rightarrow> bool" where
  "is_alphanumeric c \<longleftrightarrow> (let b = (of_char c :: nat) in
     48 \<le> b \<and> b \<le> 57 \<or> 65 \<le> b \<and> b \<le> 90 \<or> 97 \<le> b \<and> b \<le> 122)"

fun digits_value :: "int \<Rightarrow> str \<Rightarrow> int option" where
  "digits_value n [] = Some n"
| "digits_value n (c # cs) =
     (if is_digit c then digits_value (10 * n + (of_char c - 48)) cs else None)"

text \<open>
  \<open>from_str_radix\<close> with radix 10: an optional sign (\<open>-\<close> for the signed types only), at least one
  digit, and the value within the range of the type.
\<close>

definition parse_digits_upto :: "int \<Rightarrow> str \<Rightarrow> int option" where
  "parse_digits_upto mx s =
     (if s = [] then None
      else case digits_value 0 s of
        Some n \<Rightarrow> if n \<le> mx then Some n else None
      | None \<Rightarrow> None)"

definition parse_unsigned :: "int \<Rightarrow> str \<Rightarrow> int option" where
  "parse_unsigned mx s =
     (case s of
        [] \<Rightarrow> None
      | c # r \<Rightarrow> parse_digits_upto mx (if c = CHR ''+'' then r else s))"

definition parse_signed :: "int \<Rightarrow> str \<Rightarrow> int option" where
  "parse_signed m s =
     (case s of
        [] \<Rightarrow> None
      | c # r \<Rightarrow>
          if c = CHR ''-'' then map_option uminus (parse_digits_upto m r)
          else parse_digits_upto (m - 1) (if c = CHR ''+'' then r else s))"

definition parse_u16 :: "str \<Rightarrow> u16 option" where
  "parse_u16 s = map_option of_int (parse_unsigned 65535 s)"

definition parse_i64 :: "str \<Rightarrow> i64 option" where
  "parse_i64 s = map_option of_int (parse_signed (2 ^ 63) s)"

definition parse_i32 :: "str \<Rightarrow> int option" where
  "parse_i32 s = parse_signed (2 ^ 31) s"

lemma digit_nonneg: "is_digit c \<Longrightarrow> 0 \<le> (of_char c :: int) - 48"
proof -
  assume "is_digit c"
  then have "48 \<le> (of_char c :: nat)"
    by (auto simp: is_digit_def)
  then have "int 48 \<le> int (of_char c)"
    by (simp only: zle_int)
  moreover have "int (of_char c) = of_char c"
    by (rule of_nat_of_char)
  ultimately show "0 \<le> (of_char c :: int) - 48" by linarith
qed

lemma digits_value_nonneg: "0 \<le> n \<Longrightarrow> digits_value n s = Some m \<Longrightarrow> 0 \<le> m"
  by (induction n s rule: digits_value.induct) (auto split: if_splits dest: digit_nonneg)

lemma parse_digits_upto_range: "parse_digits_upto m s = Some n \<Longrightarrow> 0 \<le> n \<and> n \<le> m"
  by (auto simp: parse_digits_upto_def split: if_splits option.splits
      intro: digits_value_nonneg [of 0])

lemma parse_unsigned_range: "parse_unsigned m s = Some n \<Longrightarrow> 0 \<le> n \<and> n \<le> m"
  by (auto simp: parse_unsigned_def split: list.splits dest!: parse_digits_upto_range)

lemma parse_signed_range: "parse_signed m s = Some i \<Longrightarrow> 0 \<le> m \<Longrightarrow> - m \<le> i \<and> i < m \<or> i = 0"
  by (auto simp: parse_signed_def split: list.splits if_splits dest!: parse_digits_upto_range)

text \<open>The decimal text of an unsigned number (\<open>to_string\<close>, \<open>format!\<close>).\<close>

definition digit_char :: "nat \<Rightarrow> char" where
  "digit_char d = char_of (48 + d)"

fun show_nat :: "nat \<Rightarrow> str" where
  "show_nat n = (if n < 10 then [digit_char n] else show_nat (n div 10) @ [digit_char (n mod 10)])"

declare show_nat.simps [simp del]

lemma of_char_digit_char: "d < 10 \<Longrightarrow> of_char (digit_char d) = 48 + d"
  by (simp add: digit_char_def)

lemma of_char_digit_char_int: "d < 10 \<Longrightarrow> (of_char (digit_char d) :: int) = 48 + int d"
  by (metis of_char_digit_char of_nat_add of_nat_numeral of_nat_of_char)

lemma is_digit_digit_char [simp]: "d < 10 \<Longrightarrow> is_digit (digit_char d)"
  by (simp add: is_digit_def of_char_digit_char)

lemma digits_value_append:
  "digits_value a (xs @ ys) = Option.bind (digits_value a xs) (\<lambda>b. digits_value b ys)"
  by (induction a xs rule: digits_value.induct) auto

lemma digits_value_show_nat: "digits_value 0 (show_nat n) = Some (int n)"
proof (induction n rule: show_nat.induct)
  case (1 n)
  show ?case
  proof (cases "n < 10")
    case True
    then show ?thesis
      by (subst show_nat.simps) (simp add: of_char_digit_char_int)
  next
    case False
    with 1 have "digits_value 0 (show_nat (n div 10)) = Some (int (n div 10))" by simp
    with False show ?thesis
      by (subst show_nat.simps)
        (simp add: digits_value_append of_char_digit_char_int zdiv_int zmod_int)
  qed
qed

lemma show_nat_digits: "c \<in> set (show_nat n) \<Longrightarrow> is_digit c"
  by (induction n rule: show_nat.induct) (subst (asm) (2) show_nat.simps, auto split: if_splits)

lemma show_nat_ne [simp]: "show_nat n \<noteq> []"
  by (subst show_nat.simps) simp

lemma not_is_digit [simp]:
  "\<not> is_digit (CHR '':'')" "\<not> is_digit (CHR ''+'')" "\<not> is_digit (CHR ''-'')" "\<not> is_digit (CHR '' '')"
  by (simp_all add: is_digit_def)

lemma show_nat_no_sep [simp]: "\<not> is_digit d \<Longrightarrow> d \<notin> set (show_nat n)"
  using show_nat_digits by blast

definition show_u16 :: "u16 \<Rightarrow> str" where
  "show_u16 p = show_nat (unat p)"

lemma parse_unsigned_show_nat:
  assumes "int n \<le> m"
  shows "parse_unsigned m (show_nat n) = Some (int n)"
proof -
  obtain c r where cr: "show_nat n = c # r" by (cases "show_nat n") auto
  moreover from cr have "is_digit c" using show_nat_digits [of c n] by simp
  ultimately show ?thesis
    using assms digits_value_show_nat [of n]
    by (auto simp: parse_unsigned_def parse_digits_upto_def)
qed

lemma parse_u16_show [codec_simps, simp]: "parse_u16 (show_u16 p) = Some p"
proof -
  have "unat p \<le> 65535" using unsigned_less [of p, where 'a = nat] by simp
  then have "int (unat p) \<le> 65535" by linarith
  from parse_unsigned_show_nat [OF this] show ?thesis
    by (simp add: parse_u16_def show_u16_def)
qed

subsection \<open>Lossy decoding of UTF-8\<close>

text \<open>
  \<open>String::from_utf8_lossy\<close>. One step looks at the next scalar value: how many bytes it takes and
  whether they are well formed. A malformed sequence, as long as the decoder followed it, becomes
  one U+FFFD (EF BF BD). A missing byte reads as 0, which is no continuation byte.
\<close>

definition byte_at :: "u8 list \<Rightarrow> nat \<Rightarrow> nat" where
  "byte_at bs i = (if i < length bs then unat (bs ! i) else 0)"

definition is_cont :: "nat \<Rightarrow> bool" where
  "is_cont b \<longleftrightarrow> 128 \<le> b \<and> b \<le> 191"

definition second_ok :: "nat \<Rightarrow> nat \<Rightarrow> bool" where
  "second_ok b c \<longleftrightarrow>
     b = 224 \<and> 160 \<le> c \<and> c \<le> 191 \<or>
     225 \<le> b \<and> b \<le> 236 \<and> is_cont c \<or>
     b = 237 \<and> 128 \<le> c \<and> c \<le> 159 \<or>
     238 \<le> b \<and> b \<le> 239 \<and> is_cont c \<or>
     b = 240 \<and> 144 \<le> c \<and> c \<le> 191 \<or>
     241 \<le> b \<and> b \<le> 243 \<and> is_cont c \<or>
     b = 244 \<and> 128 \<le> c \<and> c \<le> 143"

definition utf8_step :: "u8 list \<Rightarrow> nat \<times> bool" where
  "utf8_step bs =
     (let b = byte_at bs 0 in
      if b < 128 then (1, True)
      else if 194 \<le> b \<and> b \<le> 223 then
        (if is_cont (byte_at bs 1) then (2, True) else (1, False))
      else if 224 \<le> b \<and> b \<le> 239 then
        (if \<not> second_ok b (byte_at bs 1) then (1, False)
         else if is_cont (byte_at bs 2) then (3, True) else (2, False))
      else if 240 \<le> b \<and> b \<le> 244 then
        (if \<not> second_ok b (byte_at bs 1) then (1, False)
         else if \<not> is_cont (byte_at bs 2) then (2, False)
         else if is_cont (byte_at bs 3) then (4, True) else (3, False))
      else (1, False))"

lemma utf8_step_pos: "0 < fst (utf8_step bs)"
  by (simp add: utf8_step_def Let_def)

function utf8_lossy :: "u8 list \<Rightarrow> str" where
  "utf8_lossy [] = []"
| "utf8_lossy (b # bs) =
     (let (n, ok) = utf8_step (b # bs) in
      (if ok then of_bytes (take n (b # bs)) else [CHR 0xEF, CHR 0xBF, CHR 0xBD])
        @ utf8_lossy (drop n (b # bs)))"
  by pat_completeness auto
termination
proof (relation "measure length", goal_cases)
  case (2 b bs x n ok)
  then have "0 < n" using utf8_step_pos [of "b # bs"] by (metis fst_conv)
  then show ?case by simp
qed simp

declare utf8_lossy.simps(2) [simp del]

text \<open>ASCII text decodes to itself.\<close>

lemma utf8_lossy_ascii: "\<forall>c\<in>set s. (of_char c :: nat) < 128 \<Longrightarrow> utf8_lossy (as_bytes s) = s"
proof (induction s)
  case (Cons c s)
  have "utf8_step (as_bytes (c # s)) = (1, True)"
    using Cons.prems by (simp add: utf8_step_def byte_at_def as_bytes_def)
  with Cons show ?case
    by (simp add: as_bytes_def utf8_lossy.simps(2) of_bytes_def)
qed (simp add: as_bytes_def)

subsection \<open>IP addresses\<close>

text \<open>
  The recursive descent of \<open>core::net::parser\<close>. A reader takes the rest of the text and returns
  the rest behind what it read; the numeric values are not needed, only whether the text is an
  address.
\<close>

definition hex_value :: "char \<Rightarrow> nat option" where
  "hex_value c = (let b = (of_char c :: nat) in
     if 48 \<le> b \<and> b \<le> 57 then Some (b - 48)
     else if 97 \<le> b \<and> b \<le> 102 then Some (b - 87)
     else if 65 \<le> b \<and> b \<le> 70 then Some (b - 55)
     else None)"

definition digit_of :: "nat \<Rightarrow> char \<Rightarrow> bool" where
  "digit_of radix c \<longleftrightarrow> (case hex_value c of Some d \<Rightarrow> d < radix | None \<Rightarrow> False)"

definition read_number :: "nat \<Rightarrow> nat \<Rightarrow> bool \<Rightarrow> nat \<Rightarrow> str \<Rightarrow> str option" where
  "read_number radix max_digits allow_zero_prefix limit s =
     (let ds = takeWhile (digit_of radix) s;
          n = foldl (\<lambda>n c. radix * n + the (hex_value c)) 0 ds in
      if ds = [] \<or> max_digits < length ds then None
      else if \<not> allow_zero_prefix \<and> take 1 s = ''0'' \<and> 1 < length ds then None
      else if n \<le> limit then Some (drop (length ds) s) else None)"

definition read_separator :: "char \<Rightarrow> nat \<Rightarrow> (str \<Rightarrow> str option) \<Rightarrow> str \<Rightarrow> str option" where
  "read_separator sep i inner s =
     (if 0 < i then (case s of [] \<Rightarrow> None | c # r \<Rightarrow> if c = sep then inner r else None)
      else inner s)"

fun read_octets :: "nat \<Rightarrow> nat \<Rightarrow> str \<Rightarrow> str option" where
  "read_octets i 0 s = Some s"
| "read_octets i (Suc k) s =
     (case read_separator (CHR ''.'') i (read_number 10 3 False 255) s of
        Some r \<Rightarrow> read_octets (Suc i) k r
      | None \<Rightarrow> None)"

lemma read_octets_numeral [simp]:
  "read_octets i (numeral k) s =
     (case read_separator (CHR ''.'') i (read_number 10 3 False 255) s of
        Some r \<Rightarrow> read_octets (Suc i) (pred_numeral k) r
      | None \<Rightarrow> None)"
  by (simp add: numeral_eq_Suc)

definition read_ipv4 :: "str \<Rightarrow> str option" where
  "read_ipv4 s = read_octets 0 4 s"

text \<open>
  \<open>read_groups limit i left s\<close>, with \<open>left = limit - i\<close> slots left: the number of groups read,
  whether a trailing IPv4 address was among them, and the rest.
\<close>

fun read_groups :: "nat \<Rightarrow> nat \<Rightarrow> nat \<Rightarrow> str \<Rightarrow> nat \<times> bool \<times> str" where
  "read_groups limit i 0 s = (limit, False, s)"
| "read_groups limit i (Suc left) s =
     (case (if i + 1 < limit then read_separator (CHR '':'') i read_ipv4 s else None) of
        Some r \<Rightarrow> (i + 2, True, r)
      | None \<Rightarrow>
          (case read_separator (CHR '':'') i (read_number 16 4 True 65535) s of
             Some r \<Rightarrow> read_groups limit (Suc i) left r
           | None \<Rightarrow> (i, False, s)))"

lemma read_groups_numeral [simp]:
  "read_groups limit i (numeral k) s =
     (case (if i + 1 < limit then read_separator (CHR '':'') i read_ipv4 s else None) of
        Some r \<Rightarrow> (i + 2, True, r)
      | None \<Rightarrow>
          (case read_separator (CHR '':'') i (read_number 16 4 True 65535) s of
             Some r \<Rightarrow> read_groups limit (Suc i) (pred_numeral k) r
           | None \<Rightarrow> (i, False, s)))"
  by (simp add: numeral_eq_Suc)

definition read_ipv6 :: "str \<Rightarrow> str option" where
  "read_ipv6 s =
     (let (head_size, head_ipv4, r) = read_groups 8 0 8 s in
      if head_size = 8 then Some r
      else if head_ipv4 then None
      else case strip_prefix ''::'' r of
        None \<Rightarrow> None
      | Some r' \<Rightarrow>
          (let limit = 8 - (head_size + 1); (_, _, r'') = read_groups limit 0 limit r' in Some r''))"

text \<open>\<open>host.parse::<IpAddr>().is_ok()\<close>\<close>

definition is_ip_addr :: "str \<Rightarrow> bool" where
  "is_ip_addr s =
     (case read_ipv4 s of
        Some r \<Rightarrow> r = []
      | None \<Rightarrow> (case read_ipv6 s of Some r \<Rightarrow> r = [] | None \<Rightarrow> False))"

lemmas ip_defs =
  is_ip_addr_def read_ipv4_def read_ipv6_def read_separator_def read_number_def digit_of_def
  hex_value_def strip_prefix_def

subsection \<open>Durations\<close>

text \<open>\<open>Duration::from_secs_f64\<close>; \<^const>\<open>None\<close> is its panic on a number that is no \<open>Duration\<close>.\<close>

definition duration_from_secs :: "f64 \<Rightarrow> f64 option" where
  "duration_from_secs s = (if s < 0 \<or> 2 ^ 64 \<le> s then None else Some s)"

end
