(* ===== verification/Json.thy ===== *)
theory Json
  imports Rust_Std
begin

text \<open>
  The values of \<open>serde_json::Value\<close> that the components exchange, with the accessors the code
  calls on them, and the functions of third-party crates the code relies on, as one record of
  parameters. An object is a \<open>BTreeMap\<close> (the crate is built without \<open>preserve_order\<close>): its
  entries are sorted by the bytes of the key and every key occurs once.
\<close>

datatype number = PosInt u64 | NegInt i64 | Float f64

datatype json =
    JNull
  | JBool bool
  | JNum number
  | JStr str
  | JArr "json list"
  | JObj "(str \<times> json) list"

fun str_less :: "str \<Rightarrow> str \<Rightarrow> bool" where
  "str_less _ [] = False"
| "str_less [] (_ # _) = True"
| "str_less (c # s) (d # t) =
     ((of_char c :: nat) < of_char d \<or> c = d \<and> str_less s t)"

fun obj_insert :: "str \<Rightarrow> json \<Rightarrow> (str \<times> json) list \<Rightarrow> (str \<times> json) list" where
  "obj_insert k v [] = [(k, v)]"
| "obj_insert k v ((k', v') # m) =
     (if k = k' then (k, v) # m
      else if str_less k k' then (k, v) # (k', v') # m
      else (k', v') # obj_insert k v m)"

lemma map_of_obj_insert [simp, json_simps]:
  "map_of (obj_insert k v m) = (map_of m)(k \<mapsto> v)"
  by (induction k v m rule: obj_insert.induct) auto

text \<open>The \<open>json!\<close> macro inserts the entries of an object in the order they are written.\<close>

definition json_obj :: "(str \<times> json) list \<Rightarrow> json" where
  "json_obj kvs = JObj (fold (\<lambda>(k, v). obj_insert k v) kvs [])"

subsection \<open>Accessors\<close>

fun get :: "str \<Rightarrow> json \<Rightarrow> json option" where
  "get k (JObj m) = map_of m k"
| "get k _ = None"

fun as_str :: "json \<Rightarrow> str option" where
  "as_str (JStr s) = Some s"
| "as_str _ = None"

fun as_bool :: "json \<Rightarrow> bool option" where
  "as_bool (JBool b) = Some b"
| "as_bool _ = None"

fun as_array :: "json \<Rightarrow> json list option" where
  "as_array (JArr vs) = Some vs"
| "as_array _ = None"

fun as_object :: "json \<Rightarrow> (str \<times> json) list option" where
  "as_object (JObj m) = Some m"
| "as_object _ = None"

fun is_null :: "json \<Rightarrow> bool" where
  "is_null JNull = True"
| "is_null _ = False"

fun number_as_u64 :: "number \<Rightarrow> u64 option" where
  "number_as_u64 (PosInt n) = Some n"
| "number_as_u64 (NegInt _) = None"
| "number_as_u64 (Float _) = None"

fun number_as_i64 :: "number \<Rightarrow> i64 option" where
  "number_as_i64 (PosInt n) = (if n \<le> 0x7FFFFFFFFFFFFFFF then Some n else None)"
| "number_as_i64 (NegInt i) = Some i"
| "number_as_i64 (Float _) = None"

fun as_u64 :: "json \<Rightarrow> u64 option" where
  "as_u64 (JNum n) = number_as_u64 n"
| "as_u64 _ = None"

fun as_i64 :: "json \<Rightarrow> i64 option" where
  "as_i64 (JNum n) = number_as_i64 n"
| "as_i64 _ = None"

definition get_str :: "str \<Rightarrow> json \<Rightarrow> str option" where
  "get_str k v = Option.bind (get k v) as_str"

definition get_i64 :: "str \<Rightarrow> json \<Rightarrow> i64 option" where
  "get_i64 k v = Option.bind (get k v) as_i64"

definition unwrap_or :: "'a \<Rightarrow> 'a option \<Rightarrow> 'a" where
  "unwrap_or d x = (case x of Some y \<Rightarrow> y | None \<Rightarrow> d)"

lemma unwrap_or_simps [simp]: "unwrap_or d None = d" "unwrap_or d (Some y) = y"
  by (simp_all add: unwrap_or_def)

subsection \<open>Values from Rust values\<close>

definition json_u64 :: "u64 \<Rightarrow> json" where
  "json_u64 n = JNum (PosInt n)"

definition json_i64 :: "i64 \<Rightarrow> json" where
  "json_i64 i = JNum (if sint i < 0 then NegInt i else PosInt i)"

definition json_opt :: "('a \<Rightarrow> json) \<Rightarrow> 'a option \<Rightarrow> json" where
  "json_opt f x = (case x of Some y \<Rightarrow> f y | None \<Rightarrow> JNull)"

lemma json_opt_simps [simp]: "json_opt f None = JNull" "json_opt f (Some y) = f y"
  by (simp_all add: json_opt_def)

lemma sint_nonneg_le_max: "0 \<le> sint (i :: i64) \<Longrightarrow> i \<le> 0x7FFFFFFFFFFFFFFF"
proof -
  assume "0 \<le> sint i"
  then have "\<not> bit (uint i) 63"
    by (simp add: sint_uint signed_take_bit_nonnegative_iff)
  moreover have "take_bit (Suc 63) (uint i) = uint i"
    using uint_lt2p [of i] by (simp add: take_bit_int_eq_self)
  ultimately have "uint i = take_bit 63 (uint i)"
    using take_bit_Suc_from_most [of 63 "uint i"] by simp
  also have "\<dots> < 2 ^ 63"
    by (rule take_bit_int_less_exp)
  finally have "uint i \<le> 0x7FFFFFFFFFFFFFFF" by simp
  then show ?thesis by (simp add: word_le_def)
qed

lemma as_i64_json_i64 [simp, json_simps]: "as_i64 (json_i64 i) = Some i"
  using sint_nonneg_le_max [of i] by (simp add: json_i64_def)

lemma as_u64_json_u64 [simp, json_simps]: "as_u64 (json_u64 n) = Some n"
  by (simp add: json_u64_def)

lemma as_i64_json_opt [simp, json_simps]: "as_i64 (json_opt json_i64 x) = x"
  by (cases x) auto

lemma get_json_obj [simp, json_simps]:
  "get k (json_obj kvs) = map_of (rev kvs) k"
proof -
  have "map_of (fold (\<lambda>(k, v). obj_insert k v) kvs m) = map_of m ++ map_of (rev kvs)" for m
    by (induction kvs arbitrary: m) (auto simp: map_add_def fun_eq_iff split: option.splits)
  from this [of "[]"] show ?thesis by (simp add: json_obj_def)
qed

subsection \<open>Third-party functions\<close>

text \<open>
  \<open>json_to_string\<close> is \<open>Value::to_string\<close>, \<open>json_to_vec\<close> and \<open>json_from_slice\<close> are
  \<open>serde_json::to_vec\<close> and \<open>serde_json::from_slice\<close> (\<^const>\<open>None\<close> for their error),
  \<open>parse_rfc3339\<close> is \<open>DateTime::parse_from_rfc3339\<close> as an instant in nanoseconds,
  \<open>delta_seconds\<close> is \<open>TimeDelta::seconds\<close> in nanoseconds, and \<open>sha256_hex\<close> the lower-case
  hexadecimal SHA-256 digest of \<open>sha2\<close>.
\<close>

record externals =
  json_to_string :: "json \<Rightarrow> str"
  json_to_vec :: "json \<Rightarrow> u8 list option"
  json_from_slice :: "u8 list \<Rightarrow> json option"
  parse_rfc3339 :: "str \<Rightarrow> int option"
  delta_seconds :: "i64 \<Rightarrow> int"
  sha256_hex :: "u8 list \<Rightarrow> str"

text \<open>
  One call of \<open>rand::thread_rng().gen_range(lo..hi)\<close> is a function of the bounds; what the code
  relies on is that the value lies in the half-open range.
\<close>

type_synonym rng = "f64 \<Rightarrow> f64 \<Rightarrow> f64"

definition in_range :: "rng \<Rightarrow> bool" where
  "in_range r \<longleftrightarrow> (\<forall>lo hi. lo < hi \<longrightarrow> lo \<le> r lo hi \<and> r lo hi < hi)"

lemma in_rangeD: "in_range r \<Longrightarrow> lo < hi \<Longrightarrow> lo \<le> r lo hi \<and> r lo hi < hi"
  by (simp add: in_range_def)

lemma in_range_low: "in_range (\<lambda>lo hi. lo)"
  by (simp add: in_range_def)

lemma in_range_mid: "in_range (\<lambda>lo hi. (lo + hi) / 2)"
  by (simp add: in_range_def)

text \<open>A concrete instance of the third-party functions, for closed examples.\<close>

fun demo_to_string :: "json \<Rightarrow> str" where
  "demo_to_string (JNum (PosInt n)) = show_nat (unat n)"
| "demo_to_string (JStr s) = CHR 0x22 # s @ [CHR 0x22]"
| "demo_to_string _ = ''null''"

definition demo_to_vec :: "json \<Rightarrow> u8 list option" where
  "demo_to_vec v = (case v of JStr s \<Rightarrow> Some (as_bytes (CHR 0x22 # s @ [CHR 0x22])) | _ \<Rightarrow> None)"

definition demo_from_slice :: "u8 list \<Rightarrow> json option" where
  "demo_from_slice bs =
     (if 2 \<le> length bs \<and> hd bs = 0x22 \<and> last bs = 0x22
      then Some (JStr (of_bytes (butlast (tl bs)))) else None)"

definition demo_externals :: externals where
  "demo_externals =
     \<lparr>json_to_string = demo_to_string, json_to_vec = demo_to_vec,
      json_from_slice = demo_from_slice, parse_rfc3339 = (\<lambda>s. Some (int (length s))),
      delta_seconds = (\<lambda>n. sint n * 1000000000), sha256_hex = of_bytes\<rparr>"

lemma demo_roundtrip: "demo_to_vec v = Some bs \<Longrightarrow> demo_from_slice bs = Some v"
  by (auto simp: demo_to_vec_def demo_from_slice_def as_bytes_def of_bytes_def comp_def
      split: json.splits)

end
