(* ===== verification/Models.thy ===== *)
theory Models
  imports Json
begin

text \<open>
  \<open>src/src/models.rs\<close>: the per-server polling state, address parsing, ports, editions, the rules
  that decide whether a server is polled in plugin mode and when Bedrock support is probed, and the
  construction of the initial state from a catalog entry.

  Every call of \<open>gen_range\<close> is an argument of type \<^typ>\<open>rng\<close>; the clocks are arguments too.
\<close>

definition JAVA_DEFAULT_PORT :: u16 where
  "JAVA_DEFAULT_PORT = 25565"

definition BEDROCK_DEFAULT_PORT :: u16 where
  "BEDROCK_DEFAULT_PORT = 19132"

datatype edition = Java | Bedrock

fun edition_as_str :: "edition \<Rightarrow> str" where
  "edition_as_str Java = ''java''"
| "edition_as_str Bedrock = ''bedrock''"

fun default_port :: "edition \<Rightarrow> u16" where
  "default_port Java = JAVA_DEFAULT_PORT"
| "default_port Bedrock = BEDROCK_DEFAULT_PORT"

record server_state =
  key :: str
  server_id :: str
  server :: json
  host :: str
  port :: "u16 option"
  bedrock_port :: "u16 option"
  edition :: edition
  next_due :: f64
  next_bedrock_probe :: "f64 option"
  next_query_attempt :: f64
  plugin_managed :: bool
  plugin_fallback_mode :: bool
  last_favicon_hash :: "str option"
  has_succeeded :: bool
  initial_failures :: u32
  consecutive_failures :: u32
  has_emitted_state :: bool
  last_emitted_up :: "bool option"
  last_emitted_online :: "i64 option"
  last_emitted_max_players :: "i64 option"
  last_emitted_version :: "str option"
  last_emitted_motd :: "str option"
  last_emitted_country :: "str option"
  last_emitted_country_code :: "str option"
  last_emitted_players_hash :: "str option"
  last_emitted_at :: "f64 option"

definition reset_emitted :: "server_state \<Rightarrow> server_state" where
  "reset_emitted st = st\<lparr>
     has_emitted_state := False,
     last_emitted_up := None,
     last_emitted_online := None,
     last_emitted_max_players := None,
     last_emitted_version := None,
     last_emitted_motd := None,
     last_emitted_country := None,
     last_emitted_country_code := None,
     last_emitted_players_hash := None,
     last_emitted_at := None\<rparr>"

subsection \<open>Addresses\<close>

text \<open>Parse \<open>host[:port]\<close>, with brackets around an IPv6 host.\<close>

definition parse_plain_address :: "str \<Rightarrow> str \<times> u16 option" where
  "parse_plain_address value =
     (if CHR '':'' \<in> set value \<and> count_list value (CHR '':'') = 1 then
        (case rsplit_once (CHR '':'') value of
           Some (h, port_str) \<Rightarrow>
             (case parse_u16 port_str of Some p \<Rightarrow> (h, Some p) | None \<Rightarrow> (value, None))
         | None \<Rightarrow> (value, None))
      else (value, None))"

definition parse_address :: "str \<Rightarrow> str \<times> u16 option" where
  "parse_address value =
     (case (if prefix ''['' value then find_sub '']'' value else None) of
        Some bracket_end \<Rightarrow>
          (let h = drop 1 (take bracket_end value); rest = drop (bracket_end + 1) value in
           case strip_prefix '':'' rest of
             Some port_str \<Rightarrow>
               (case parse_u16 port_str of Some p \<Rightarrow> (h, Some p) | None \<Rightarrow> (h, None))
           | None \<Rightarrow> (h, None))
      | None \<Rightarrow> parse_plain_address value)"

definition looks_like_ip :: "str \<Rightarrow> bool" where
  "looks_like_ip h = is_ip_addr h"

definition normalize_edition :: "str option \<Rightarrow> edition" where
  "normalize_edition v =
     (if map_option to_lowercase v = Some ''bedrock'' then Bedrock else Java)"

subsection \<open>Ports\<close>

text \<open>\<open>v as u16\<close> keeps the low 16 bits of a catalog number.\<close>

fun json_port :: "json \<Rightarrow> u16 option" where
  "json_port (JNum n) = map_option (ucast :: u64 \<Rightarrow> u16) (number_as_u64 n)"
| "json_port (JStr s) = parse_u16 s"
| "json_port _ = None"

definition resolve_state_ports ::
  "json \<Rightarrow> str \<Rightarrow> u16 option \<Rightarrow> edition \<Rightarrow> u16 option \<times> u16 option" where
  "resolve_state_ports srv h parsed_port ed =
     (let port0 = parsed_port;
          ping_port = Option.bind (get ''ping_port'' srv) json_port;
          port1 = (case ping_port of
              Some pp \<Rightarrow>
                let ignore_default_java = ed \<noteq> Bedrock \<and> pp = JAVA_DEFAULT_PORT \<and> \<not> looks_like_ip h
                in if \<not> ignore_default_java then Some pp else port0
            | None \<Rightarrow> port0);
          bp = Option.bind (get ''bedrock_port'' srv) json_port;
          port2 = (if ed = Bedrock \<and> port1 = None then
                     (case bp of Some b \<Rightarrow> Some b | None \<Rightarrow> port1) else port1)
      in (port2, bp))"

subsection \<open>Plugin-managed servers\<close>

definition is_plugin_managed :: "json \<Rightarrow> bool" where
  "is_plugin_managed srv =
     (let verified = unwrap_or False (Option.bind (get ''is_verified'' srv) as_bool) in
      if \<not> verified then False
      else to_lowercase (trim (unwrap_or [] (get_str ''verification_source'' srv))) = ''plugin'')"

definition parse_plugin_last_seen_at :: "externals \<Rightarrow> json \<Rightarrow> int option" where
  "parse_plugin_last_seen_at X srv =
     (case get_str ''verified_plugin_last_seen_at'' srv of
        None \<Rightarrow> None
      | Some s \<Rightarrow> let raw = trim s in if raw = [] then None else parse_rfc3339 X raw)"

definition is_plugin_fallback_mode :: "externals \<Rightarrow> json \<Rightarrow> u64 \<Rightarrow> int \<Rightarrow> bool" where
  "is_plugin_fallback_mode X srv stale_after_seconds now =
     (if \<not> is_plugin_managed srv then False
      else case parse_plugin_last_seen_at X srv of
        None \<Rightarrow> True
      | Some last_seen_at \<Rightarrow>
          let stale_after = delta_seconds X (max stale_after_seconds 60) in
          stale_after \<le> now - last_seen_at)"

subsection \<open>Probing a Java server for Bedrock support\<close>

definition wants_bedrock_probe :: "json \<Rightarrow> u64 \<Rightarrow> bool" where
  "wants_bedrock_probe srv probe_interval =
     (if probe_interval = 0 then False
      else to_lowercase (unwrap_or ''java'' (get_str ''game_edition'' srv)) = ''java'')"

definition seed_bedrock_probe :: "rng \<Rightarrow> json \<Rightarrow> f64 \<Rightarrow> u64 \<Rightarrow> f64 option" where
  "seed_bedrock_probe r srv now probe_interval =
     (if \<not> wants_bedrock_probe srv probe_interval then None
      else
        let spread = max (f64_of_u64 probe_interval) 1;
            jitter = r 0 spread
        in Some (now + jitter))"

definition schedule_next_bedrock_probe ::
  "rng \<Rightarrow> json \<Rightarrow> f64 \<Rightarrow> u64 \<Rightarrow> u64 \<Rightarrow> f64 option" where
  "schedule_next_bedrock_probe r srv now probe_interval probe_jitter =
     (if \<not> wants_bedrock_probe srv probe_interval then None
      else
        let jitter = r (-1) 1 * f64_of_u64 probe_jitter;
            interval = f64_of_u64 probe_interval + jitter
        in Some (now + max interval 60))"

definition is_internal_only_host :: "str \<Rightarrow> bool" where
  "is_internal_only_host h = prefix ''internal-'' (to_lowercase (trim h))"

subsection \<open>The initial state\<close>

definition server_key :: "externals \<Rightarrow> json \<Rightarrow> str" where
  "server_key X srv =
     unwrap_or [] (map_option
       (\<lambda>v. case v of
           JNum n \<Rightarrow> json_to_string X (JNum n)
         | JStr s \<Rightarrow> s
         | other \<Rightarrow> json_to_string X other)
       (get ''id'' srv))"

definition host_value :: "json \<Rightarrow> str" where
  "host_value srv =
     unwrap_or []
       (case Option.bind (get ''ping_ip_or_domain'' srv) as_str of
          Some s \<Rightarrow> if s \<noteq> [] then Some s else get_str ''ip_or_domain'' srv
        | None \<Rightarrow> get_str ''ip_or_domain'' srv)"

text \<open>
  \<open>r1\<close> draws the start-up delay and \<open>r2\<close> the delay of the first Bedrock probe; \<open>utc_now\<close> is the
  wall clock in nanoseconds.
\<close>

definition build_state ::
  "externals \<Rightarrow> rng \<Rightarrow> rng \<Rightarrow> int \<Rightarrow> json \<Rightarrow> f64 \<Rightarrow> u64 \<Rightarrow> u64 \<Rightarrow> u64 \<Rightarrow> server_state" where
  "build_state X r1 r2 utc_now srv now startup_spread probe_interval
     plugin_fallback_stale_seconds =
     (let sid = server_key X srv;
          (h, parsed_port) = parse_address (host_value srv);
          ed = normalize_edition (get_str ''game_edition'' srv);
          (p, bp) = resolve_state_ports srv h parsed_port ed;
          spread = max (f64_of_u64 startup_spread) 1
      in \<lparr>key = sid,
          server_id = sid,
          server = srv,
          host = h,
          port = p,
          bedrock_port = bp,
          edition = ed,
          next_due = now + r1 0 spread,
          next_bedrock_probe = seed_bedrock_probe r2 srv now probe_interval,
          next_query_attempt = now,
          plugin_managed = is_plugin_managed srv,
          plugin_fallback_mode =
            is_plugin_fallback_mode X srv plugin_fallback_stale_seconds utc_now,
          last_favicon_hash = None,
          has_succeeded = False,
          initial_failures = 0,
          consecutive_failures = 0,
          has_emitted_state = False,
          last_emitted_up = None,
          last_emitted_online = None,
          last_emitted_max_players = None,
          last_emitted_version = None,
          last_emitted_motd = None,
          last_emitted_country = None,
          last_emitted_country_code = None,
          last_emitted_players_hash = None,
          last_emitted_at = None\<rparr>)"

subsection \<open>Address parsing is inverse to printing\<close>

lemma show_u16_no_colon [simp]: "CHR '':'' \<notin> set (show_u16 p)"
  by (simp add: show_u16_def)

lemma parse_address_host_port:
  "CHR '':'' \<notin> set h \<Longrightarrow> \<not> prefix ''['' h \<Longrightarrow>
   parse_address (h @ CHR '':'' # show_u16 p) = (h, Some p)"
  using rsplit_once_append [of "CHR '':''" "show_u16 p" h]
  by (cases h)
    (auto simp: parse_address_def parse_plain_address_def count_list_append
      simp del: rsplit_once.simps)

lemma parse_address_host:
  "CHR '':'' \<notin> set h \<Longrightarrow> \<not> prefix ''['' h \<Longrightarrow> parse_address h = (h, None)"
  by (auto simp: parse_address_def parse_plain_address_def)

lemma parse_address_raw_ipv6:
  "count_list v (CHR '':'') \<noteq> 1 \<Longrightarrow> \<not> prefix ''['' v \<Longrightarrow> parse_address v = (v, None)"
  by (auto simp: parse_address_def parse_plain_address_def)

lemma find_sub_single: "c \<notin> set h \<Longrightarrow> find_sub [c] (h @ c # r) = Some (length h)"
  by (induction h) auto

lemma parse_address_bracket:
  assumes "CHR '']'' \<notin> set h"
  shows "parse_address (CHR ''['' # h @ CHR '']'' # rest) =
    (h, Option.bind (strip_prefix '':'' rest) parse_u16)"
proof -
  have "find_sub '']'' (CHR ''['' # h @ CHR '']'' # rest) = Some (Suc (length h))"
    using assms find_sub_single [of "CHR '']''" h rest] by simp
  then show ?thesis
    by (auto simp: parse_address_def split: option.splits)
qed

subsection \<open>Ports\<close>

lemma resolve_state_ports_bedrock_port [simp]:
  "snd (resolve_state_ports srv h pp ed) = Option.bind (get ''bedrock_port'' srv) json_port"
  by (simp add: resolve_state_ports_def Let_def)

text \<open>
  The port rule, read off the code as a list of candidates: the catalog's \<open>ping_port\<close> unless it is
  Java's default on a host name (an SRV record decides there), then the port of the address, then,
  for a Bedrock server, the Bedrock port.
\<close>

definition port_candidates :: "json \<Rightarrow> str \<Rightarrow> u16 option \<Rightarrow> edition \<Rightarrow> u16 list" where
  "port_candidates srv h pp ed =
     (case Option.bind (get ''ping_port'' srv) json_port of
        Some q \<Rightarrow> if ed = Java \<and> q = JAVA_DEFAULT_PORT \<and> \<not> is_ip_addr h then [] else [q]
      | None \<Rightarrow> [])
     @ (case pp of Some q \<Rightarrow> [q] | None \<Rightarrow> [])
     @ (case Option.bind (get ''bedrock_port'' srv) json_port of
          Some q \<Rightarrow> if ed = Bedrock then [q] else [] | None \<Rightarrow> [])"

lemma resolve_state_ports_first_candidate:
  "fst (resolve_state_ports srv h pp ed) =
    (case port_candidates srv h pp ed of [] \<Rightarrow> None | q # _ \<Rightarrow> Some q)"
  by (cases ed)
    (auto simp: resolve_state_ports_def port_candidates_def looks_like_ip_def Let_def
      split: option.splits)

subsection \<open>Plugin mode\<close>

lemma fallback_imp_managed:
  "is_plugin_fallback_mode X srv stale now \<Longrightarrow> is_plugin_managed srv"
  by (simp add: is_plugin_fallback_mode_def split: if_splits)

lemma fallback_mono:
  "is_plugin_fallback_mode X srv stale now \<Longrightarrow> now \<le> now' \<Longrightarrow>
   is_plugin_fallback_mode X srv stale now'"
  by (auto simp: is_plugin_fallback_mode_def Let_def split: if_splits option.splits)

lemma wants_bedrock_probe_0 [simp]: "\<not> wants_bedrock_probe srv 0"
  by (simp add: wants_bedrock_probe_def)

lemma schedule_next_bedrock_probe_None_iff [simp]:
  "schedule_next_bedrock_probe r srv now i j = None \<longleftrightarrow> \<not> wants_bedrock_probe srv i"
  by (simp add: schedule_next_bedrock_probe_def Let_def)

lemma schedule_next_bedrock_probe_later:
  "schedule_next_bedrock_probe r srv now i j = Some t \<Longrightarrow> now + 60 \<le> t"
  by (auto simp: schedule_next_bedrock_probe_def Let_def split: if_splits)

lemma seed_bedrock_probe_None_iff [simp]:
  "seed_bedrock_probe r srv now i = None \<longleftrightarrow> \<not> wants_bedrock_probe srv i"
  by (simp add: seed_bedrock_probe_def Let_def)

subsection \<open>Well-formed states\<close>

text \<open>
  The emitted fields are filled together: before the first emission none of them is set, after it
  all of those the code always sets are. Fallback mode is a mode of plugin-managed servers, and a
  Bedrock probe is scheduled only for servers that want one.
\<close>

definition emitted_ok :: "server_state \<Rightarrow> bool" where
  "emitted_ok st \<longleftrightarrow>
     (if has_emitted_state st then
        last_emitted_up st \<noteq> None \<and> last_emitted_version st \<noteq> None \<and>
        last_emitted_motd st \<noteq> None \<and> last_emitted_country st \<noteq> None \<and>
        last_emitted_country_code st \<noteq> None \<and> last_emitted_at st \<noteq> None
      else
        last_emitted_up st = None \<and> last_emitted_online st = None \<and>
        last_emitted_max_players st = None \<and> last_emitted_version st = None \<and>
        last_emitted_motd st = None \<and> last_emitted_country st = None \<and>
        last_emitted_country_code st = None \<and> last_emitted_players_hash st = None \<and>
        last_emitted_at st = None)"

definition wf_state :: "server_state \<Rightarrow> bool" where
  "wf_state st \<longleftrightarrow> emitted_ok st \<and> (plugin_fallback_mode st \<longrightarrow> plugin_managed st)"

lemma emitted_ok_reset [simp, inv_intros]: "emitted_ok (reset_emitted st)"
  by (simp add: emitted_ok_def reset_emitted_def)

lemma reset_emitted_frame [simp]:
  "key (reset_emitted st) = key st" "host (reset_emitted st) = host st"
  "next_due (reset_emitted st) = next_due st" "port (reset_emitted st) = port st"
  "plugin_managed (reset_emitted st) = plugin_managed st"
  "plugin_fallback_mode (reset_emitted st) = plugin_fallback_mode st"
  "next_bedrock_probe (reset_emitted st) = next_bedrock_probe st"
  "has_emitted_state (reset_emitted st) = False"
  by (simp_all add: reset_emitted_def)

lemma wf_reset [inv_intros]: "wf_state st \<Longrightarrow> wf_state (reset_emitted st)"
  by (simp add: wf_state_def)

lemma build_state_key [simp]:
  "key (build_state X r1 r2 utc srv now sp iv stale) = server_key X srv"
  "server_id (build_state X r1 r2 utc srv now sp iv stale) = server_key X srv"
  by (simp_all add: build_state_def Let_def split: prod.splits)

lemma build_state_next_due [simp]:
  "next_due (build_state X r1 r2 utc srv now sp iv stale) = now + r1 0 (max (f64_of_u64 sp) 1)"
  by (simp add: build_state_def Let_def split: prod.splits)

lemma build_state_next_bedrock_probe [simp]:
  "next_bedrock_probe (build_state X r1 r2 utc srv now sp iv stale) = seed_bedrock_probe r2 srv now iv"
  by (simp add: build_state_def Let_def split: prod.splits)

lemma wf_build_state [simp, inv_intros]: "wf_state (build_state X r1 r2 utc srv now sp iv stale)"
  by (auto simp: wf_state_def emitted_ok_def build_state_def Let_def
      dest: fallback_imp_managed split: prod.splits)

lemma build_state_next_due_range:
  "in_range r1 \<Longrightarrow>
   now \<le> next_due (build_state X r1 r2 utc srv now sp iv stale) \<and>
   next_due (build_state X r1 r2 utc srv now sp iv stale) < now + max (f64_of_u64 sp) 1"
  using in_rangeD [of r1 0 "max (f64_of_u64 sp) 1"] by simp

subsection \<open>What the rules promise\<close>

text \<open>How an address is written: brackets around a host that has colons, then the port.\<close>

definition print_address :: "str \<Rightarrow> u16 \<Rightarrow> str" where
  "print_address h p =
     (if CHR '':'' \<in> set h then CHR ''['' # h @ CHR '']'' # CHR '':'' # show_u16 p
      else h @ CHR '':'' # show_u16 p)"

text \<open>Reading a printed address gives the host and the port back, for names, IPv4 and IPv6.\<close>

theorem parse_print_address:
  assumes "CHR '']'' \<notin> set h" and "CHR ''['' \<notin> set h"
  shows "parse_address (print_address h p) = (h, Some p)"
proof (cases "CHR '':'' \<in> set h")
  case True
  then show ?thesis
    using parse_address_bracket [OF assms(1), of "CHR '':'' # show_u16 p"]
    by (simp add: print_address_def strip_prefix_def)
next
  case False
  have "\<not> prefix ''['' h" using assms(2) by (cases h) auto
  with False show ?thesis by (simp add: print_address_def parse_address_host_port)
qed

theorem parse_print_address_witness:
  "parse_address (print_address ''2001:db8::1'' 19132) = (''2001:db8::1'', Some 19132)"
  by (rule parse_print_address) simp_all

text \<open>
  The port that is polled is the first candidate: the catalog's port unless it is Java's default
  for a host name, then the port of the address, then, for a Bedrock server, the Bedrock port; none
  of them leaves the choice to an SRV record or the default.
\<close>

theorem state_port_is_first_candidate:
  "fst (resolve_state_ports srv h pp ed) =
    (case port_candidates srv h pp ed of [] \<Rightarrow> None | q # _ \<Rightarrow> Some q)"
  by (rule resolve_state_ports_first_candidate)

text \<open>
  A new server is well formed, is due within the start-up spread, and its first Bedrock probe, if
  it has one, within one probe interval.
\<close>

theorem build_state_due:
  assumes "in_range r1" and "in_range r2"
  shows "wf_state (build_state X r1 r2 utc srv now sp iv stale) \<and>
    now \<le> next_due (build_state X r1 r2 utc srv now sp iv stale) \<and>
    next_due (build_state X r1 r2 utc srv now sp iv stale) < now + max (f64_of_u64 sp) 1 \<and>
    (case next_bedrock_probe (build_state X r1 r2 utc srv now sp iv stale) of
       None \<Rightarrow> \<not> wants_bedrock_probe srv iv
     | Some t \<Rightarrow> now \<le> t \<and> t < now + max (f64_of_u64 iv) 1)"
  using build_state_next_due_range [OF assms(1)] in_rangeD [OF assms(2), of 0 "max (f64_of_u64 iv) 1"]
  by (simp add: seed_bedrock_probe_def Let_def)

theorem build_state_due_witness:
  "next_due (build_state demo_externals (\<lambda>lo hi. (lo + hi) / 2) (\<lambda>lo hi. lo) 0
     (json_obj [(''id'', JStr ''a'')]) 100 30 3600 600) < 130"
  using build_state_due [OF in_range_mid in_range_low, of demo_externals 0 "json_obj [(''id'', JStr ''a'')]" 100 30 3600 600]
  by (simp add: f64_of_u64_def)

text \<open>The next Bedrock probe is at least a minute away, whatever jitter is configured and drawn.\<close>

theorem next_bedrock_probe_later:
  assumes "schedule_next_bedrock_probe r srv now iv jitter = Some t"
  shows "now + 60 \<le> t"
  using assms by (rule schedule_next_bedrock_probe_later)

theorem next_bedrock_probe_later_witness:
  "\<exists>t. schedule_next_bedrock_probe (\<lambda>lo hi. lo) (json_obj []) 10 3600 9000 = Some t \<and> 70 \<le> t"
proof -
  obtain t where t: "schedule_next_bedrock_probe (\<lambda>lo hi. lo) (json_obj []) 10 3600 9000 = Some t"
    by (simp add: schedule_next_bedrock_probe_def wants_bedrock_probe_def get_str_def to_lowercase_def
        lower_char_def ascii_lower_def chars.simps char_width_def Let_def)
  with next_bedrock_probe_later [OF t] show ?thesis by simp
qed

text \<open>
  A server is in fallback mode only when a plugin manages it, and stays in it until the plugin
  is seen again: time alone does not end it.
\<close>

theorem fallback_mode_stays:
  assumes "is_plugin_fallback_mode X srv stale now" and "now \<le> now'"
  shows "is_plugin_managed srv \<and> is_plugin_fallback_mode X srv stale now'"
  using assms by (auto intro: fallback_imp_managed fallback_mono)

theorem fallback_mode_stays_witness:
  "is_plugin_fallback_mode demo_externals
     (json_obj [(''is_verified'', JBool True), (''verification_source'', JStr ''plugin'')]) 600 1000"
proof -
  let ?srv = "json_obj [(''is_verified'', JBool True), (''verification_source'', JStr ''plugin'')]"
  have "is_plugin_fallback_mode demo_externals ?srv 600 5"
    by (simp add: is_plugin_fallback_mode_def is_plugin_managed_def parse_plugin_last_seen_at_def get_str_def
        to_lowercase_def lower_char_def ascii_lower_def chars.simps char_width_def trim_def trim_start_def trim_end_def
        is_whitespace_def Let_def)
  then show ?thesis using fallback_mode_stays [of demo_externals ?srv 600 5 1000] by simp
qed

end
