(* ===== verification/Change_Detection.thy ===== *)
theory Change_Detection
  imports Models
begin

text \<open>
  \<open>src/src/change_detection.rs\<close>: the comparison of a poll result with the last emitted state, which
  decides whether a row goes to the monitoring service and with which event type.

  \<open>build_change_payload\<close> is one Rust function; here its four stretches are definitions of their own:
  what is observed now (\<open>current_obs\<close>), which event that is (\<open>event_of\<close>), the row
  (\<open>change_row\<close>) and the update of the emitted fields (\<open>remember\<close>).
\<close>

definition extract_players :: "json \<Rightarrow> str list" where
  "extract_players extra =
     (case Option.bind (get ''players'' extra) as_array of
        None \<Rightarrow> []
      | Some arr \<Rightarrow> keep_new {} (filter (\<lambda>n. n \<noteq> []) (map trim (List.map_filter as_str arr))))"

definition players_hash :: "externals \<Rightarrow> str list \<Rightarrow> str option" where
  "players_hash X players =
     (if players = [] then None
      else Some (sha256_hex X (as_bytes (join [CHR 0x0A] players))))"

record observation =
  obs_up :: "bool option"
  obs_online :: "i64 option"
  obs_max :: "i64 option"
  obs_version :: str
  obs_motd :: str
  obs_country :: str
  obs_country_code :: str
  obs_hash :: "str option"

datatype event =
  StateFull | ServerUp | ServerDown | OnlineChanged | StateUpdated | Heartbeat

fun event_name :: "event \<Rightarrow> str" where
  "event_name StateFull = ''state_full''"
| "event_name ServerUp = ''server_up''"
| "event_name ServerDown = ''server_down''"
| "event_name OnlineChanged = ''online_changed''"
| "event_name StateUpdated = ''state_updated''"
| "event_name Heartbeat = ''heartbeat''"

definition text_field :: "str \<Rightarrow> json \<Rightarrow> str" where
  "text_field k payload = trim (unwrap_or [] (get_str k payload))"

text \<open>The players and the observation; while a server is down the last known metadata stays.\<close>

definition current_obs ::
  "externals \<Rightarrow> server_state \<Rightarrow> json \<Rightarrow> bool \<Rightarrow> str list \<times> observation" where
  "current_obs X st payload status_ok =
     (let current_up = status_ok;
          current_online = (if \<not> current_up then Some 0 else get_i64 ''online'' payload);
          current_max = get_i64 ''max_players'' payload;
          current_version = text_field ''version'' payload;
          current_motd = text_field ''motd'' payload;
          current_country = text_field ''country'' payload;
          current_country_code = text_field ''country_code'' payload;
          extra = unwrap_or (json_obj []) (get ''extra'' payload);
          players = extract_players extra;
          phash = players_hash X players
      in if \<not> current_up then
           ([], \<lparr>obs_up = Some current_up,
                 obs_online = current_online,
                 obs_max = last_emitted_max_players st,
                 obs_version = unwrap_or [] (last_emitted_version st),
                 obs_motd = unwrap_or [] (last_emitted_motd st),
                 obs_country = (if current_country = [] then unwrap_or [] (last_emitted_country st)
                                else current_country),
                 obs_country_code =
                   (if current_country_code = [] then unwrap_or [] (last_emitted_country_code st)
                    else current_country_code),
                 obs_hash = None\<rparr>)
         else
           (players, \<lparr>obs_up = Some current_up,
                      obs_online = current_online,
                      obs_max = current_max,
                      obs_version = current_version,
                      obs_motd = current_motd,
                      obs_country = current_country,
                      obs_country_code = current_country_code,
                      obs_hash = phash\<rparr>))"

text \<open>The event, \<^const>\<open>None\<close> when nothing is to be emitted.\<close>

definition event_of :: "server_state \<Rightarrow> observation \<Rightarrow> f64 \<Rightarrow> f64 \<Rightarrow> event option" where
  "event_of st ob now heartbeat_interval =
     (let changed_online = last_emitted_online st \<noteq> obs_online ob;
          changed_up = last_emitted_up st \<noteq> obs_up ob;
          changed_meta =
            (last_emitted_max_players st \<noteq> obs_max ob \<or>
             unwrap_or [] (last_emitted_version st) \<noteq> obs_version ob \<or>
             unwrap_or [] (last_emitted_motd st) \<noteq> obs_motd ob \<or>
             unwrap_or [] (last_emitted_country st) \<noteq> obs_country ob \<or>
             unwrap_or [] (last_emitted_country_code st) \<noteq> obs_country_code ob);
          changed_players = last_emitted_players_hash st \<noteq> obs_hash ob
      in if \<not> has_emitted_state st then Some StateFull
         else if changed_up then (if obs_up ob = Some True then Some ServerUp else Some ServerDown)
         else if changed_online then Some OnlineChanged
         else if changed_meta \<or> changed_players then Some StateUpdated
         else if 0 < heartbeat_interval then
           (let elapsed = (case last_emitted_at st of Some t \<Rightarrow> now - t | None \<Rightarrow> heartbeat_interval)
            in if heartbeat_interval \<le> elapsed then Some Heartbeat else None)
         else None)"

definition change_row ::
  "server_state \<Rightarrow> json \<Rightarrow> str list \<Rightarrow> observation \<Rightarrow> event \<Rightarrow> json" where
  "change_row st payload players ob ev =
     (let out_extra =
        json_obj
          ((if players \<noteq> [] then [(''players'', JArr (map JStr players))] else [])
           @ [(''poll_status'', JStr (if obs_up ob = Some True then ''ok'' else ''failed''))]
           @ (if plugin_managed st \<and> \<not> plugin_fallback_mode st
              then [(''compare_probe'', JBool True)] else [])
           @ (if plugin_fallback_mode st then [(''plugin_fallback'', JBool True)] else []))
      in json_obj
          [(''server_id'', JStr (server_id st)),
           (''collected_at'', unwrap_or JNull (get ''collected_at'' payload)),
           (''online'', json_opt json_i64 (obs_online ob)),
           (''max_players'', json_opt json_i64 (obs_max ob)),
           (''version'', JStr (obs_version ob)),
           (''motd'', JStr (obs_motd ob)),
           (''country'', JStr (obs_country ob)),
           (''country_code'', JStr (obs_country_code ob)),
           (''event_type'', JStr (event_name ev)),
           (''extra'', out_extra)])"

definition remember :: "server_state \<Rightarrow> observation \<Rightarrow> f64 \<Rightarrow> server_state" where
  "remember st ob now = st\<lparr>
     has_emitted_state := True,
     last_emitted_up := obs_up ob,
     last_emitted_online := obs_online ob,
     last_emitted_max_players := obs_max ob,
     last_emitted_version := Some (obs_version ob),
     last_emitted_motd := Some (obs_motd ob),
     last_emitted_country := Some (obs_country ob),
     last_emitted_country_code := Some (obs_country_code ob),
     last_emitted_players_hash := obs_hash ob,
     last_emitted_at := Some now\<rparr>"

definition build_change_payload ::
  "externals \<Rightarrow> server_state \<Rightarrow> json \<Rightarrow> bool \<Rightarrow> f64 \<Rightarrow> f64 \<Rightarrow> server_state \<times> json option" where
  "build_change_payload X st payload status_ok now heartbeat_interval =
     (let (players, ob) = current_obs X st payload status_ok in
      case event_of st ob now heartbeat_interval of
        None \<Rightarrow> (st, None)
      | Some ev \<Rightarrow> (remember st ob now, Some (change_row st payload players ob ev)))"

subsection \<open>The abstract view\<close>

text \<open>What the emitted fields say about the server, in the shape of an observation.\<close>

definition last_obs :: "server_state \<Rightarrow> observation" where
  "last_obs st =
     \<lparr>obs_up = last_emitted_up st,
      obs_online = last_emitted_online st,
      obs_max = last_emitted_max_players st,
      obs_version = unwrap_or [] (last_emitted_version st),
      obs_motd = unwrap_or [] (last_emitted_motd st),
      obs_country = unwrap_or [] (last_emitted_country st),
      obs_country_code = unwrap_or [] (last_emitted_country_code st),
      obs_hash = last_emitted_players_hash st\<rparr>"

lemma last_obs_remember [simp, view_simps]: "last_obs (remember st ob now) = ob"
  by (simp add: last_obs_def remember_def)

lemma obs_up_last_obs [simp]: "obs_up (last_obs st) = last_emitted_up st"
  by (simp add: last_obs_def)

lemma remember_frame [simp]:
  "key (remember st ob now) = key st" "server_id (remember st ob now) = server_id st"
  "next_due (remember st ob now) = next_due st"
  "plugin_managed (remember st ob now) = plugin_managed st"
  "plugin_fallback_mode (remember st ob now) = plugin_fallback_mode st"
  "has_emitted_state (remember st ob now)" "last_emitted_at (remember st ob now) = Some now"
  "last_emitted_up (remember st ob now) = obs_up ob"
  by (simp_all add: remember_def)

lemma obs_up_current [simp]: "obs_up (snd (current_obs X st payload ok)) = Some ok"
  by (simp add: current_obs_def Let_def)

lemma current_obs_up: "current_obs X st payload True = current_obs X st' payload True"
  by (simp add: current_obs_def Let_def)

text \<open>Observing the same result again after remembering it gives the same observation.\<close>

lemma current_obs_stable:
  assumes "current_obs X st payload ok = (players, ob)"
  shows "current_obs X (remember st ob now) payload ok = (players, ob)"
  using assms by (cases ok) (auto simp: current_obs_def Let_def remember_def)

text \<open>No change and no heartbeat due: exactly then nothing is emitted.\<close>

definition heartbeat_due :: "server_state \<Rightarrow> f64 \<Rightarrow> f64 \<Rightarrow> bool" where
  "heartbeat_due st now hb \<longleftrightarrow>
     0 < hb \<and> (case last_emitted_at st of None \<Rightarrow> True | Some t \<Rightarrow> hb \<le> now - t)"

lemma event_of_None_iff:
  "event_of st ob now hb = None \<longleftrightarrow>
     has_emitted_state st \<and> ob = last_obs st \<and> \<not> heartbeat_due st now hb"
  by (cases ob)
    (auto simp: event_of_def last_obs_def heartbeat_due_def Let_def split: option.splits)

lemma event_of_StateFull_iff: "event_of st ob now hb = Some StateFull \<longleftrightarrow> \<not> has_emitted_state st"
  by (auto simp: event_of_def Let_def split: option.splits)

lemma event_of_ServerUp_iff:
  "event_of st ob now hb = Some ServerUp \<longleftrightarrow>
     has_emitted_state st \<and> last_emitted_up st \<noteq> obs_up ob \<and> obs_up ob = Some True"
  by (auto simp: event_of_def Let_def split: option.splits)

lemma event_of_ServerDown_iff:
  "event_of st ob now hb = Some ServerDown \<longleftrightarrow>
     has_emitted_state st \<and> last_emitted_up st \<noteq> obs_up ob \<and> obs_up ob \<noteq> Some True"
  by (auto simp: event_of_def Let_def split: option.splits)

lemma event_of_Heartbeat_iff:
  "event_of st ob now hb = Some Heartbeat \<longleftrightarrow>
     has_emitted_state st \<and> ob = last_obs st \<and> heartbeat_due st now hb"
  by (cases ob)
    (auto simp: event_of_def last_obs_def heartbeat_due_def Let_def split: option.splits)

lemmas event_iffs =
  event_of_None_iff event_of_StateFull_iff event_of_ServerUp_iff event_of_ServerDown_iff
  event_of_Heartbeat_iff

lemma build_change_payload_cases:
  obtains (quiet) "has_emitted_state st" "snd (current_obs X st payload ok) = last_obs st"
      "\<not> heartbeat_due st now hb" "build_change_payload X st payload ok now hb = (st, None)"
  | (emit) players ob ev where "current_obs X st payload ok = (players, ob)"
      "event_of st ob now hb = Some ev"
      "build_change_payload X st payload ok now hb =
         (remember st ob now, Some (change_row st payload players ob ev))"
proof (cases "current_obs X st payload ok")
  case (Pair players ob)
  show ?thesis
  proof (cases "event_of st ob now hb")
    case None
    then have "has_emitted_state st" "ob = last_obs st" "\<not> heartbeat_due st now hb"
      by (auto simp: event_of_None_iff)
    with None Pair show ?thesis
      by (intro quiet) (auto simp: build_change_payload_def)
  next
    case (Some ev)
    with Pair show ?thesis
      by (intro emit) (auto simp: build_change_payload_def)
  qed
qed

lemma wf_build_change_payload [inv_intros]:
  "wf_state st \<Longrightarrow> wf_state (fst (build_change_payload X st payload ok now hb))"
proof (cases rule: build_change_payload_cases [of st X payload ok now hb])
  case (emit players ob ev)
  then have "obs_up ob = Some ok" using obs_up_current [of X st payload ok] by simp
  moreover assume "wf_state st"
  ultimately show ?thesis
    using emit by (simp add: wf_state_def emitted_ok_def remember_def)
qed simp

subsection \<open>Rows\<close>

text \<open>What a consumer reads from a row.\<close>

record row_view =
  row_event :: "str option"
  row_status :: "str option"
  row_online :: "i64 option"
  row_max :: "i64 option"
  row_version :: "str option"
  row_motd :: "str option"
  row_country :: "str option"
  row_country_code :: "str option"
  row_players :: "str list"

definition players_in_row :: "json \<Rightarrow> str list" where
  "players_in_row row =
     (case Option.bind (Option.bind (get ''extra'' row) (get ''players'')) as_array of
        None \<Rightarrow> []
      | Some arr \<Rightarrow> List.map_filter as_str arr)"

definition view_of_row :: "json \<Rightarrow> row_view" where
  "view_of_row row =
     \<lparr>row_event = get_str ''event_type'' row,
      row_status = Option.bind (get ''extra'' row) (get_str ''poll_status''),
      row_online = get_i64 ''online'' row,
      row_max = get_i64 ''max_players'' row,
      row_version = get_str ''version'' row,
      row_motd = get_str ''motd'' row,
      row_country = get_str ''country'' row,
      row_country_code = get_str ''country_code'' row,
      row_players = players_in_row row\<rparr>"

definition status_name :: "observation \<Rightarrow> str" where
  "status_name ob = (if obs_up ob = Some True then ''ok'' else ''failed'')"

definition view_of_obs :: "event \<Rightarrow> str list \<Rightarrow> observation \<Rightarrow> row_view" where
  "view_of_obs ev players ob =
     \<lparr>row_event = Some (event_name ev),
      row_status = Some (status_name ob),
      row_online = obs_online ob,
      row_max = obs_max ob,
      row_version = Some (obs_version ob),
      row_motd = Some (obs_motd ob),
      row_country = Some (obs_country ob),
      row_country_code = Some (obs_country_code ob),
      row_players = players\<rparr>"

lemma map_filter_as_str [simp]: "List.map_filter as_str (map JStr xs) = xs"
  by (induction xs) (simp_all add: List.map_filter_def)

lemma view_of_change_row [simp, view_simps]:
  "view_of_row (change_row st payload players ob ev) = view_of_obs ev players ob"
  by (simp add: view_of_row_def view_of_obs_def change_row_def players_in_row_def status_name_def Let_def get_str_def
      get_i64_def)

lemma change_row_server_id [simp]:
  "get_str ''server_id'' (change_row st payload players ob ev) = Some (server_id st)"
  by (simp add: change_row_def Let_def get_str_def)

subsection \<open>A run of polls\<close>

text \<open>The polls of one server, each a payload, its status and the time it is compared at.\<close>

type_synonym poll = "json \<times> bool \<times> f64"

fun run_changes :: "externals \<Rightarrow> f64 \<Rightarrow> server_state \<Rightarrow> poll list \<Rightarrow> server_state \<times> json list" where
  "run_changes X hb st [] = (st, [])"
| "run_changes X hb st ((payload, ok, now) # ps) =
     (let (st1, out) = build_change_payload X st payload ok now hb;
          (st2, rows) = run_changes X hb st1 ps
      in (st2, (case out of Some r \<Rightarrow> [r] | None \<Rightarrow> []) @ rows))"

lemma obs_after_build:
  assumes "build_change_payload X st payload ok now hb = (st1, out)"
  shows "snd (current_obs X st1 payload ok) = last_obs st1"
proof (cases rule: build_change_payload_cases [of st X payload ok now hb])
  case quiet
  with assms show ?thesis by simp
next
  case (emit players ob ev)
  with assms show ?thesis by (auto dest: current_obs_stable [where now = now])
qed

lemma has_emitted_after_build:
  "build_change_payload X st payload ok now hb = (st1, out) \<Longrightarrow> has_emitted_state st1"
  by (cases rule: build_change_payload_cases [of st X payload ok now hb]) auto

lemma up_after_build:
  "build_change_payload X st payload ok now hb = (st1, out) \<Longrightarrow> last_emitted_up st1 = Some ok"
  using obs_after_build [of X st payload ok now hb st1 out] obs_up_current [of X st1 payload ok]
  by (metis last_obs_def observation.select_convs(1))

text \<open>
  A row shows an observation when it has the status, the numbers, the texts and the players of it (the players by
  the digest that an observation keeps of them), and does not call the server up or down against its status.
\<close>

definition row_shows :: "externals \<Rightarrow> json \<Rightarrow> observation \<Rightarrow> bool" where
  "row_shows X row ob \<longleftrightarrow>
     (let v = view_of_row row in
      row_status v = Some (status_name ob) \<and> row_online v = obs_online ob \<and> row_max v = obs_max ob \<and>
      row_version v = Some (obs_version ob) \<and> row_motd v = Some (obs_motd ob) \<and>
      row_country v = Some (obs_country ob) \<and> row_country_code v = Some (obs_country_code ob) \<and>
      players_hash X (row_players v) = obs_hash ob \<and>
      (row_event v = Some ''server_up'' \<longrightarrow> obs_up ob = Some True) \<and>
      (row_event v = Some ''server_down'' \<longrightarrow> obs_up ob = Some False))"

lemma players_of_current_obs:
  "current_obs X st payload ok = (players, ob) \<Longrightarrow> players_hash X players = obs_hash ob"
  by (auto simp: current_obs_def players_hash_def Let_def split: if_splits)

lemma build_row_shows:
  assumes "build_change_payload X st payload ok now hb = (st1, Some row)"
  shows "row_shows X row (last_obs st1)"
proof (cases rule: build_change_payload_cases [of st X payload ok now hb])
  case (emit players ob ev)
  have up: "obs_up ob = Some ok" using emit(1) obs_up_current [of X st payload ok] by simp
  have "ev = ServerUp \<longrightarrow> obs_up ob = Some True" "ev = ServerDown \<longrightarrow> obs_up ob = Some False"
    using emit(2) up by (auto simp: event_iffs)
  moreover have "row = change_row st payload players ob ev" "last_obs st1 = ob" using emit(3) assms by auto
  ultimately show ?thesis
    using players_of_current_obs [OF emit(1)] by (cases ev) (simp_all add: row_shows_def view_of_obs_def Let_def)
qed (use assms in simp)

lemma build_quiet_same:
  "build_change_payload X st payload ok now hb = (st1, None) \<Longrightarrow> st1 = st"
  by (cases rule: build_change_payload_cases [of st X payload ok now hb]) auto

lemma run_last_row:
  "run_changes X hb st ps = (st', rows) \<Longrightarrow>
   (if rows = [] then last_obs st' = last_obs st else row_shows X (last rows) (last_obs st'))"
proof (induction ps arbitrary: st rows)
  case (Cons p ps)
  obtain payload ok now where p: "p = (payload, ok, now)" by (cases p)
  obtain st1 out where b: "build_change_payload X st payload ok now hb = (st1, out)"
    by fastforce
  obtain rows' where r: "run_changes X hb st1 ps = (st', rows')"
    and rows: "rows = (case out of Some r \<Rightarrow> [r] | None \<Rightarrow> []) @ rows'"
    using Cons.prems p b by (auto split: prod.splits)
  show ?case
    using Cons.IH [OF r] rows b
    by (cases out) (auto dest: build_quiet_same build_row_shows split: if_splits)
qed simp

lemma run_last_obs:
  "run_changes X hb st ps = (st', rows) \<Longrightarrow> ps \<noteq> [] \<Longrightarrow> last ps = (payload, ok, now) \<Longrightarrow>
   snd (current_obs X st' payload ok) = last_obs st'"
proof (induction ps arbitrary: st rows)
  case (Cons p ps)
  obtain payload1 ok1 now1 where p: "p = (payload1, ok1, now1)" by (cases p)
  obtain st1 out where b: "build_change_payload X st payload1 ok1 now1 hb = (st1, out)"
    by fastforce
  obtain rows' where r: "run_changes X hb st1 ps = (st', rows')"
    using Cons.prems p b by (auto split: prod.splits)
  show ?case
  proof (cases "ps = []")
    case True
    with r Cons.prems p b show ?thesis by (auto dest: obs_after_build)
  next
    case False
    with Cons.IH [OF r False] Cons.prems show ?thesis by simp
  qed
qed simp

lemma run_first_emits:
  "run_changes X hb st ps = (st', rows) \<Longrightarrow> ps \<noteq> [] \<Longrightarrow> \<not> has_emitted_state st \<Longrightarrow> rows \<noteq> []"
  by (cases ps)
    (auto simp: build_change_payload_def event_of_None_iff split: prod.splits option.splits)

text \<open>
  \<open>alternates up\<close>: no further \<open>state_full\<close>, and \<open>server_up\<close> and \<open>server_down\<close> in turn, the first of
  them leaving the state \<open>up\<close>.
\<close>

fun alternates :: "bool \<Rightarrow> str option list \<Rightarrow> bool" where
  "alternates up [] = True"
| "alternates up (e # es) =
     (if e = Some ''server_up'' then \<not> up \<and> alternates True es
      else if e = Some ''server_down'' then up \<and> alternates False es
      else e \<noteq> Some ''state_full'' \<and> alternates up es)"

definition row_events :: "json list \<Rightarrow> str option list" where
  "row_events rows = map (\<lambda>row. row_event (view_of_row row)) rows"

lemma row_event_view_of_obs [simp]: "row_event (view_of_obs ev players ob) = Some (event_name ev)"
  by (simp add: view_of_obs_def)

lemma event_name_inject [simp]: "event_name e = event_name e' \<longleftrightarrow> e = e'"
  by (cases e; cases e') auto

lemma event_names [simp]:
  "event_name e = ''server_up'' \<longleftrightarrow> e = ServerUp"
  "event_name e = ''server_down'' \<longleftrightarrow> e = ServerDown"
  "event_name e = ''state_full'' \<longleftrightarrow> e = StateFull"
  by (cases e; simp)+

lemma event_keeps_up:
  "event_of st ob now hb = Some ev \<Longrightarrow> ev \<noteq> StateFull \<Longrightarrow> ev \<noteq> ServerUp \<Longrightarrow> ev \<noteq> ServerDown \<Longrightarrow>
   last_emitted_up st = obs_up ob"
  by (auto simp: event_of_def Let_def split: if_splits option.splits)

lemma run_alternates:
  "run_changes X hb st ps = (st', rows) \<Longrightarrow> has_emitted_state st \<Longrightarrow> last_emitted_up st = Some up \<Longrightarrow>
   alternates up (row_events rows)"
proof (induction ps arbitrary: st rows up)
  case Nil
  then show ?case by (simp add: row_events_def)
next
  case (Cons p ps)
  obtain payload ok now where p: "p = (payload, ok, now)" by (cases p)
  show ?case
  proof (cases rule: build_change_payload_cases [of st X payload ok now hb])
    case quiet
    with Cons p show ?thesis by (auto split: prod.splits)
  next
    case (emit players ob ev)
    let ?st = "remember st ob now" and ?row = "change_row st payload players ob ev"
    have up: "obs_up ob = Some ok"
      using emit(1) obs_up_current [of X st payload ok] by simp
    obtain rows' where r: "run_changes X hb ?st ps = (st', rows')" and rows: "rows = ?row # rows'"
      using Cons.prems p emit by (auto split: prod.splits)
    have "alternates ok (row_events rows')"
      using Cons.IH [OF r] up by simp
    with rows emit(2) up Cons.prems(2,3) show ?thesis
      by (cases ev) (auto simp: row_events_def event_iffs dest: event_keeps_up)
  qed
qed

subsection \<open>What the monitoring service sees\<close>

text \<open>A server to try things on.\<close>

definition demo_catalog :: json where
  "demo_catalog = json_obj [(''id'', JStr ''srv-1''), (''ip_or_domain'', JStr ''play.example.org:25570'')]"

definition demo_state :: server_state where
  "demo_state = build_state demo_externals (\<lambda>lo hi. lo) (\<lambda>lo hi. lo) 0 demo_catalog 100 30 3600 600"

definition demo_poll :: "int \<Rightarrow> json" where
  "demo_poll n = json_obj [(''online'', JNum (PosInt (word_of_int n))), (''version'', JStr ''1.21''),
     (''motd'', JStr ''hi'')]"

lemma demo_state_fresh [simp]: "\<not> has_emitted_state demo_state"
  by (simp add: demo_state_def build_state_def Let_def split: prod.splits)

text \<open>
  C7: The consumer is up to date. From the state in which nothing has been emitted, and after any
  polls at any times and with any heartbeat interval, rows have been emitted and the last of them
  shows what the last poll observed, its status and its players included, however long ago it was emitted.
\<close>

theorem last_row_shows_latest_poll:
  assumes "\<not> has_emitted_state st"
    and "run_changes X hb st (ps @ [(payload, ok, now)]) = (st', rows)"
  shows "rows \<noteq> [] \<and> row_shows X (last rows) (snd (current_obs X st' payload ok))"
proof -
  have ne: "rows \<noteq> []" using run_first_emits [OF assms(2)] assms(1) by simp
  have "snd (current_obs X st' payload ok) = last_obs st'"
    using run_last_obs [OF assms(2)] by simp
  with ne run_last_row [OF assms(2)] show ?thesis by simp
qed

theorem last_row_shows_latest_poll_witness:
  "\<exists>st' rows. run_changes demo_externals 300 demo_state
       [(demo_poll 0, True, 10), (demo_poll 0, False, 20)] = (st', rows) \<and> rows \<noteq> [] \<and>
     row_status (view_of_row (last rows)) = Some ''failed'' \<and> row_online (view_of_row (last rows)) = Some 0 \<and>
     players_in_row (last rows) = []"
proof -
  obtain st' rows where r: "run_changes demo_externals 300 demo_state
      ([(demo_poll 0, True, 10)] @ [(demo_poll 0, False, 20)]) = (st', rows)"
    by fastforce
  have "obs_up (snd (current_obs demo_externals st' (demo_poll 0) False)) = Some False"
    "obs_online (snd (current_obs demo_externals st' (demo_poll 0) False)) = Some 0"
    "obs_hash (snd (current_obs demo_externals st' (demo_poll 0) False)) = None"
    by (simp_all add: current_obs_def Let_def)
  with last_row_shows_latest_poll [OF demo_state_fresh r] r show ?thesis
    by (auto simp: row_shows_def status_name_def view_of_row_def players_hash_def Let_def split: if_splits)
qed

text \<open>
  C24: The events of one server form a history: one \<open>state_full\<close>, the first, and after it
  \<open>server_up\<close> and \<open>server_down\<close> strictly in turn, starting from the status of the first poll.
\<close>

theorem up_and_down_alternate:
  assumes "\<not> has_emitted_state st"
    and "run_changes X hb st ((payload, ok, now) # ps) = (st', rows)"
  shows "\<exists>es. row_events rows = Some ''state_full'' # es \<and> alternates ok es"
proof -
  obtain players ob where ob: "current_obs X st payload ok = (players, ob)" by fastforce
  have ev: "event_of st ob now hb = Some StateFull" using assms(1) by (simp add: event_iffs)
  obtain rows' where r: "run_changes X hb (remember st ob now) ps = (st', rows')"
    and rows: "rows = change_row st payload players ob StateFull # rows'"
    using assms(2) ob ev by (auto simp: build_change_payload_def split: prod.splits)
  have "obs_up ob = Some ok" using ob obs_up_current [of X st payload ok] by simp
  then have "alternates ok (row_events rows')" using run_alternates [OF r] by simp
  with rows show ?thesis by (simp add: row_events_def)
qed

theorem up_and_down_alternate_witness:
  "\<exists>st' rows es. run_changes demo_externals 300 demo_state
       [(demo_poll 3, True, 10), (demo_poll 3, False, 20), (demo_poll 3, False, 30)] = (st', rows) \<and>
     row_events rows = Some ''state_full'' # es \<and> alternates True es"
proof -
  obtain st' rows where r: "run_changes demo_externals 300 demo_state
      [(demo_poll 3, True, 10), (demo_poll 3, False, 20), (demo_poll 3, False, 30)] = (st', rows)"
    by fastforce
  from up_and_down_alternate [OF demo_state_fresh r] r show ?thesis by auto
qed

text \<open>
  Exactly when nothing is emitted: something was emitted before, the poll observes what the last
  row said, and no heartbeat is due.
\<close>

theorem silent_iff_unchanged:
  "snd (build_change_payload X st payload ok now hb) = None \<longleftrightarrow>
     has_emitted_state st \<and> snd (current_obs X st payload ok) = last_obs st \<and>
     \<not> (0 < hb \<and> (case last_emitted_at st of None \<Rightarrow> True | Some t \<Rightarrow> hb \<le> now - t))"
proof -
  have "snd (build_change_payload X st payload ok now hb) = None \<longleftrightarrow>
      event_of st (snd (current_obs X st payload ok)) now hb = None"
    by (auto simp: build_change_payload_def split: prod.splits option.splits)
  then show ?thesis by (simp add: event_of_None_iff heartbeat_due_def)
qed

text \<open>
  A failed poll reports zero players online and keeps the metadata of the last row: the
  version, the message and the maximum number of players.
\<close>

theorem failed_poll_keeps_metadata:
  assumes "has_emitted_state st" and "last_emitted_up st = Some True"
  shows "\<exists>st' row. build_change_payload X st payload False now hb = (st', Some row) \<and>
    row_event (view_of_row row) = Some ''server_down'' \<and>
    row_online (view_of_row row) = Some 0 \<and>
    row_max (view_of_row row) = last_emitted_max_players st \<and>
    row_version (view_of_row row) = Some (unwrap_or [] (last_emitted_version st)) \<and>
    row_motd (view_of_row row) = Some (unwrap_or [] (last_emitted_motd st)) \<and>
    last_emitted_players_hash st' = None"
proof -
  obtain players ob where ob: "current_obs X st payload False = (players, ob)" by fastforce
  then have o: "obs_up ob = Some False" "obs_online ob = Some 0" "obs_max ob = last_emitted_max_players st"
    "obs_version ob = unwrap_or [] (last_emitted_version st)"
    "obs_motd ob = unwrap_or [] (last_emitted_motd st)" "obs_hash ob = None"
    by (auto simp: current_obs_def Let_def)
  have "event_of st ob now hb = Some ServerDown" using assms o by (simp add: event_iffs)
  with ob show ?thesis
    by (auto simp: build_change_payload_def view_of_obs_def o remember_def)
qed

theorem failed_poll_keeps_metadata_witness:
  "\<exists>st1 st2 row1 row2.
     build_change_payload demo_externals demo_state (demo_poll 3) True 10 300 = (st1, Some row1) \<and>
     build_change_payload demo_externals st1 (demo_poll 7) False 20 300 = (st2, Some row2) \<and>
     row_event (view_of_row row2) = Some ''server_down''"
proof (cases rule: build_change_payload_cases [of demo_state demo_externals "demo_poll 3" True 10 300])
  case (emit players ob ev)
  then have "obs_up ob = Some True" using obs_up_current [of demo_externals demo_state "demo_poll 3" True] by simp
  with failed_poll_keeps_metadata [of "remember demo_state ob 10" demo_externals "demo_poll 7" 20 300] emit
  show ?thesis by auto
qed simp

text \<open>The states a server goes through are well formed, whatever the polls return.\<close>

theorem run_keeps_wf_state:
  assumes "wf_state st"
  shows "wf_state (fst (run_changes X hb st ps))"
  using assms
proof (induction ps arbitrary: st)
  case (Cons p ps)
  obtain payload ok now where p: "p = (payload, ok, now)" by (cases p)
  obtain st1 out where b: "build_change_payload X st payload ok now hb = (st1, out)" by fastforce
  have "wf_state st1" using wf_build_change_payload [OF Cons.prems, of X payload ok now hb] b by simp
  from Cons.IH [OF this] p b show ?case by (simp split: prod.splits) (metis fst_conv)
qed simp

theorem run_keeps_wf_state_witness:
  "wf_state (fst (run_changes demo_externals 300 demo_state [(demo_poll 3, True, 10), (demo_poll 4, False, 20)]))"
  by (rule run_keeps_wf_state) (simp add: demo_state_def)

text \<open>
  The players reported are the names the server sent, trimmed, none of them empty and none twice.
\<close>

theorem extract_players_clean:
  "distinct (extract_players extra) \<and> [] \<notin> set (extract_players extra) \<and>
   set (extract_players extra) \<subseteq>
     {trim s | s arr. Option.bind (get ''players'' extra) as_array = Some arr \<and> JStr s \<in> set arr}"
proof (cases "Option.bind (get ''players'' extra) as_array")
  case None
  then show ?thesis by (simp add: extract_players_def)
next
  case (Some arr)
  have as: "as_str v = Some s \<longleftrightarrow> v = JStr s" for v s by (cases v) auto
  show ?thesis
    using Some by (auto simp: extract_players_def map_filter_subset as)
qed

end
