(* ===== verification/Grpc_Clients.thy ===== *)
theory Grpc_Clients
  imports Change_Detection
begin

text \<open>
  \<open>src/src/grpc_clients.rs\<close>: the conversions between the JSON rows of the poller and the messages of
  the two services (\<open>proto/leavepulse/server/v1/catalog.proto\<close> and
  \<open>proto/leavepulse/monitoring/v1/internal.proto\<close>), and the opening of a channel. The generated
  client stubs and the channel type are not modelled; a call is a parameter where it is made.
\<close>

subsection \<open>Channels\<close>

text \<open>
  \<open>build_channel\<close> and \<open>InternalTokenInterceptor::new\<close> belong to another crate: whether they accept
  the target and the token is a parameter. A refused token is a panic of the calling task
  (\<open>expect\<close>), a refused target an error.
\<close>

record grpc_toolkit =
  target_ok :: "str \<Rightarrow> bool"
  token_ok :: "str \<Rightarrow> bool"

datatype channel_result = Channel str str | Channel_error | Channel_panic

definition auth_channel :: "grpc_toolkit \<Rightarrow> str \<Rightarrow> str \<Rightarrow> channel_result" where
  "auth_channel G target token =
     (if \<not> target_ok G target then Channel_error
      else if \<not> token_ok G token then Channel_panic
      else Channel target token)"

definition demo_toolkit :: grpc_toolkit where
  "demo_toolkit = \<lparr>target_ok = (\<lambda>_. True), token_ok = (\<lambda>_. True)\<rparr>"

lemma demo_channel: "auth_channel demo_toolkit target token = Channel target token"
  by (simp add: auth_channel_def demo_toolkit_def)

subsection \<open>Messages\<close>

record server_catalog_item =
  ci_id :: str
  ci_project_id :: "str option"
  ci_project_online_strategy :: "str option"
  ci_ip_or_domain :: str
  ci_server_role :: str
  ci_proxy_type :: "str option"
  ci_parent_id :: "str option"
  ci_ping_ip_or_domain :: "str option"
  ci_ping_port :: "i32 option"
  ci_bedrock_port :: "i32 option"
  ci_game_edition :: "str option"
  ci_is_verified :: bool
  ci_verification_source :: "str option"
  ci_verified_plugin_last_seen_at :: "str option"

record ingest_point =
  ip_server_id :: i64
  ip_collected_at :: "str option"
  ip_online :: "i32 option"
  ip_max_players :: "i32 option"
  ip_version :: "str option"
  ip_motd :: "str option"
  ip_favicon :: "str option"
  ip_country :: "str option"
  ip_country_code :: "str option"
  ip_event_type :: "str option"
  ip_player_id :: "str option"
  ip_player_name :: "str option"
  ip_online_delta :: "i32 option"
  ip_extra_json :: "str option"

definition value_as_i64 :: "json \<Rightarrow> i64 option" where
  "value_as_i64 v =
     (case as_i64 v of
        Some n \<Rightarrow> Some n
      | None \<Rightarrow> Option.bind (as_str v) parse_i64)"

text \<open>\<open>v as i32\<close> keeps the low 32 bits.\<close>

definition get_i32 :: "str \<Rightarrow> json \<Rightarrow> i32 option" where
  "get_i32 k row = map_option (ucast :: i64 \<Rightarrow> i32) (get_i64 k row)"

definition value_to_ingest_point :: "externals \<Rightarrow> json \<Rightarrow> ingest_point" where
  "value_to_ingest_point X row =
     \<lparr>ip_server_id = unwrap_or 0 (Option.bind (get ''server_id'' row) value_as_i64),
      ip_collected_at = get_str ''collected_at'' row,
      ip_online = get_i32 ''online'' row,
      ip_max_players = get_i32 ''max_players'' row,
      ip_version = get_str ''version'' row,
      ip_motd = get_str ''motd'' row,
      ip_favicon = get_str ''favicon'' row,
      ip_country = get_str ''country'' row,
      ip_country_code = get_str ''country_code'' row,
      ip_event_type = get_str ''event_type'' row,
      ip_player_id = get_str ''player_id'' row,
      ip_player_name = get_str ''player_name'' row,
      ip_online_delta = get_i32 ''online_delta'' row,
      ip_extra_json =
        (case get ''extra'' row of
           Some v \<Rightarrow> if is_null v then None else Some (json_to_string X v)
         | None \<Rightarrow> None)\<rparr>"

definition json_i32 :: "i32 \<Rightarrow> json" where
  "json_i32 i = json_i64 (scast i)"

definition catalog_item_to_value :: "server_catalog_item \<Rightarrow> json" where
  "catalog_item_to_value item =
     json_obj
       [(''id'', JStr (ci_id item)),
        (''project_id'', json_opt JStr (ci_project_id item)),
        (''project_online_strategy'', json_opt JStr (ci_project_online_strategy item)),
        (''ip_or_domain'', JStr (ci_ip_or_domain item)),
        (''server_role'', JStr (ci_server_role item)),
        (''proxy_type'', json_opt JStr (ci_proxy_type item)),
        (''parent_id'', json_opt JStr (ci_parent_id item)),
        (''ping_ip_or_domain'', json_opt JStr (ci_ping_ip_or_domain item)),
        (''ping_port'', json_opt json_i32 (ci_ping_port item)),
        (''bedrock_port'', json_opt json_i32 (ci_bedrock_port item)),
        (''game_edition'', json_opt JStr (ci_game_edition item)),
        (''is_verified'', JBool (ci_is_verified item)),
        (''verification_source'', json_opt JStr (ci_verification_source item)),
        (''verified_plugin_last_seen_at'', json_opt JStr (ci_verified_plugin_last_seen_at item))]"

subsection \<open>Reading a catalog item back\<close>

lemma as_str_json_opt [simp, json_simps]: "as_str (json_opt JStr x) = x"
  by (cases x) auto

lemma server_key_item [simp]: "server_key X (catalog_item_to_value item) = ci_id item"
  by (simp add: server_key_def catalog_item_to_value_def)

lemma host_value_item:
  "host_value (catalog_item_to_value item) =
     (case ci_ping_ip_or_domain item of
        Some s \<Rightarrow> if s \<noteq> [] then s else ci_ip_or_domain item
      | None \<Rightarrow> ci_ip_or_domain item)"
  by (simp add: host_value_def catalog_item_to_value_def get_str_def split: option.splits)

lemma edition_item:
  "normalize_edition (get_str ''game_edition'' (catalog_item_to_value item)) =
     normalize_edition (ci_game_edition item)"
  by (simp add: catalog_item_to_value_def get_str_def)

lemma sint_scast_i32 [simp]: "sint (scast (i :: i32) :: i64) = sint i"
  by (rule sint_up_scast) (simp add: is_up_def source_size target_size word_size)

text \<open>A port number of the catalog, when it is one: 0 to 65535.\<close>

definition as_port :: "i32 \<Rightarrow> u16 option" where
  "as_port i = (if sint i < 0 then None else Some (ucast i))"

lemma json_port_i32 [simp]: "json_port (json_i32 i) = as_port i"
proof (cases "sint i < 0")
  case False
  have "(ucast (scast i :: i64) :: u16) = ucast i"
    by (rule bit_word_eqI) (auto simp: bit_unsigned_iff bit_signed_iff)
  with False show ?thesis by (simp add: json_i32_def json_i64_def as_port_def)
qed (simp add: json_i32_def json_i64_def as_port_def)

lemma json_port_opt [simp]: "json_port (json_opt json_i32 x) = Option.bind x as_port"
  by (cases x) auto

lemma ports_item:
  "Option.bind (get ''ping_port'' (catalog_item_to_value item)) json_port = Option.bind (ci_ping_port item) as_port"
  "Option.bind (get ''bedrock_port'' (catalog_item_to_value item)) json_port =
     Option.bind (ci_bedrock_port item) as_port"
  by (simp_all add: catalog_item_to_value_def)

subsection \<open>What reaches the monitoring service\<close>

text \<open>A 64-bit number in the range of 32 bits survives the cast.\<close>

definition fits_i32 :: "i64 \<Rightarrow> bool" where
  "fits_i32 n \<longleftrightarrow> - (2 ^ 31) \<le> sint n \<and> sint n < 2 ^ 31"

lemma sint_ucast_fits: "fits_i32 n \<Longrightarrow> sint (ucast n :: i32) = sint n"
proof -
  assume f: "fits_i32 n"
  have "sint (ucast n :: i32) = signed_take_bit 31 (sint n)"
  proof (rule bit_eqI)
    fix k
    show "bit (sint (ucast n :: i32)) k = bit (signed_take_bit 31 (sint n)) k"
      by (cases "k = 31")
        (auto simp: bit_sint_iff bit_signed_take_bit_iff bit_unsigned_iff min_def not_le)
  qed
  also have "\<dots> = sint n"
    using f by (intro signed_take_bit_int_eq_self) (auto simp: fits_i32_def)
  finally show ?thesis .
qed

lemma point_of_row:
  "ip_server_id (value_to_ingest_point X row) = unwrap_or 0 (Option.bind (get ''server_id'' row) value_as_i64)"
  "ip_event_type (value_to_ingest_point X row) = row_event (view_of_row row)"
  "ip_online (value_to_ingest_point X row) = map_option ucast (row_online (view_of_row row))"
  "ip_max_players (value_to_ingest_point X row) = map_option ucast (row_max (view_of_row row))"
  "ip_version (value_to_ingest_point X row) = row_version (view_of_row row)"
  "ip_motd (value_to_ingest_point X row) = row_motd (view_of_row row)"
  "ip_country (value_to_ingest_point X row) = row_country (view_of_row row)"
  "ip_country_code (value_to_ingest_point X row) = row_country_code (view_of_row row)"
  by (simp_all add: value_to_ingest_point_def view_of_row_def get_i32_def)

lemma sint_ucast_iff: "sint (ucast (n :: i64) :: i32) = sint n \<longleftrightarrow> fits_i32 n"
proof
  assume e: "sint (ucast n :: i32) = sint n"
  have "- (2 ^ 31) \<le> sint (ucast n :: i32)" "sint (ucast n :: i32) < 2 ^ 31"
    using sint_ge [of "ucast n :: i32"] sint_lt [of "ucast n :: i32"] by simp_all
  with e show "fits_i32 n" by (simp add: fits_i32_def)
qed (rule sint_ucast_fits)

lemma point_extra:
  "get ''extra'' row = Some v \<Longrightarrow> \<not> is_null v \<Longrightarrow>
   ip_extra_json (value_to_ingest_point X row) = Some (json_to_string X v)"
  by (simp add: value_to_ingest_point_def)

lemma is_null_json_obj [simp]: "\<not> is_null (json_obj kvs)"
  by (simp add: json_obj_def)

lemma change_row_extra:
  obtains extra where "get ''extra'' (change_row st payload players ob ev) = Some extra" "\<not> is_null extra"
    "get_str ''poll_status'' extra = Some (status_name ob)"
    "players_in_row (change_row st payload players ob ev) = players"
proof -
  obtain extra where e: "get ''extra'' (change_row st payload players ob ev) = Some extra" "\<not> is_null extra"
    by (simp add: change_row_def Let_def)
  have "Option.bind (get ''extra'' (change_row st payload players ob ev)) (get_str ''poll_status'') = Some (status_name ob)"
    "players_in_row (change_row st payload players ob ev) = players"
    using view_of_change_row [of st payload players ob ev] by (simp_all add: view_of_row_def view_of_obs_def)
  with e that show thesis by simp
qed

text \<open>
  C36: What the monitoring service receives is what the poller remembers as emitted: the point made
  of an emitted row of a server with a numeric identifier names the server and carries the texts of the state;
  its numbers are those of the state exactly when these fit into 32 bits, and their low 32 bits in any case;
  and its \<open>extra_json\<close> is the text of an object with the status and the players of the state.
\<close>

theorem point_shows_state:
  assumes "build_change_payload X st payload ok now hb = (st', Some row)"
    and "parse_i64 (server_id st) = Some sid"
    and "p = value_to_ingest_point X row"
  shows "ip_server_id p = sid \<and>
    ip_online p = map_option ucast (last_emitted_online st') \<and>
    ip_max_players p = map_option ucast (last_emitted_max_players st') \<and>
    (\<forall>n. last_emitted_online st' = Some n \<longrightarrow> (map_option sint (ip_online p) = Some (sint n) \<longleftrightarrow> fits_i32 n)) \<and>
    (\<forall>n. last_emitted_max_players st' = Some n \<longrightarrow> (map_option sint (ip_max_players p) = Some (sint n) \<longleftrightarrow> fits_i32 n)) \<and>
    ip_version p = last_emitted_version st' \<and> ip_motd p = last_emitted_motd st' \<and>
    ip_country p = last_emitted_country st' \<and> ip_country_code p = last_emitted_country_code st' \<and>
    (\<exists>extra. get ''extra'' row = Some extra \<and> ip_extra_json p = Some (json_to_string X extra) \<and>
       get_str ''poll_status'' extra = Some (if last_emitted_up st' = Some True then ''ok'' else ''failed'') \<and>
       players_hash X (players_in_row row) = last_emitted_players_hash st') \<and>
    (\<exists>ev. ip_event_type p = Some (event_name ev))"
proof (cases rule: build_change_payload_cases [of st X payload ok now hb])
  case (emit players ob ev)
  then have row: "row = change_row st payload players ob ev" and st': "st' = remember st ob now"
    using assms(1) by simp_all
  have id: "Option.bind (get ''server_id'' row) value_as_i64 = Some sid"
    using assms(2) by (simp add: row change_row_def value_as_i64_def)
  obtain extra where x: "get ''extra'' row = Some extra" "\<not> is_null extra"
    "get_str ''poll_status'' extra = Some (status_name ob)" "players_in_row row = players"
    using change_row_extra [of st payload players ob ev] by (auto simp: row)
  have "\<exists>extra. get ''extra'' row = Some extra \<and> ip_extra_json p = Some (json_to_string X extra) \<and>
      get_str ''poll_status'' extra = Some (if last_emitted_up st' = Some True then ''ok'' else ''failed'') \<and>
      players_hash X (players_in_row row) = last_emitted_players_hash st'"
    using x players_of_current_obs [OF emit(1)] point_extra [OF x(1,2)]
    by (intro exI [of _ extra]) (simp add: assms(3) st' remember_def status_name_def)
  moreover have "ip_online p = map_option ucast (last_emitted_online st')"
    "ip_max_players p = map_option ucast (last_emitted_max_players st')"
    by (simp_all add: assms(3) point_of_row row view_of_obs_def st' remember_def)
  moreover have "ip_server_id p = sid" using id by (simp add: assms(3) point_of_row)
  ultimately show ?thesis
    by (simp add: assms(3) sint_ucast_iff) (auto simp: point_of_row row view_of_obs_def st' remember_def)
qed (use assms in simp)

theorem point_shows_state_witness:
  "\<exists>st' row. build_change_payload demo_externals (build_state demo_externals (\<lambda>lo hi. lo) (\<lambda>lo hi. lo) 0
       (json_obj [(''id'', JStr ''7'')]) 0 30 0 600) (json_obj [(''online'', JNum (PosInt 3))]) True 0 300 = (st', Some row) \<and>
     ip_server_id (value_to_ingest_point demo_externals row) = 7 \<and>
     map_option sint (ip_online (value_to_ingest_point demo_externals row)) = Some 3 \<and>
     (\<exists>extra. get ''extra'' row = Some extra \<and> get_str ''poll_status'' extra = Some ''ok'')"
proof -
  let ?st = "build_state demo_externals (\<lambda>lo hi. lo) (\<lambda>lo hi. lo) 0 (json_obj [(''id'', JStr ''7'')]) 0 30 0 600"
  let ?p = "json_obj [(''online'', JNum (PosInt 3))]"
  have "\<not> has_emitted_state ?st" by (simp add: build_state_def Let_def split: prod.splits)
  then obtain st' row where b: "build_change_payload demo_externals ?st ?p True 0 300 = (st', Some row)"
    by (cases rule: build_change_payload_cases [of ?st demo_externals ?p True 0 300]) auto
  moreover have "last_emitted_online st' = Some 3 \<and> last_emitted_up st' = Some True"
  proof (cases rule: build_change_payload_cases [of ?st demo_externals ?p True 0 300])
    case (emit players ob ev)
    then have "obs_online ob = Some 3 \<and> obs_up ob = Some True" by (auto simp: current_obs_def get_i64_def Let_def)
    with emit b show ?thesis by (simp add: remember_def)
  qed (use b in simp)
  moreover have "parse_i64 (server_id ?st) = Some 7"
    by (simp add: server_key_def parse_i64_def parse_signed_def parse_digits_upto_def is_digit_def)
  moreover have "fits_i32 3" by (simp add: fits_i32_def)
  ultimately show ?thesis using point_shows_state [of demo_externals ?st ?p True 0 300 st' row 7, OF _ _ refl] by fastforce
qed

end
