(* ===== verification/Hash_Map.thy ===== *)
theory Hash_Map
  imports Json "HOL-Library.AList"
begin

text \<open>
  \<open>std::collections::HashMap\<close> as an association list with distinct keys. What the components rely
  on is the locale \<open>dictionary\<close>; \<open>ttl_cache\<close> extends it with entries that expire, the use both
  caches of \<open>src/src/geo.rs\<close> make of it.
\<close>

type_synonym ('k, 'v) hash_map = "('k \<times> 'v) list"

definition hm_get :: "('k, 'v) hash_map \<Rightarrow> 'k \<Rightarrow> 'v option" where
  "hm_get m k = map_of m k"

definition hm_insert :: "'k \<Rightarrow> 'v \<Rightarrow> ('k, 'v) hash_map \<Rightarrow> ('k, 'v) hash_map" where
  "hm_insert k v m = AList.update k v m"

definition hm_remove :: "'k \<Rightarrow> ('k, 'v) hash_map \<Rightarrow> ('k, 'v) hash_map" where
  "hm_remove k m = AList.delete k m"

definition hm_retain :: "('k \<Rightarrow> 'v \<Rightarrow> bool) \<Rightarrow> ('k, 'v) hash_map \<Rightarrow> ('k, 'v) hash_map" where
  "hm_retain P m = filter (\<lambda>(k, v). P k v) m"

definition hm_ok :: "('k, 'v) hash_map \<Rightarrow> bool" where
  "hm_ok m \<longleftrightarrow> distinct (map fst m)"

definition hm_keys :: "('k, 'v) hash_map \<Rightarrow> 'k list" where
  "hm_keys m = map fst m"

locale dictionary =
  fixes empty :: "'m"
    and lookup :: "'m \<Rightarrow> 'k \<Rightarrow> 'v option"
    and insert :: "'k \<Rightarrow> 'v \<Rightarrow> 'm \<Rightarrow> 'm"
    and remove :: "'k \<Rightarrow> 'm \<Rightarrow> 'm"
    and retain :: "('k \<Rightarrow> 'v \<Rightarrow> bool) \<Rightarrow> 'm \<Rightarrow> 'm"
    and ok :: "'m \<Rightarrow> bool"
  assumes lookup_empty: "lookup empty k = None"
    and lookup_insert: "lookup (insert k v m) k' = (if k' = k then Some v else lookup m k')"
    and lookup_remove: "ok m \<Longrightarrow> lookup (remove k m) k' = (if k' = k then None else lookup m k')"
    and lookup_retain: "ok m \<Longrightarrow> lookup (retain P m) k =
      (case lookup m k of Some v \<Rightarrow> if P k v then Some v else None | None \<Rightarrow> None)"
    and ok_empty: "ok empty"
    and ok_insert: "ok m \<Longrightarrow> ok (insert k v m)"
    and ok_remove: "ok m \<Longrightarrow> ok (remove k m)"
    and ok_retain: "ok m \<Longrightarrow> ok (retain P m)"
begin

lemma insert_insert: "lookup (insert k v (insert k u m)) = lookup (insert k v m)"
  by (rule ext) (simp add: lookup_insert)

lemma remove_insert: "ok m \<Longrightarrow> lookup (remove k (insert k v m)) = lookup (remove k m)"
  by (rule ext) (simp add: lookup_insert lookup_remove ok_insert)

lemma fold_insert_lookup:
  "k \<notin> fst ` set kvs \<Longrightarrow> lookup (fold (\<lambda>(k, v). insert k v) kvs m) k = lookup m k"
  by (induction kvs arbitrary: m) (auto simp: lookup_insert)

lemma ok_fold_insert: "ok m \<Longrightarrow> ok (fold (\<lambda>(k, v). insert k v) kvs m)"
  by (induction kvs arbitrary: m) (auto simp: ok_insert)

end

text \<open>Entries that expire; the cache answers with the fresh ones only.\<close>

locale ttl_cache = dictionary empty lookup insert remove retain ok
  for empty :: "'m" and lookup :: "'m \<Rightarrow> 'k \<Rightarrow> 'v option" and insert remove retain ok +
  fixes expires :: "'v \<Rightarrow> real"
begin

definition fresh :: "'m \<Rightarrow> real \<Rightarrow> 'k \<Rightarrow> 'v option" where
  "fresh m now k = (case lookup m k of Some v \<Rightarrow> if now < expires v then Some v else None | None \<Rightarrow> None)"

lemma fresh_insert_same: "now < expires v \<Longrightarrow> fresh (insert k v m) now k = Some v"
  by (simp add: fresh_def lookup_insert)

lemma fresh_insert_other: "k' \<noteq> k \<Longrightarrow> fresh (insert k v m) now k' = fresh m now k'"
  by (simp add: fresh_def lookup_insert)

lemma fresh_evict:
  "ok m \<Longrightarrow> t \<le> now \<Longrightarrow> fresh (retain (\<lambda>_ v. t < expires v) m) now k = fresh m now k"
  by (auto simp: fresh_def lookup_retain split: option.splits)

lemma fresh_later: "fresh m now k = Some v \<Longrightarrow> now' \<le> now \<Longrightarrow> fresh m now' k = Some v"
  by (auto simp: fresh_def split: option.splits if_splits)

lemma expired_stays: "fresh m now k = None \<Longrightarrow> now \<le> now' \<Longrightarrow> fresh m now' k = None"
  by (auto simp: fresh_def split: option.splits if_splits)

end

lemma hm_get_insert [simp]: "hm_get (hm_insert k v m) k' = (if k' = k then Some v else hm_get m k')"
  by (simp add: hm_get_def hm_insert_def update_conv)

lemma hm_get_remove [simp]: "hm_get (hm_remove k m) k' = (if k' = k then None else hm_get m k')"
  by (simp add: hm_get_def hm_remove_def delete_conv)

lemma hm_get_Nil [simp]: "hm_get [] k = None"
  by (simp add: hm_get_def)

lemma hm_get_retain:
  "hm_ok m \<Longrightarrow> hm_get (hm_retain P m) k =
     (case hm_get m k of Some v \<Rightarrow> if P k v then Some v else None | None \<Rightarrow> None)"
proof (induction m)
  case (Cons x m)
  obtain k' v where x: "x = (k', v)" by (cases x)
  have "hm_get m k' = None" if "k' \<notin> fst ` set m" using that by (simp add: hm_get_def map_of_eq_None_iff)
  with Cons x show ?case by (auto simp: hm_ok_def hm_get_def hm_retain_def)
qed (simp add: hm_retain_def)

lemma map_fst_AList_update:
  "map fst (AList.update n v m) = (if n \<in> fst ` set m then map fst m else map fst m @ [n])"
  by (induction m) auto

lemma hm_ok_insert [simp, inv_intros]: "hm_ok m \<Longrightarrow> hm_ok (hm_insert k v m)"
  by (auto simp: hm_ok_def hm_insert_def map_fst_AList_update)

lemma hm_ok_remove [simp, inv_intros]: "hm_ok m \<Longrightarrow> hm_ok (hm_remove k m)"
  by (induction m) (auto simp: hm_ok_def hm_remove_def AList.delete_eq)

lemma hm_ok_retain [simp, inv_intros]: "hm_ok m \<Longrightarrow> hm_ok (hm_retain P m)"
  by (induction m) (auto simp: hm_ok_def hm_retain_def)

lemma hm_ok_Nil [simp]: "hm_ok []"
  by (simp add: hm_ok_def)

interpretation hm: dictionary "[]" hm_get hm_insert hm_remove hm_retain hm_ok
  by unfold_locales (simp_all add: hm_get_retain)

lemma hm_get_None_iff: "hm_get m k = None \<longleftrightarrow> k \<notin> set (hm_keys m)"
  by (simp add: hm_get_def hm_keys_def map_of_eq_None_iff)

lemma set_hm_keys_insert [simp]: "set (hm_keys (hm_insert k v m)) = Set.insert k (set (hm_keys m))"
  by (auto simp: hm_keys_def hm_insert_def map_fst_AList_update)

lemma set_hm_keys_remove [simp]: "set (hm_keys (hm_remove k m)) = set (hm_keys m) - {k}"
  by (auto simp: hm_keys_def hm_remove_def AList.delete_eq)

end
