(* ===== verification/Geo.thy ===== *)
theory Geo
  imports Hash_Map Models
begin

text \<open>
  \<open>src/src/geo.rs\<close>: the country of a server by its address, with one cache for name resolution and
  one for the geolocation service. The stretches of code between two \<open>await\<close>s, at which another
  task may run, are definitions of their own: looking into a cache, and storing a result. Each
  reading of the clock is an argument. The semaphore and the gauges change no result and are left
  out; a failing semaphore (it is never closed) as well.
\<close>

record cache_entry =
  ce_country :: str
  ce_country_code :: str
  ce_expires_at :: f64

record dns_entry =
  de_ip :: str
  de_expires_at :: f64

record geo_response =
  gr_status :: str
  gr_country :: str
  gr_country_code :: str

record geo_settings =
  ttl_seconds :: u64
  refresh_jitter_seconds :: u64
  retry_seconds :: u64
  dns_ttl_seconds :: u64
  dns_retry_seconds :: u64
  dns_cache_max_entries :: nat
  dns_max_concurrency :: nat

record geo_cache =
  geo_entries :: "(str, cache_entry) hash_map"
  dns_entries :: "(str, dns_entry) hash_map"
  geo_cfg :: geo_settings
  lookup_timeout :: f64

definition geo_new :: "geo_settings \<Rightarrow> f64 \<Rightarrow> geo_cache" where
  "geo_new settings lookup_timeout_seconds =
     \<lparr>geo_entries = [], dns_entries = [], geo_cfg = settings, lookup_timeout = lookup_timeout_seconds\<rparr>"

text \<open>
  \<open>draw\<close> is \<open>gen_range(0..jitter_secs)\<close>. The sum wraps around, as \<open>u64\<close> does in a release build.
\<close>

definition ttl_with_jitter :: "(u64 \<Rightarrow> u64) \<Rightarrow> geo_settings \<Rightarrow> u64 \<Rightarrow> f64" where
  "ttl_with_jitter draw settings base_ttl =
     (let jitter_secs = refresh_jitter_seconds settings in
      if jitter_secs = 0 \<or> base_ttl = 0 then f64_of_u64 base_ttl
      else f64_of_u64 (base_ttl + draw jitter_secs))"

subsection \<open>Name resolution\<close>

definition dns_key :: "str \<Rightarrow> u16 \<Rightarrow> str" where
  "dns_key h p = h @ '':'' @ show_u16 p"

text \<open>A fresh entry answers, also when it says that the name did not resolve.\<close>

definition dns_cached :: "geo_cache \<Rightarrow> f64 \<Rightarrow> str \<Rightarrow> str option option" where
  "dns_cached c now cache_key =
     (case hm_get (dns_entries c) cache_key of
        Some entry \<Rightarrow>
          if now < de_expires_at entry
          then Some (if de_ip entry = [] then None else Some (de_ip entry)) else None
      | None \<Rightarrow> None)"

definition dns_store :: "geo_cache \<Rightarrow> f64 \<Rightarrow> f64 \<Rightarrow> str \<Rightarrow> str \<Rightarrow> geo_cache" where
  "dns_store c evict_now store_now cache_key ip =
     (let ttl = (if ip = [] then f64_of_u64 (dns_retry_seconds (geo_cfg c))
                 else f64_of_u64 (dns_ttl_seconds (geo_cfg c)));
          entries = (if dns_cache_max_entries (geo_cfg c) \<le> length (dns_entries c)
                     then hm_retain (\<lambda>_ v. evict_now < de_expires_at v) (dns_entries c)
                     else dns_entries c)
      in c\<lparr>dns_entries := hm_insert cache_key \<lparr>de_ip = ip, de_expires_at = store_now + ttl\<rparr> entries\<rparr>)"

text \<open>
  The answers of the network and the readings of the clock during one call: the addresses a
  look-up gives (\<^const>\<open>None\<close> for an error), the answer of the geolocation service to a URL
  (\<^const>\<open>None\<close> for a failed request, a status that is no success or a body that is no answer), and
  the times of the readings in order.
\<close>

record geo_env =
  lookup_host :: "str \<Rightarrow> str list option"
  http_get_geo :: "str \<Rightarrow> geo_response option"
  t_geo_check :: f64
  t_dns_check :: f64
  t_dns_recheck :: f64
  t_dns_evict :: f64
  t_dns_store :: f64
  t_geo_store :: f64
  ttl_draw :: "u64 \<Rightarrow> u64"

datatype net_call = Dns_lookup str | Http_get str

definition resolve_ip :: "geo_env \<Rightarrow> geo_cache \<Rightarrow> str \<Rightarrow> u16 \<Rightarrow> str option \<times> geo_cache \<times> net_call list" where
  "resolve_ip env c h p =
     (let cache_key = dns_key h p in
      case dns_cached c (t_dns_check env) cache_key of
        Some res \<Rightarrow> (res, c, [])
      | None \<Rightarrow>
          (case dns_cached c (t_dns_recheck env) cache_key of
             Some res \<Rightarrow> (res, c, [])
           | None \<Rightarrow>
               let ip = (case lookup_host env (dns_key h p) of
                     Some (a # addrs) \<Rightarrow> a
                   | _ \<Rightarrow> []);
                   c' = dns_store c (t_dns_evict env) (t_dns_store env) cache_key ip
               in (if ip = [] then None else Some ip, c', [Dns_lookup (dns_key h p)])))"

subsection \<open>Geolocation\<close>

definition geo_url :: "str \<Rightarrow> str" where
  "geo_url ip = ''http://ip-api.com/json/'' @ ip @ ''?fields=status,country,countryCode''"

text \<open>
  A timeout that is no \<open>Duration\<close> is a panic once there is an address to ask for: \<^const>\<open>None\<close>. What the name
  resolution has stored by then stays.
\<close>

definition fetch_geo_uncached ::
  "geo_env \<Rightarrow> geo_cache \<Rightarrow> str \<Rightarrow> u16 option \<Rightarrow> edition \<Rightarrow> (str \<times> str) option \<times> geo_cache \<times> net_call list" where
  "fetch_geo_uncached env c h p ed =
     (let effective_port = unwrap_or (default_port ed) p;
          (res, c', calls) = resolve_ip env c h effective_port
      in case res of
           None \<Rightarrow> (Some ([], []), c', calls)
         | Some resolved_ip \<Rightarrow>
             if duration_from_secs (lookup_timeout c') = None then (None, c', calls)
             else
             let url = geo_url resolved_ip;
                 answer = (case http_get_geo env url of
                     Some data \<Rightarrow>
                       if gr_status data = ''success'' then (gr_country data, gr_country_code data) else ([], [])
                   | None \<Rightarrow> ([], []))
             in (Some answer, c', calls @ [Http_get url]))"

definition geo_key :: "str \<Rightarrow> u16 option \<Rightarrow> str" where
  "geo_key h p = h @ '':'' @ show_u16 (unwrap_or 0 p)"

definition geo_cached :: "geo_cache \<Rightarrow> f64 \<Rightarrow> str \<Rightarrow> (str \<times> str) option" where
  "geo_cached c now cache_key =
     (case hm_get (geo_entries c) cache_key of
        Some entry \<Rightarrow>
          if now < ce_expires_at entry then Some (ce_country entry, ce_country_code entry) else None
      | None \<Rightarrow> None)"

definition geo_store :: "(u64 \<Rightarrow> u64) \<Rightarrow> geo_cache \<Rightarrow> f64 \<Rightarrow> str \<Rightarrow> str \<times> str \<Rightarrow> geo_cache" where
  "geo_store draw c store_now cache_key res =
     (let is_empty = (fst res = [] \<and> snd res = []);
          ttl = (if is_empty then f64_of_u64 (retry_seconds (geo_cfg c))
                 else ttl_with_jitter draw (geo_cfg c) (ttl_seconds (geo_cfg c)))
      in c\<lparr>geo_entries := hm_insert cache_key
             \<lparr>ce_country = fst res, ce_country_code = snd res, ce_expires_at = store_now + ttl\<rparr>
             (geo_entries c)\<rparr>)"

definition fetch_geo ::
  "geo_env \<Rightarrow> geo_cache \<Rightarrow> str \<Rightarrow> u16 option \<Rightarrow> edition \<Rightarrow> (str \<times> str) option \<times> geo_cache \<times> net_call list" where
  "fetch_geo env c h p ed =
     (let cache_key = geo_key h p in
      case geo_cached c (t_geo_check env) cache_key of
        Some res \<Rightarrow> (Some res, c, [])
      | None \<Rightarrow>
          (case fetch_geo_uncached env c h p ed of
             (None, c', calls) \<Rightarrow> (None, c', calls)
           | (Some res, c', calls) \<Rightarrow>
               (Some res, geo_store (ttl_draw env) c' (t_geo_store env) cache_key res, calls)))"

subsection \<open>The caches\<close>

interpretation dns: ttl_cache "[]" hm_get hm_insert hm_remove hm_retain hm_ok de_expires_at
  by unfold_locales

interpretation geo: ttl_cache "[]" hm_get hm_insert hm_remove hm_retain hm_ok ce_expires_at
  by unfold_locales

definition dns_answer :: "dns_entry \<Rightarrow> str option" where
  "dns_answer e = (if de_ip e = [] then None else Some (de_ip e))"

lemma dns_cached_fresh: "dns_cached c now k = map_option dns_answer (dns.fresh (dns_entries c) now k)"
  by (auto simp: dns_cached_def dns.fresh_def dns_answer_def split: option.splits)

lemma geo_cached_fresh:
  "geo_cached c now k = map_option (\<lambda>e. (ce_country e, ce_country_code e)) (geo.fresh (geo_entries c) now k)"
  by (auto simp: geo_cached_def geo.fresh_def split: option.splits)

definition geo_ok :: "geo_cache \<Rightarrow> bool" where
  "geo_ok c \<longleftrightarrow> hm_ok (geo_entries c) \<and> hm_ok (dns_entries c)"

lemma dns_store_fields [simp]:
  "geo_entries (dns_store c e t k ip) = geo_entries c" "geo_cfg (dns_store c e t k ip) = geo_cfg c"
  "lookup_timeout (dns_store c e t k ip) = lookup_timeout c"
  by (simp_all add: dns_store_def Let_def)

lemma geo_store_fields [simp]:
  "dns_entries (geo_store d c t k r) = dns_entries c" "geo_cfg (geo_store d c t k r) = geo_cfg c"
  "lookup_timeout (geo_store d c t k r) = lookup_timeout c"
  by (simp_all add: geo_store_def Let_def)

lemma geo_ok_new [simp]: "geo_ok (geo_new s lt)"
  by (simp add: geo_ok_def geo_new_def)

lemma geo_ok_dns_store [inv_intros]: "geo_ok c \<Longrightarrow> geo_ok (dns_store c e t k ip)"
  by (auto simp: geo_ok_def) (auto simp: dns_store_def Let_def)

lemma geo_ok_geo_store [inv_intros]: "geo_ok c \<Longrightarrow> geo_ok (geo_store d c t k r)"
  by (auto simp: geo_ok_def) (auto simp: geo_store_def Let_def)

lemma geo_ok_resolve_ip [inv_intros]: "geo_ok c \<Longrightarrow> geo_ok (fst (snd (resolve_ip env c h p)))"
  by (auto simp: resolve_ip_def Let_def intro: inv_intros split: option.splits)

lemma geo_ok_fetch_geo [inv_intros]: "geo_ok c \<Longrightarrow> geo_ok (fst (snd (fetch_geo env c h p ed)))"
  using geo_ok_resolve_ip [of c env h "unwrap_or (default_port ed) p"]
  by (auto simp: fetch_geo_def fetch_geo_uncached_def Let_def intro: inv_intros split: option.splits prod.splits)

text \<open>The settings of the cache stay, and with a timeout that is a \<open>Duration\<close> there is an answer.\<close>

lemma resolve_ip_settings: "resolve_ip env c h p = (r, c', calls) \<Longrightarrow> lookup_timeout c' = lookup_timeout c"
  by (auto simp: resolve_ip_def Let_def split: option.splits)

lemma fetch_geo_settings: "fetch_geo env c h p ed = (r, c', calls) \<Longrightarrow> lookup_timeout c' = lookup_timeout c"
  by (auto simp: fetch_geo_def fetch_geo_uncached_def Let_def dest: resolve_ip_settings
      split: option.splits prod.splits if_splits)

lemma fetch_geo_answers:
  "duration_from_secs (lookup_timeout c) \<noteq> None \<Longrightarrow> fetch_geo env c h p ed = (r, c', calls) \<Longrightarrow> r \<noteq> None"
  by (cases "geo_cached c (t_geo_check env) (geo_key h p)")
    (auto 4 4 simp: fetch_geo_def fetch_geo_uncached_def Let_def dest: resolve_ip_settings intro: sym
      split: option.splits prod.splits if_splits)

text \<open>What is stored is fresh until it expires, and other entries answer as before.\<close>

lemma dns_cached_store_same:
  "now < t + (if ip = [] then f64_of_u64 (dns_retry_seconds (geo_cfg c)) else f64_of_u64 (dns_ttl_seconds (geo_cfg c))) \<Longrightarrow>
   dns_cached (dns_store c e t k ip) now k = Some (if ip = [] then None else Some ip)"
  unfolding dns_cached_fresh
  by (simp add: dns_store_def Let_def dns.fresh_insert_same dns_answer_def)

lemma dns_cached_store_other:
  assumes "geo_ok c" "e \<le> now" "k' \<noteq> k"
  shows "dns_cached (dns_store c e t k ip) now k' = dns_cached c now k'"
  using assms unfolding dns_cached_fresh
  by (simp add: dns_store_def Let_def dns.fresh_insert_other geo_ok_def dns.fresh_evict)

subsection \<open>What the caches promise\<close>

definition demo_geo_env :: "f64 \<Rightarrow> geo_env" where
  "demo_geo_env t =
     \<lparr>lookup_host = (\<lambda>k. if k = dns_key ''play.example.org'' 25565 then Some [''192.0.2.1''] else None),
      http_get_geo = (\<lambda>u. Some \<lparr>gr_status = ''success'', gr_country = ''Norway'', gr_country_code = ''NO''\<rparr>),
      t_geo_check = t, t_dns_check = t, t_dns_recheck = t, t_dns_evict = t, t_dns_store = t,
      t_geo_store = t, ttl_draw = (\<lambda>n. 0)\<rparr>"

definition demo_geo_cache :: geo_cache where
  "demo_geo_cache = geo_new
     \<lparr>ttl_seconds = 3600, refresh_jitter_seconds = 300, retry_seconds = 300, dns_ttl_seconds = 600,
      dns_retry_seconds = 120, dns_cache_max_entries = 100, dns_max_concurrency = 4\<rparr> 5"

text \<open>
  A looked-up country is remembered: until its entry expires, the same question is answered the
  same way and without any call of the network. A failure (no country and no code) is remembered for
  the retry time, an answer for the time to live with its jitter.
\<close>

theorem country_is_remembered:
  assumes "fetch_geo env c h p ed = (Some res, c', calls)" and "geo_cached c (t_geo_check env) (geo_key h p) = None"
    and "t_geo_check env' < t_geo_store env +
      (if res = ([], []) then f64_of_u64 (retry_seconds (geo_cfg c))
       else ttl_with_jitter (ttl_draw env) (geo_cfg c) (ttl_seconds (geo_cfg c)))"
  shows "fetch_geo env' c' h p ed' = (Some res, c', [])"
proof -
  obtain c1 where u: "fetch_geo_uncached env c h p ed = (Some res, c1, calls)"
    and c': "c' = geo_store (ttl_draw env) c1 (t_geo_store env) (geo_key h p) res"
    using assms(1,2) by (auto simp: fetch_geo_def Let_def split: prod.splits option.splits)
  have cfg: "geo_cfg c1 = geo_cfg c"
    using u by (auto simp: fetch_geo_uncached_def resolve_ip_def Let_def split: prod.splits option.splits if_splits)
  have "geo_cached c' (t_geo_check env') (geo_key h p) = Some res"
    using assms(3) unfolding geo_cached_fresh c'
    by (cases res) (auto simp: geo_store_def Let_def geo.fresh_insert_same cfg)
  then show ?thesis by (simp add: fetch_geo_def)
qed

lemma demo_geo_first:
  "fetch_geo (demo_geo_env 0) demo_geo_cache ''play.example.org'' (Some 25565) Java =
     (Some (''Norway'', ''NO''),
      fst (snd (fetch_geo (demo_geo_env 0) demo_geo_cache ''play.example.org'' (Some 25565) Java)),
      [Dns_lookup (dns_key ''play.example.org'' 25565), Http_get (geo_url ''192.0.2.1'')])"
  by (simp add: fetch_geo_def fetch_geo_uncached_def resolve_ip_def dns_cached_def
      geo_cached_def demo_geo_cache_def geo_new_def dns_store_def duration_from_secs_def Let_def) (simp add: demo_geo_env_def)

theorem country_is_remembered_witness:
  "\<exists>c. fetch_geo (demo_geo_env 3000) c ''play.example.org'' (Some 25565) Java = (Some (''Norway'', ''NO''), c, [])"
proof -
  have m: "geo_cached demo_geo_cache (t_geo_check (demo_geo_env 0)) (geo_key ''play.example.org'' (Some 25565)) = None"
    by (simp add: geo_cached_def demo_geo_cache_def geo_new_def)
  show ?thesis
    using country_is_remembered [OF demo_geo_first m, of "demo_geo_env 3000" Java]
    by (auto simp: demo_geo_env_def demo_geo_cache_def geo_new_def ttl_with_jitter_def Let_def)
qed

text \<open>
  A name is not resolved again before its entry expires, and neither is a name that failed to
  resolve before the retry time has passed; other names that are looked up meanwhile do not change
  the answer, even when they make the cache drop its expired entries.
\<close>

theorem resolved_name_is_remembered:
  assumes "resolve_ip env c h p = (res, c', [call])" and "geo_ok c"
    and "t_dns_check env' < t_dns_store env +
      f64_of_u64 (if res = None then dns_retry_seconds (geo_cfg c) else dns_ttl_seconds (geo_cfg c))"
    and "dns_key h' p' \<noteq> dns_key h p" and "t_dns_evict env1 \<le> t_dns_check env'"
  shows "resolve_ip env' c' h p = (res, c', []) \<and>
    resolve_ip env' (fst (snd (resolve_ip env1 c' h' p'))) h p =
      (res, fst (snd (resolve_ip env1 c' h' p')), [])"
proof -
  obtain ip where c': "c' = dns_store c (t_dns_evict env) (t_dns_store env) (dns_key h p) ip"
    and res: "res = (if ip = [] then None else Some ip)"
    using assms(1) by (auto simp: resolve_ip_def Let_def split: option.splits)
  have ok: "geo_ok c'" unfolding c' using assms(2) by (rule geo_ok_dns_store)
  have hit: "dns_cached c' (t_dns_check env') (dns_key h p) = Some res"
    unfolding c' res using assms(3) res by (intro dns_cached_store_same) (auto split: if_splits)
  have "dns_cached (fst (snd (resolve_ip env1 c' h' p'))) (t_dns_check env') (dns_key h p) = Some res"
    using hit dns_cached_store_other [OF ok assms(5)] assms(4)
    by (auto simp: resolve_ip_def Let_def split: option.splits)
  with hit show ?thesis by (simp add: resolve_ip_def)
qed

theorem resolved_name_is_remembered_witness:
  "\<exists>c. resolve_ip (demo_geo_env 0) demo_geo_cache ''nowhere'' 1 = (None, c, [Dns_lookup (dns_key ''nowhere'' 1)]) \<and>
     resolve_ip (demo_geo_env 100) c ''nowhere'' 1 = (None, c, [])"
proof -
  let ?c = "dns_store demo_geo_cache 0 0 (dns_key ''nowhere'' 1) []"
  have ne: "dns_key ''nowhere'' 1 \<noteq> dns_key ''play.example.org'' 25565" by (simp add: dns_key_def)
  have r: "resolve_ip (demo_geo_env 0) demo_geo_cache ''nowhere'' 1 = (None, ?c, [Dns_lookup (dns_key ''nowhere'' 1)])"
    by (simp add: resolve_ip_def Let_def dns_cached_def demo_geo_cache_def geo_new_def)
      (simp add: demo_geo_env_def ne)
  have k: "dns_key ''elsewhere'' 1 \<noteq> dns_key ''nowhere'' 1" by (simp add: dns_key_def)
  have "resolve_ip (demo_geo_env 100) ?c ''nowhere'' 1 = (None, ?c, [])"
    using resolved_name_is_remembered [OF r _ _ k, of "demo_geo_env 100" "demo_geo_env 50"]
    by (auto simp: demo_geo_env_def demo_geo_cache_def geo_new_def geo_ok_def)
  with r show ?thesis by blast
qed

text \<open>
  The time to live is between the configured time and that time plus the jitter, as long as their
  sum fits into 64 bits.
\<close>

theorem ttl_with_jitter_range:
  assumes "\<And>n. 0 < n \<Longrightarrow> draw n < n" and "unat base + unat (refresh_jitter_seconds s) < 2 ^ 64"
  shows "f64_of_u64 base \<le> ttl_with_jitter draw s base \<and>
    ttl_with_jitter draw s base \<le> f64_of_u64 base + f64_of_u64 (refresh_jitter_seconds s)"
proof (cases "refresh_jitter_seconds s = 0 \<or> base = 0")
  case True
  then show ?thesis by (auto simp: ttl_with_jitter_def Let_def)
next
  case False
  let ?j = "draw (refresh_jitter_seconds s)"
  have "?j < refresh_jitter_seconds s" using assms(1) False by (simp add: word_gt_0)
  then have j: "unat ?j < unat (refresh_jitter_seconds s)" by (simp add: word_less_nat_alt)
  then have "unat (base + ?j) = unat base + unat ?j"
    using assms(2) by (subst unat_add_lem [THEN iffD1]) simp_all
  then have sum: "real (unat (base + ?j)) = real (unat base) + real (unat ?j)" by (simp only: of_nat_add)
  have le: "0 \<le> real (unat ?j)" "real (unat ?j) \<le> real (unat (refresh_jitter_seconds s))"
    using j by (simp_all only: of_nat_0_le_iff of_nat_le_iff less_imp_le)
  have "ttl_with_jitter draw s base = real (unat base) + real (unat ?j)"
    using False by (simp only: ttl_with_jitter_def Let_def f64_of_u64_def sum if_False)
  then show ?thesis using le unfolding f64_of_u64_def by linarith
qed

theorem ttl_with_jitter_range_witness:
  "ttl_with_jitter (\<lambda>n. n - 1) (geo_cfg demo_geo_cache) 3600 \<le> 3900"
proof -
  have "(0 :: u64) < n \<Longrightarrow> n - 1 < n" for n
    by (metis diff_0_right le_add_same_cancel1 less_irrefl_nat not_gr_zero unat_0 unat_minus_one word_less_nat_alt
        diff_less zero_less_one)
  from ttl_with_jitter_range [OF this, of 3600 "geo_cfg demo_geo_cache"] show ?thesis
    by (simp add: demo_geo_cache_def geo_new_def)
qed

end
