(* ===== verification/Config.thy ===== *)
theory Config
  imports Geo
begin

text \<open>
  \<open>src/src/config.rs\<close>: the settings and how they are read from the environment. The readers of
  \<open>service_toolkit_rust::env\<close> are parameters, one function from a variable and a default to a value
  for every type; \<open>dotenvy\<close> has filled the environment before.
\<close>

record env_readers =
  env_str :: "str \<Rightarrow> str \<Rightarrow> str"
  env_str_opt :: "str \<Rightarrow> str option"
  env_u64 :: "str \<Rightarrow> u64 \<Rightarrow> u64"
  env_usize :: "str \<Rightarrow> nat \<Rightarrow> nat"
  env_f64 :: "str \<Rightarrow> f64 \<Rightarrow> f64"
  env_u16 :: "str \<Rightarrow> u16 \<Rightarrow> u16"
  env_bool :: "str \<Rightarrow> bool \<Rightarrow> bool"

record api_settings =
  grpc_target :: str
  api_token :: "str option"

record collector_settings =
  online_interval_seconds :: u64
  offline_interval_seconds :: u64
  server_list_refresh_seconds :: u64
  server_list_retry_seconds :: u64
  page_size :: u64
  max_concurrency :: nat
  status_timeout_seconds :: f64
  lookup_timeout_seconds :: f64
  startup_spread_seconds :: u64
  ingest_batch_size :: nat
  ingest_flush_seconds :: f64
  result_queue_maxsize :: nat
  http_timeout_seconds :: f64
  bedrock_probe_interval_seconds :: u64
  bedrock_probe_jitter_seconds :: u64
  trigger_file_path :: str
  trigger_poll_seconds :: f64
  force_ping_queue_key :: str
  force_ping_pop_timeout_seconds :: f64
  discovery_probe_queue_key :: str
  discovery_probe_result_key_prefix :: str
  discovery_probe_result_ttl_seconds :: u64
  initial_failures_before_slowdown :: u32
  initial_failure_slowdown_multiplier :: f64
  initial_failure_max_interval_seconds :: u64
  plugin_compare_interval_seconds :: u64
  plugin_fallback_stale_seconds :: u64
  heartbeat_interval_seconds :: u64
  buffer_dir :: str
  buffer_max_bytes :: u64
  buffer_segment_max_bytes :: u64

record prometheus_settings =
  prom_enabled :: bool
  prom_host :: str
  prom_port :: u16
  prom_update_seconds :: f64

record redis_settings =
  redis_enabled :: bool
  redis_url :: str

record settings =
  service_name :: str
  log_level :: str
  server_cfg :: api_settings
  monitoring_cfg :: api_settings
  collector_cfg :: collector_settings
  geo_settings_cfg :: geo_settings
  prometheus_cfg :: prometheus_settings
  redis_cfg :: redis_settings

text \<open>The fall-back chain of two variables and a default.\<close>

definition chain :: "(str \<Rightarrow> 'a \<Rightarrow> 'a) \<Rightarrow> str \<Rightarrow> str \<Rightarrow> 'a \<Rightarrow> 'a" where
  "chain rd k1 k2 d = rd k1 (rd k2 d)"

subsection \<open>Intervals\<close>

definition load_online_interval :: "env_readers \<Rightarrow> u64" where
  "load_online_interval rd =
     (let online_interval = max (max (env_u64 rd ''COLLECTOR_ONLINE_INTERVAL_SECONDS'' 0)
            (env_u64 rd ''ONLINE_INTERVAL_SECONDS'' 0)) (env_u64 rd ''INTERVAL_SECONDS'' 0)
      in if 0 < online_interval then online_interval else 300)"

definition load_offline_interval :: "env_readers \<Rightarrow> u64" where
  "load_offline_interval rd =
     (let offline_interval = max (env_u64 rd ''COLLECTOR_OFFLINE_INTERVAL_SECONDS'' 0)
            (env_u64 rd ''OFFLINE_INTERVAL_SECONDS'' 0)
      in if 0 < offline_interval then offline_interval else load_online_interval rd * 2)"

definition load_startup_spread :: "env_readers \<Rightarrow> u64" where
  "load_startup_spread rd =
     (let startup_spread = max (env_u64 rd ''COLLECTOR_STARTUP_SPREAD_SECONDS'' 0)
            (env_u64 rd ''STARTUP_SPREAD_SECONDS'' 0)
      in if 0 < startup_spread then startup_spread else load_online_interval rd)"

definition load_server_api_token :: "env_readers \<Rightarrow> str option" where
  "load_server_api_token rd =
     (case env_str_opt rd ''SERVER_API_TOKEN'' of Some t \<Rightarrow> Some t | None \<Rightarrow> env_str_opt rd ''CORE_API_TOKEN'')"

subsection \<open>The collector's settings\<close>

definition load_collector :: "env_readers \<Rightarrow> collector_settings" where
  "load_collector rd =
     \<lparr>online_interval_seconds = load_online_interval rd,
      offline_interval_seconds = load_offline_interval rd,
      server_list_refresh_seconds = chain (env_u64 rd) ''COLLECTOR_SERVER_LIST_REFRESH_SECONDS'' ''SERVER_LIST_REFRESH_SECONDS'' 300,
      server_list_retry_seconds = chain (env_u64 rd) ''COLLECTOR_SERVER_LIST_RETRY_SECONDS'' ''SERVER_LIST_RETRY_SECONDS'' 30,
      page_size = min (chain (env_u64 rd) ''COLLECTOR_PAGE_SIZE'' ''PAGE_SIZE'' 100) 100,
      max_concurrency = chain (env_usize rd) ''COLLECTOR_MAX_CONCURRENCY'' ''MAX_CONCURRENCY'' 25,
      status_timeout_seconds = chain (env_f64 rd) ''COLLECTOR_STATUS_TIMEOUT_SECONDS'' ''STATUS_TIMEOUT_SECONDS'' 8,
      lookup_timeout_seconds = chain (env_f64 rd) ''COLLECTOR_LOOKUP_TIMEOUT_SECONDS'' ''LOOKUP_TIMEOUT_SECONDS'' 5,
      startup_spread_seconds = load_startup_spread rd,
      ingest_batch_size = chain (env_usize rd) ''COLLECTOR_INGEST_BATCH_SIZE'' ''INGEST_BATCH_SIZE'' 200,
      ingest_flush_seconds = chain (env_f64 rd) ''COLLECTOR_INGEST_FLUSH_SECONDS'' ''INGEST_FLUSH_SECONDS'' 5,
      result_queue_maxsize = chain (env_usize rd) ''COLLECTOR_RESULT_QUEUE_MAXSIZE'' ''RESULT_QUEUE_MAXSIZE'' 5000,
      http_timeout_seconds = chain (env_f64 rd) ''COLLECTOR_HTTP_TIMEOUT_SECONDS'' ''HTTP_TIMEOUT_SECONDS'' 15,
      bedrock_probe_interval_seconds = chain (env_u64 rd) ''COLLECTOR_BEDROCK_PROBE_INTERVAL_SECONDS'' ''BEDROCK_PROBE_INTERVAL_SECONDS'' 3600,
      bedrock_probe_jitter_seconds = chain (env_u64 rd) ''COLLECTOR_BEDROCK_PROBE_JITTER_SECONDS'' ''BEDROCK_PROBE_JITTER_SECONDS'' 600,
      trigger_file_path = chain (env_str rd) ''COLLECTOR_TRIGGER_FILE_PATH'' ''TRIGGER_FILE_PATH'' ''/tmp/server-poller-trigger'',
      trigger_poll_seconds = chain (env_f64 rd) ''COLLECTOR_TRIGGER_POLL_SECONDS'' ''TRIGGER_POLL_SECONDS'' 2,
      force_ping_queue_key = chain (env_str rd) ''COLLECTOR_FORCE_PING_QUEUE_KEY'' ''FORCE_PING_QUEUE_KEY'' ''leavepulse:unverified:force-ping'',
      force_ping_pop_timeout_seconds = chain (env_f64 rd) ''COLLECTOR_FORCE_PING_POP_TIMEOUT_SECONDS'' ''FORCE_PING_POP_TIMEOUT_SECONDS'' 1,
      discovery_probe_queue_key = chain (env_str rd) ''COLLECTOR_DISCOVERY_PROBE_QUEUE_KEY'' ''DISCOVERY_PROBE_QUEUE_KEY'' ''leavepulse:discovery:probe-request'',
      discovery_probe_result_key_prefix = chain (env_str rd) ''COLLECTOR_DISCOVERY_PROBE_RESULT_KEY_PREFIX'' ''DISCOVERY_PROBE_RESULT_KEY_PREFIX'' ''leavepulse:discovery:probe-result:'',
      discovery_probe_result_ttl_seconds = chain (env_u64 rd) ''COLLECTOR_DISCOVERY_PROBE_RESULT_TTL_SECONDS'' ''DISCOVERY_PROBE_RESULT_TTL_SECONDS'' 86400,
      initial_failures_before_slowdown = ucast (chain (env_u64 rd) ''COLLECTOR_INITIAL_FAILURES_BEFORE_SLOWDOWN'' ''INITIAL_FAILURES_BEFORE_SLOWDOWN'' 5),
      initial_failure_slowdown_multiplier = chain (env_f64 rd) ''COLLECTOR_INITIAL_FAILURE_SLOWDOWN_MULTIPLIER'' ''INITIAL_FAILURE_SLOWDOWN_MULTIPLIER'' 6,
      initial_failure_max_interval_seconds = chain (env_u64 rd) ''COLLECTOR_INITIAL_FAILURE_MAX_INTERVAL_SECONDS'' ''INITIAL_FAILURE_MAX_INTERVAL_SECONDS'' 3600,
      plugin_compare_interval_seconds = max (chain (env_u64 rd) ''COLLECTOR_PLUGIN_COMPARE_INTERVAL_SECONDS'' ''PLUGIN_COMPARE_INTERVAL_SECONDS'' 1800) 60,
      plugin_fallback_stale_seconds = max (chain (env_u64 rd) ''COLLECTOR_PLUGIN_FALLBACK_STALE_SECONDS'' ''PLUGIN_FALLBACK_STALE_SECONDS'' 300) 60,
      heartbeat_interval_seconds = chain (env_u64 rd) ''COLLECTOR_HEARTBEAT_INTERVAL_SECONDS'' ''HEARTBEAT_INTERVAL_SECONDS'' 300,
      buffer_dir = chain (env_str rd) ''COLLECTOR_BUFFER_DIR'' ''BUFFER_DIR'' ''./data/buffer'',
      buffer_max_bytes = chain (env_u64 rd) ''COLLECTOR_BUFFER_MAX_BYTES'' ''BUFFER_MAX_BYTES'' (50 * 1024 * 1024),
      buffer_segment_max_bytes = chain (env_u64 rd) ''COLLECTOR_BUFFER_SEGMENT_MAX_BYTES'' ''BUFFER_SEGMENT_MAX_BYTES'' (2 * 1024 * 1024)\<rparr>"

definition load_geo :: "env_readers \<Rightarrow> geo_settings" where
  "load_geo rd =
     \<lparr>ttl_seconds = env_u64 rd ''GEO_TTL_SECONDS'' 3600,
      refresh_jitter_seconds = env_u64 rd ''GEO_REFRESH_JITTER_SECONDS'' 300,
      retry_seconds = env_u64 rd ''GEO_RETRY_SECONDS'' 300,
      dns_ttl_seconds = max (env_u64 rd ''GEO_DNS_TTL_SECONDS'' 600) 60,
      dns_retry_seconds = max (env_u64 rd ''GEO_DNS_RETRY_SECONDS'' 120) 10,
      dns_cache_max_entries = max (env_usize rd ''GEO_DNS_CACHE_MAX_ENTRIES'' 10000) 100,
      dns_max_concurrency = max (env_usize rd ''GEO_DNS_MAX_CONCURRENCY'' 32) 1\<rparr>"

definition load :: "env_readers \<Rightarrow> settings" where
  "load rd =
     \<lparr>service_name = env_str rd ''SERVICE_NAME'' ''server-poller'',
      log_level = env_str rd ''LOG_LEVEL'' ''info'',
      server_cfg =
        \<lparr>grpc_target = env_str rd ''SERVER_GRPC_TARGET'' ''http://server-service:50201'',
         api_token = load_server_api_token rd\<rparr>,
      monitoring_cfg =
        \<lparr>grpc_target = env_str rd ''MONITORING_GRPC_TARGET'' ''http://monitoring-service:50200'',
         api_token = env_str_opt rd ''MONITORING_API_TOKEN''\<rparr>,
      collector_cfg = load_collector rd,
      geo_settings_cfg = load_geo rd,
      prometheus_cfg =
        \<lparr>prom_enabled = chain (env_bool rd) ''PROMETHEUS_ENABLED'' ''METRICS_ENABLED'' True,
         prom_host = chain (env_str rd) ''PROMETHEUS_HOST'' ''METRICS_HOST'' ''0.0.0.0'',
         prom_port = chain (env_u16 rd) ''PROMETHEUS_PORT'' ''METRICS_PORT'' 9100,
         prom_update_seconds = chain (env_f64 rd) ''PROMETHEUS_UPDATE_SECONDS'' ''METRICS_UPDATE_SECONDS'' 5\<rparr>,
      redis_cfg =
        \<lparr>redis_enabled = env_bool rd ''REDIS_ENABLED'' False,
         redis_url = env_str rd ''REDIS_URL'' ''redis://127.0.0.1:6379''\<rparr>\<rparr>"

subsection \<open>What the settings guarantee\<close>

lemma double_0_imp:
  fixes x :: u64
  assumes "x * 2 = 0" and "0 < x"
  shows "x = 2 ^ 63"
proof -
  have "uint x * 2 mod 2 ^ 64 = 0"
    using arg_cong [OF assms(1), of uint] by (simp add: uint_word_ariths)
  moreover have "uint x < 2 ^ 64" "0 < uint x"
    using uint_lt2p [of x] assms(2) by (simp_all add: word_less_def)
  moreover from calculation(1) obtain k where k: "uint x * 2 = 2 ^ 64 * k" by (auto simp: mod_eq_0_iff_dvd elim: dvdE)
  ultimately have "0 < k" "k < 2" by simp_all
  with k have "uint x = 2 ^ 63" by simp
  then show "x = 2 ^ 63" by (simp add: word_uint_eq_iff)
qed

lemma online_interval_pos: "0 < load_online_interval rd"
  by (simp add: load_online_interval_def Let_def)

lemma startup_spread_pos: "0 < load_startup_spread rd"
  using online_interval_pos [of rd] by (simp add: load_startup_spread_def Let_def)

lemma offline_interval_pos: "load_offline_interval rd \<noteq> 0 \<or> load_online_interval rd = 2 ^ 63"
proof (cases "load_offline_interval rd = 0")
  case True
  then have "load_online_interval rd * 2 = 0"
    by (auto simp only: load_offline_interval_def Let_def split: if_splits)
  then show ?thesis using double_0_imp online_interval_pos by blast
qed simp

lemma collector_cfg_load: "collector_cfg (load rd) = load_collector rd"
  by (simp only: load_def settings.select_convs)

lemma geo_cfg_load: "geo_settings_cfg (load rd) = load_geo rd"
  by (simp only: load_def settings.select_convs)

text \<open>
  Whatever the environment holds, the collector polls at positive intervals, asks for pages of at
  most 100 servers, compares plugin-managed servers at most once a minute, and the geolocation cache
  keeps its lower bounds. (The offline interval is positive unless doubling the online interval
  overflows.)
\<close>

theorem settings_are_bounded:
  "0 < online_interval_seconds (collector_cfg (load rd)) \<and>
   0 < startup_spread_seconds (collector_cfg (load rd)) \<and>
   (offline_interval_seconds (collector_cfg (load rd)) \<noteq> 0 \<or>
     online_interval_seconds (collector_cfg (load rd)) = 2 ^ 63) \<and>
   page_size (collector_cfg (load rd)) \<le> 100 \<and>
   60 \<le> plugin_compare_interval_seconds (collector_cfg (load rd)) \<and>
   60 \<le> plugin_fallback_stale_seconds (collector_cfg (load rd)) \<and>
   60 \<le> dns_ttl_seconds (geo_settings_cfg (load rd)) \<and>
   10 \<le> dns_retry_seconds (geo_settings_cfg (load rd)) \<and>
   100 \<le> dns_cache_max_entries (geo_settings_cfg (load rd)) \<and>
   1 \<le> dns_max_concurrency (geo_settings_cfg (load rd))"
  unfolding collector_cfg_load geo_cfg_load load_collector_def load_geo_def
    collector_settings.select_convs geo_settings.select_convs
  by (intro conjI online_interval_pos startup_spread_pos offline_interval_pos min.cobounded2 max.cobounded2)

end
