(* ===== verification/Version.thy ===== *)
theory Version
  imports Rust_Std "HOL-Library.List_Lexorder"
begin

text \<open>
  The version sanitizer of \<open>src/src/ping.rs\<close>: servers report their version as free text with colour
  codes and decoration (\<^verbatim>\<open>Velocity 1.7.2-1.21.4\<close>); the sanitizer finds the Minecraft version or
  range of versions in it.

  Texts are UTF-8 bytes, and the positions below are byte offsets, as in the code. An \<open>i32\<close> that is
  only parsed and compared is an integer.
\<close>

definition MINECRAFT_VERSION_MAJOR :: int where
  "MINECRAFT_VERSION_MAJOR = 1"

definition VERSION_SUFFIX_PREFIXES :: "str list" where
  "VERSION_SUFFIX_PREFIXES = [''pre'', ''rc'', ''snapshot'', ''beta'', ''alpha'']"

record version_token =
  tok_label :: str
  tok_parts :: "int list"

definition section_sign :: str where
  "section_sign = [CHR 0xC2, CHR 0xA7]"

fun strip_codes :: "bool \<Rightarrow> str list \<Rightarrow> str" where
  "strip_codes skip_next [] = []"
| "strip_codes skip_next (ch # cs) =
     (if skip_next then strip_codes False cs
      else if ch = section_sign then strip_codes True cs
      else ch @ strip_codes False cs)"

definition normalize_version_candidate :: "str \<Rightarrow> str" where
  "normalize_version_candidate raw = join '' '' (split_whitespace (strip_codes False (chars raw)))"

definition slice :: "str \<Rightarrow> nat \<Rightarrow> nat \<Rightarrow> str" where
  "slice s a b = take (b - a) (drop a s)"

definition extract_mc_parenthetical :: "str \<Rightarrow> str option" where
  "extract_mc_parenthetical value =
     (case find_sub ''(mc:'' (to_ascii_lowercase value) of
        None \<Rightarrow> None
      | Some start \<Rightarrow>
          let body_start = start + 4 in
          case find_sub '')'' (drop body_start value) of
            None \<Rightarrow> None
          | Some body_end \<Rightarrow> Some (trim (slice value body_start (body_start + body_end))))"

definition byte_get :: "str \<Rightarrow> nat \<Rightarrow> char option" where
  "byte_get s i = (if i < length s then Some (s ! i) else None)"

definition skip_while :: "(char \<Rightarrow> bool) \<Rightarrow> str \<Rightarrow> nat \<Rightarrow> nat" where
  "skip_while P bytes i = i + length (takeWhile P (drop i bytes))"

definition parse_digits :: "str \<Rightarrow> nat \<Rightarrow> nat option" where
  "parse_digits bytes i =
     (case byte_get bytes i of
        Some b \<Rightarrow> if is_digit b then Some (skip_while is_digit bytes i) else None
      | None \<Rightarrow> None)"

definition starts_with_version_suffix :: "str \<Rightarrow> bool" where
  "starts_with_version_suffix value =
     (let lower = to_ascii_lowercase value in list_ex (\<lambda>p. prefix p lower) VERSION_SUFFIX_PREFIXES)"

text \<open>
  The last scalar value before the position is ASCII exactly when its last byte is, so that the test
  can be made on that byte.
\<close>

definition is_version_boundary_before :: "str \<Rightarrow> nat \<Rightarrow> bool" where
  "is_version_boundary_before value start =
     (case start of
        0 \<Rightarrow> True
      | Suc i \<Rightarrow> \<not> is_alphanumeric (value ! i) \<and> value ! i \<noteq> CHR ''.'')"

text \<open>The optional third number: its value, if there is one, and where it ends.\<close>

definition parse_patch :: "str \<Rightarrow> nat \<Rightarrow> (int list \<times> nat) option" where
  "parse_patch value i =
     (if byte_get value i = Some (CHR ''.'') then
        (let patch_start = i + 1 in
         if byte_get value patch_start = Some (CHR ''x'') \<or> byte_get value patch_start = Some (CHR ''X'')
         then Some ([], patch_start + 1)
         else case parse_digits value patch_start of
             Some patch_end \<Rightarrow>
               (case parse_i32 (slice value patch_start patch_end) of
                  Some n \<Rightarrow> Some ([n], patch_end)
                | None \<Rightarrow> None)
           | None \<Rightarrow> Some ([], i))
      else Some ([], i))"

definition suffix_byte :: "char \<Rightarrow> bool" where
  "suffix_byte b \<longleftrightarrow> is_alphanumeric b \<or> b = CHR ''.'' \<or> b = CHR ''-''"

definition skip_version_suffix :: "str \<Rightarrow> nat \<Rightarrow> nat" where
  "skip_version_suffix value i =
     (if byte_get value i = Some (CHR ''-'') \<and> starts_with_version_suffix (drop (i + 1) value)
      then skip_while suffix_byte value (i + 1) else i)"

definition parse_minecraft_version_token :: "str \<Rightarrow> nat \<Rightarrow> (version_token \<times> nat) option" where
  "parse_minecraft_version_token value start =
     (case parse_digits value start of None \<Rightarrow> None | Some i1 \<Rightarrow>
      (case parse_i32 (slice value start i1) of None \<Rightarrow> None | Some major \<Rightarrow>
       if major \<noteq> MINECRAFT_VERSION_MAJOR \<or> byte_get value i1 \<noteq> Some (CHR ''.'') then None
       else
         (case parse_digits value (i1 + 1) of None \<Rightarrow> None | Some i2 \<Rightarrow>
          (case parse_i32 (slice value (i1 + 1) i2) of None \<Rightarrow> None | Some minor \<Rightarrow>
           (case parse_patch value i2 of None \<Rightarrow> None | Some (patch, i3) \<Rightarrow>
             let i4 = skip_version_suffix value i3 in
             if (case byte_get value i4 of Some b \<Rightarrow> is_alphanumeric b | None \<Rightarrow> False) then None
             else Some
               (\<lparr>tok_label = trim_end_matches ''.X'' (trim_end_matches ''.x'' (slice value start i4)),
                 tok_parts = [major, minor] @ patch\<rparr>, i4))))))"

text \<open>The first position of a \<open>1\<close> at which a token starts.\<close>

definition token_at :: "str \<Rightarrow> nat \<Rightarrow> (version_token \<times> nat) option" where
  "token_at value i =
     (if value ! i \<noteq> CHR ''1'' then None
      else if \<not> is_version_boundary_before value i then None
      else parse_minecraft_version_token value i)"

definition find_minecraft_version_token :: "str \<Rightarrow> nat \<Rightarrow> (version_token \<times> nat) option" where
  "find_minecraft_version_token value start =
     (case List.map_filter (token_at value) [start..<length value] of [] \<Rightarrow> None | t # ts \<Rightarrow> Some t)"

fun compare_version_parts :: "int list \<Rightarrow> int list \<Rightarrow> ordering" where
  "compare_version_parts [] [] = Equal"
| "compare_version_parts (l # ls) [] =
     (case cmp_of l 0 of Equal \<Rightarrow> compare_version_parts ls [] | ord \<Rightarrow> ord)"
| "compare_version_parts [] (r # rs) =
     (case cmp_of 0 r of Equal \<Rightarrow> compare_version_parts [] rs | ord \<Rightarrow> ord)"
| "compare_version_parts (l # ls) (r # rs) =
     (case cmp_of l r of Equal \<Rightarrow> compare_version_parts ls rs | ord \<Rightarrow> ord)"

definition format_version_range :: "version_token \<Rightarrow> version_token \<Rightarrow> str" where
  "format_version_range left right =
     (let ord = compare_version_parts (tok_parts left) (tok_parts right) in
      if ord = Equal \<and> tok_label left = tok_label right then tok_label left
      else if ord = Greater then tok_label right @ ''-'' @ tok_label left
      else tok_label left @ ''-'' @ tok_label right)"

text \<open>What is done when no parenthetical settles the version.\<close>

definition plain_version :: "str \<Rightarrow> str" where
  "plain_version normalized =
     (case find_minecraft_version_token normalized 0 of
        None \<Rightarrow> []
      | Some (first, first_end) \<Rightarrow>
          (let after_first = drop first_end normalized;
               spaces = length after_first - length (trim_start after_first);
               after_spaces = drop spaces after_first
           in case strip_prefix ''-'' after_spaces of
                None \<Rightarrow> tok_label first
              | Some after_dash \<Rightarrow>
                  let more_spaces = length after_dash - length (trim_start after_dash);
                      second_start = first_end + spaces + 1 + more_spaces
                  in case parse_minecraft_version_token normalized second_start of
                       Some (second, second_end) \<Rightarrow> format_version_range first second
                     | None \<Rightarrow> tok_label first))"

subsection \<open>The sanitizer returns\<close>

lemma length_strip_codes: "length (strip_codes b cs) \<le> length (concat cs)"
  by (induction b cs rule: strip_codes.induct) auto

lemma length_normalize: "length (normalize_version_candidate raw) \<le> length raw"
proof -
  let ?s = "strip_codes False (chars raw)"
  have "length (normalize_version_candidate raw) \<le> length ?s"
    using length_words_of [of "chars ?s" "[]"] chars_nonempty [of ?s]
    by (cases "words_of (chars ?s) []")
      (simp_all add: normalize_version_candidate_def split_whitespace_def length_join_one)
  also have "\<dots> \<le> length raw" using length_strip_codes [of False "chars raw"] by simp
  finally show ?thesis .
qed

lemma length_extract: "extract_mc_parenthetical value = Some mc \<Longrightarrow> length mc < length value"
proof -
  assume "extract_mc_parenthetical value = Some mc"
  then obtain i e where i: "find_sub ''(mc:'' (to_ascii_lowercase value) = Some i"
    and mc: "mc = trim (slice value (i + 4) (i + 4 + e))"
    by (auto simp: extract_mc_parenthetical_def Let_def split: option.splits)
  have "i + 4 \<le> length value" using find_sub_le [OF i] by simp
  moreover have "length mc \<le> length value - (i + 4)"
    using length_trim_le [of "slice value (i + 4) (i + 4 + e)"] unfolding mc by (simp add: slice_def)
  ultimately show ?thesis by arith
qed

function sanitize_minecraft_version :: "str \<Rightarrow> str" where
  "sanitize_minecraft_version raw =
     (let normalized = normalize_version_candidate raw in
      if normalized = [] then []
      else
        case extract_mc_parenthetical normalized of
          Some mc_value \<Rightarrow>
            (let version = sanitize_minecraft_version mc_value in
             if version \<noteq> [] then version else plain_version normalized)
        | None \<Rightarrow> plain_version normalized)"
  by pat_completeness auto
termination
proof (relation "measure length")
  fix raw x mc
  assume "x = normalize_version_candidate raw" "extract_mc_parenthetical x = Some mc"
  then have "length mc < length (normalize_version_candidate raw)" by (auto dest: length_extract)
  with length_normalize [of raw] show "(mc, raw) \<in> measure length" by simp
qed simp

declare sanitize_minecraft_version.simps [simp del]

subsection \<open>What a token is made of\<close>

text \<open>The bytes from \<open>a\<close> to \<open>b\<close> exist and may occur in a version.\<close>

definition version_bytes :: "str \<Rightarrow> nat \<Rightarrow> nat \<Rightarrow> bool" where
  "version_bytes value a b \<longleftrightarrow> a \<le> b \<and> b \<le> length value \<and> (\<forall>i. a \<le> i \<longrightarrow> i < b \<longrightarrow> suffix_byte (value ! i))"

lemma version_bytes_refl: "a \<le> length value \<Longrightarrow> version_bytes value a a"
  by (simp add: version_bytes_def)

lemma version_bytes_trans:
  "version_bytes value a b \<Longrightarrow> version_bytes value b c \<Longrightarrow> version_bytes value a c"
  unfolding version_bytes_def by (metis le_trans not_less)

lemma version_bytes_Suc:
  "byte_get value i = Some c \<Longrightarrow> suffix_byte c \<Longrightarrow> version_bytes value i (i + 1)"
  by (auto simp: version_bytes_def byte_get_def less_Suc_eq split: if_splits)

lemma skip_while_bytes:
  assumes "i \<le> length value" and "\<And>c. P c \<Longrightarrow> suffix_byte c"
  shows "version_bytes value i (skip_while P value i)"
  unfolding version_bytes_def
proof (intro conjI allI impI)
  let ?w = "takeWhile P (drop i value)"
  show "i \<le> skip_while P value i" by (simp add: skip_while_def)
  have le: "length ?w \<le> length (drop i value)" by (rule length_takeWhile_le)
  then show "skip_while P value i \<le> length value" using assms(1) by (simp add: skip_while_def)
  fix j assume j: "i \<le> j" "j < skip_while P value i"
  then have "j - i < length ?w" by (simp add: skip_while_def)
  then have "P (?w ! (j - i))" and "?w ! (j - i) = drop i value ! (j - i)"
    using set_takeWhileD nth_mem by (fastforce, metis takeWhile_nth)
  moreover have "drop i value ! (j - i) = value ! j" using j assms(1) by simp
  ultimately show "suffix_byte (value ! j)" using assms(2) by simp
qed

lemma suffix_byte_digit: "is_digit c \<Longrightarrow> suffix_byte c"
  by (auto simp: is_digit_def suffix_byte_def is_alphanumeric_def)

lemma parse_digits_bytes: "parse_digits value i = Some j \<Longrightarrow> version_bytes value i j \<and> i < j"
proof -
  assume a: "parse_digits value i = Some j"
  then have i: "i < length value" "is_digit (value ! i)" and j: "j = skip_while is_digit value i"
    by (auto simp: parse_digits_def byte_get_def split: option.splits if_splits)
  have "drop i value = value ! i # drop (Suc i) value" using i(1) by (rule Cons_nth_drop_Suc [symmetric])
  with i have "i < j" by (simp add: j skip_while_def)
  then show ?thesis
    using i skip_while_bytes [of i "value" is_digit] suffix_byte_digit by (simp add: j)
qed

lemma suffix_byte_lits [simp]:
  "suffix_byte (CHR ''.'')" "suffix_byte (CHR ''-'')" "suffix_byte (CHR ''x'')" "suffix_byte (CHR ''X'')"
  by (simp_all add: suffix_byte_def is_alphanumeric_def)

lemma byte_get_le: "byte_get value i = Some c \<Longrightarrow> i < length value"
  by (auto simp: byte_get_def split: if_splits)

lemma parse_patch_bytes:
  assumes "parse_patch value i = Some (p, j)" and "i \<le> length value"
  shows "version_bytes value i j"
proof (cases "byte_get value i = Some (CHR ''.'')")
  case dot: True
  have d: "version_bytes value i (i + 1)" using dot by (rule version_bytes_Suc) simp
  show ?thesis
  proof (cases "byte_get value (i + 1) = Some (CHR ''x'') \<or> byte_get value (i + 1) = Some (CHR ''X'')")
    case True
    then have "version_bytes value (i + 1) (i + 1 + 1)" 
      using version_bytes_Suc [of "value" "i + 1" "CHR ''x''"] version_bytes_Suc [of "value" "i + 1" "CHR ''X''"] by auto
    moreover have "j = i + 1 + 1" using assms(1) dot True by (simp add: parse_patch_def)
    ultimately show ?thesis using d version_bytes_trans by blast
  next
    case False
    then show ?thesis
      using assms dot d version_bytes_refl [of i "value"]
      by (auto simp: parse_patch_def split: option.splits dest!: parse_digits_bytes
          intro: version_bytes_trans)
  qed
next
  case False
  then show ?thesis using assms by (simp add: parse_patch_def version_bytes_refl)
qed

lemma skip_version_suffix_bytes:
  assumes "i \<le> length value"
  shows "version_bytes value i (skip_version_suffix value i)"
proof (cases "byte_get value i = Some (CHR ''-'') \<and> starts_with_version_suffix (drop (i + 1) value)")
  case True
  then have m: "byte_get value i = Some (CHR ''-'')" by simp
  have "version_bytes value i (i + 1)" using m by (rule version_bytes_Suc) simp
  moreover have "version_bytes value (i + 1) (skip_while suffix_byte value (i + 1))"
    using True byte_get_le [of "value" i] by (intro skip_while_bytes) auto
  ultimately have "version_bytes value i (skip_while suffix_byte value (i + 1))" by (rule version_bytes_trans)
  with True show ?thesis by (simp add: skip_version_suffix_def)
next
  case False
  then show ?thesis using assms by (auto simp: skip_version_suffix_def version_bytes_refl)
qed

lemma trim_end_matches_set: "set (trim_end_matches p s) \<subseteq> set s"
proof (induction p s rule: trim_end_matches.induct)
  case (1 p s)
  then show ?case by (subst trim_end_matches.simps) (auto dest!: in_set_takeD)
qed

lemma token_bytes:
  assumes "parse_minecraft_version_token value start = Some (tok, e)"
  shows "version_bytes value start e \<and> start < e \<and> set (tok_label tok) \<subseteq> Collect suffix_byte"
proof -
  obtain i1 i2 p i3 where i1: "parse_digits value start = Some i1"
    and dot: "byte_get value i1 = Some (CHR ''.'')" and i2: "parse_digits value (i1 + 1) = Some i2"
    and i3: "parse_patch value i2 = Some (p, i3)" and e: "e = skip_version_suffix value i3"
    and lab: "tok_label tok = trim_end_matches ''.X'' (trim_end_matches ''.x'' (slice value start e))"
    using assms
    by (auto simp: parse_minecraft_version_token_def Let_def split: option.splits prod.splits if_splits)
  have d: "version_bytes value i1 (i1 + 1)" using dot by (rule version_bytes_Suc) simp
  have 3: "version_bytes value i2 i3"
    using i3 parse_digits_bytes [OF i2] by (intro parse_patch_bytes) (simp_all add: version_bytes_def)
  have 4: "version_bytes value i3 e"
    unfolding e using 3 by (intro skip_version_suffix_bytes) (simp add: version_bytes_def)
  have all: "version_bytes value start e"
    using parse_digits_bytes [OF i1] parse_digits_bytes [OF i2] d 3 4 version_bytes_trans by meson
  moreover have "start < e"
    using parse_digits_bytes [OF i1] d parse_digits_bytes [OF i2] 3 4 by (auto simp: version_bytes_def)
  moreover have "set (slice value start e) \<subseteq> Collect suffix_byte"
    using all by (auto simp: slice_def version_bytes_def in_set_conv_nth)
  ultimately show ?thesis using trim_end_matches_set unfolding lab by blast
qed

lemma format_range_set: "set (format_version_range a b) \<subseteq> set (tok_label a) \<union> set (tok_label b) \<union> {CHR ''-''}"
  by (auto simp: format_version_range_def Let_def)

lemma find_token_Some:
  "find_minecraft_version_token value s = Some (t, e) \<Longrightarrow> \<exists>i. parse_minecraft_version_token value i = Some (t, e)"
proof -
  assume "find_minecraft_version_token value s = Some (t, e)"
  then have "(t, e) \<in> set (List.map_filter (token_at value) [s..<length value])"
    by (auto simp: find_minecraft_version_token_def split: list.splits)
  then show ?thesis by (auto simp: map_filter_subset token_at_def split: if_splits)
qed

lemma plain_version_set: "set (plain_version s) \<subseteq> Collect suffix_byte"
proof (cases "find_minecraft_version_token s 0")
  case None
  then show ?thesis by (simp add: plain_version_def)
next
  case (Some p)
  obtain t e where te: "p = (t, e)" by (cases p)
  then have t: "set (tok_label t) \<subseteq> Collect suffix_byte"
    using Some find_token_Some [of s 0 t e] token_bytes by blast
  show ?thesis
    using t Some te format_range_set
    by (fastforce simp: plain_version_def Let_def split: option.splits dest: token_bytes)
qed

text \<open>
  Whatever a server reports, the version is made of letters, digits, dots and hyphens only: no
  colour codes, white space, quotes or markup reach the consumers.
\<close>

theorem sanitized_version_is_clean:
  "set (sanitize_minecraft_version raw) \<subseteq> {c. is_alphanumeric c \<or> c = CHR ''.'' \<or> c = CHR ''-''}"
proof (induction raw rule: sanitize_minecraft_version.induct)
  case (1 raw)
  have s: "{c. is_alphanumeric c \<or> c = CHR ''.'' \<or> c = CHR ''-''} = Collect suffix_byte"
    by (auto simp: suffix_byte_def)
  show ?case
    using 1 plain_version_set unfolding s
    by (subst sanitize_minecraft_version.simps) (auto simp: Let_def split: option.splits)
qed

subsection \<open>Comparing versions\<close>

text \<open>Missing numbers count as zero: the lists are compared as if padded with zeros.\<close>

definition pad :: "nat \<Rightarrow> int list \<Rightarrow> int list" where
  "pad n xs = xs @ replicate (n - length xs) 0"

lemma pad_simps [simp]:
  "pad 0 [] = []" "pad (Suc n) [] = 0 # pad n []" "pad (Suc n) (x # xs) = x # pad n xs"
  by (simp_all add: pad_def)

lemma cmp_of_Cons [simp]:
  "cmp_of (x # xs) (y # ys) = (case cmp_of x y of Equal \<Rightarrow> cmp_of xs ys | ord \<Rightarrow> ord)"
  for x :: "'a::linorder"
  by (auto simp: cmp_of_def)

text \<open>
  C33: Versions are compared as lists of numbers, in lexicographic order, with missing numbers
  counted as zero.
\<close>

theorem compare_version_parts_lexicographic:
  assumes "length l \<le> n" and "length r \<le> n"
  shows "compare_version_parts l r = cmp_of (pad n l) (pad n r)"
  using assms
proof (induction l r arbitrary: n rule: compare_version_parts.induct)
  case 1
  then show ?case by (simp add: cmp_of_def)
next
  case (2 l ls)
  then obtain m where "n = Suc m" by (cases n) auto
  with 2 show ?case by (simp split: ordering.splits)
next
  case (3 r rs)
  then obtain m where "n = Suc m" by (cases n) auto
  with 3 show ?case by (simp split: ordering.splits)
next
  case (4 l ls r rs)
  then obtain m where "n = Suc m" by (cases n) auto
  with 4 show ?case by (simp split: ordering.splits)
qed

theorem compare_version_parts_lexicographic_witness:
  "compare_version_parts [1, 8] [1, 20, 4] = cmp_of [1, 8, 0 :: int] [1, 20, 4]"
  using compare_version_parts_lexicographic [of "[1, 8]" 3 "[1, 20, 4]"]
  by (simp add: pad_def numeral_eq_Suc)

lemma compare_swap: "compare_version_parts l r = Less \<longleftrightarrow> compare_version_parts r l = Greater"
proof (induction l r rule: compare_version_parts.induct)
  case (2 l ls)
  then show ?case by (cases ls) (auto simp: cmp_of_def split: ordering.splits)
next
  case (3 r rs)
  then show ?case by (cases rs) (auto simp: cmp_of_def split: ordering.splits)
qed (auto simp: cmp_of_def split: ordering.splits)

text \<open>A range is written with the older version first, in whichever order the server lists them.\<close>

theorem range_lists_older_first:
  assumes "compare_version_parts (tok_parts old) (tok_parts new) = Less"
  shows "format_version_range old new = tok_label old @ ''-'' @ tok_label new \<and>
    format_version_range new old = tok_label old @ ''-'' @ tok_label new"
  using assms compare_swap [of "tok_parts old" "tok_parts new"]
  by (simp add: format_version_range_def)

theorem range_lists_older_first_witness:
  "format_version_range \<lparr>tok_label = ''1.20'', tok_parts = [1, 20]\<rparr> \<lparr>tok_label = ''1.8'', tok_parts = [1, 8]\<rparr>
     = ''1.8-1.20''"
  using range_lists_older_first [of "\<lparr>tok_label = ''1.8'', tok_parts = [1, 8]\<rparr>" "\<lparr>tok_label = ''1.20'', tok_parts = [1, 20]\<rparr>"]
  by (simp add: cmp_of_def)

subsection \<open>Release versions\<close>

lemma byte_get_at: "byte_get (a @ c # b) (length a) = Some c"
  by (simp add: byte_get_def)

lemma takeWhile_digits:
  "\<forall>c\<in>set d. is_digit c \<Longrightarrow> (case b of [] \<Rightarrow> True | c # _ \<Rightarrow> \<not> is_digit c) \<Longrightarrow> takeWhile is_digit (d @ b) = d"
  by (cases b) (simp_all add: takeWhile_append)

lemma parse_digits_at:
  assumes "d \<noteq> []" "\<forall>c\<in>set d. is_digit c" "case b of [] \<Rightarrow> True | c # _ \<Rightarrow> \<not> is_digit c"
  shows "parse_digits (a @ d @ b) (length a) = Some (length a + length d)"
proof -
  obtain c r where d: "d = c # r" using assms(1) by (cases d) auto
  then have "byte_get (a @ d @ b) (length a) = Some c" by (simp add: byte_get_at)
  then show ?thesis
    using assms(2) d takeWhile_digits [OF assms(2,3)]
    by (simp add: parse_digits_def skip_while_def)
qed

lemma slice_at: "slice (a @ d @ b) (length a) (length a + length d) = d"
  by (simp add: slice_def)

lemma parse_i32_show_nat: "n < 2 ^ 31 \<Longrightarrow> parse_i32 (show_nat n) = Some (int n)"
proof -
  assume n: "n < 2 ^ 31"
  obtain c r where cr: "show_nat n = c # r" by (cases "show_nat n") auto
  moreover from cr have "is_digit c" using show_nat_digits [of c n] by simp
  ultimately show ?thesis
    using n digits_value_show_nat [of n]
    by (auto simp: parse_i32_def parse_signed_def parse_digits_upto_def)
qed

definition version_text :: "nat \<Rightarrow> nat \<Rightarrow> str" where
  "version_text minor patch = ''1.'' @ show_nat minor @ ''.'' @ show_nat patch"

lemma dot_not_digit [simp]: "\<not> is_digit (CHR ''.'')"
  by (simp add: is_digit_def)

lemma show_nat_is_digit: "\<forall>c\<in>set (show_nat n). is_digit c"
  using show_nat_digits by blast

lemma parse_patch_text:
  assumes "n < 2 ^ 31"
  shows "parse_patch (a @ ''.'' @ show_nat n) (length a) = Some ([int n], length (a @ ''.'' @ show_nat n))"
proof -
  obtain c r where cr: "show_nat n = c # r" by (cases "show_nat n") auto
  then have "is_digit c" using show_nat_digits [of c n] by simp
  then have x: "c \<noteq> CHR ''x''" "c \<noteq> CHR ''X''" by (auto simp: is_digit_def)
  have d: "parse_digits ((a @ ''.'') @ show_nat n @ []) (length (a @ ''.'')) =
      Some (length (a @ ''.'') + length (show_nat n))"
    by (rule parse_digits_at) (simp_all add: show_nat_is_digit)
  have s: "slice ((a @ ''.'') @ show_nat n @ []) (length (a @ ''.'')) (length (a @ ''.'') + length (show_nat n)) = show_nat n"
    by (rule slice_at)
  have g: "byte_get (a @ CHR ''.'' # show_nat n) (Suc (length a)) = Some c"
    using byte_get_at [of "a @ ''.''" c r] by (simp add: cr)
  show ?thesis
    using d s g x parse_i32_show_nat [OF assms]
    by (simp add: parse_patch_def byte_get_at)
qed

lemma parse_version_text:
  assumes "minor < 2 ^ 31" "patch < 2 ^ 31"
  shows "parse_minecraft_version_token (version_text minor patch) 0 =
    Some (\<lparr>tok_label = version_text minor patch, tok_parts = [1, int minor, int patch]\<rparr>,
      length (version_text minor patch))"
proof -
  let ?v = "version_text minor patch"
  let ?m = "show_nat minor" and ?p = "show_nat patch"
  have 1: "parse_digits ?v 0 = Some 1"
    using parse_digits_at [of "''1''" "''.'' @ ?m @ ''.'' @ ?p" "[]"] by (simp add: version_text_def is_digit_def)
  have 2: "parse_i32 (slice ?v 0 1) = Some 1"
    by (simp add: slice_def version_text_def parse_i32_def parse_signed_def parse_digits_upto_def is_digit_def)
  have 3: "byte_get ?v 1 = Some (CHR ''.'')"
    using byte_get_at [of "''1''" "CHR ''.''" "?m @ ''.'' @ ?p"] by (simp add: version_text_def)
  have 4: "parse_digits ?v 2 = Some (2 + length ?m)"
    using parse_digits_at [of ?m "''.'' @ ?p" "''1.''"] by (simp add: version_text_def show_nat_is_digit numeral_2_eq_2)
  have 5: "slice ?v 2 (2 + length ?m) = ?m"
    using slice_at [of "''1.''" ?m "''.'' @ ?p"] by (simp add: version_text_def numeral_2_eq_2)
  have 6: "parse_patch ?v (2 + length ?m) = Some ([int patch], length ?v)"
    using parse_patch_text [OF assms(2), of "''1.'' @ ?m"] by (simp add: version_text_def)
  have 7: "byte_get ?v (length ?v) = None" by (simp add: byte_get_def)
  have "last ?v = last ?p" by (simp add: version_text_def)
  then have last: "is_digit (last ?v)" using show_nat_digits [of "last ?p" patch] by simp
  have 8: "trim_end_matches ''.X'' (trim_end_matches ''.x'' ?v) = ?v"
  proof -
    have "\<not> suffix ''.x'' ?v" "\<not> suffix ''.X'' ?v"
      using last by (auto simp: suffix_def is_digit_def)
    then show ?thesis by (simp add: trim_end_matches.simps)
  qed
  have 9: "slice ?v 0 (length ?v) = ?v" by (simp add: slice_def)
  show ?thesis
    using 1 2 3 4 5 6 7 8 9 parse_i32_show_nat [OF assms(1)]
    by (simp add: parse_minecraft_version_token_def skip_version_suffix_def MINECRAFT_VERSION_MAJOR_def
        Let_def numeral_2_eq_2)
qed

lemma version_text_chars:
  "c \<in> set (version_text minor patch) \<Longrightarrow> is_digit c \<or> c = CHR ''.''"
  using show_nat_digits by (auto simp: version_text_def is_digit_def)

lemma is_digit_ascii: "is_digit c \<Longrightarrow> 48 \<le> (of_char c :: nat) \<and> (of_char c :: nat) \<le> 57"
  by (auto simp: is_digit_def)

lemma chars_ascii: "\<forall>c\<in>set s. (of_char c :: nat) < 128 \<Longrightarrow> chars s = map (\<lambda>c. [c]) s"
  by (induction s) (simp_all add: chars.simps char_width_def)

lemma strip_codes_ascii: "strip_codes False (map (\<lambda>c. [c]) s) = s"
  by (induction s) (simp_all add: section_sign_def)

lemma words_of_one:
  "\<forall>c\<in>set s. \<not> is_whitespace [c] \<Longrightarrow> words_of (map (\<lambda>c. [c]) s) acc = (if acc @ s = [] then [] else [acc @ s])"
  by (induction s arbitrary: acc) auto

lemma find_sub_absent: "p \<notin> set s \<Longrightarrow> find_sub (p # ps) s = None"
  by (induction s) auto

lemma ascii_lower_digit: "is_digit c \<or> c = CHR ''.'' \<Longrightarrow> ascii_lower c = c"
  by (auto simp: ascii_lower_def dest!: is_digit_ascii)

lemma normalize_version_text:
  "normalize_version_candidate (version_text minor patch) = version_text minor patch"
proof -
  let ?v = "version_text minor patch"
  have b: "48 \<le> (of_char c :: nat) \<and> (of_char c :: nat) \<le> 57 \<or> c = CHR ''.''" if "c \<in> set ?v" for c
    using version_text_chars [OF that] is_digit_ascii by blast
  have "chars ?v = map (\<lambda>c. [c]) ?v" using b by (intro chars_ascii) force
  moreover have "\<forall>c\<in>set ?v. \<not> is_whitespace [c]" using b by (force simp: is_whitespace_def)
  moreover have "?v \<noteq> []" by (simp add: version_text_def)
  ultimately show ?thesis
    by (simp add: normalize_version_candidate_def strip_codes_ascii split_whitespace_def words_of_one)
qed

text \<open>A release version as Mojang writes them is reported unchanged.\<close>

theorem release_version_unchanged:
  assumes "minor < 2 ^ 31" and "patch < 2 ^ 31"
  shows "sanitize_minecraft_version (''1.'' @ show_nat minor @ ''.'' @ show_nat patch) =
    ''1.'' @ show_nat minor @ ''.'' @ show_nat patch"
proof -
  let ?v = "version_text minor patch"
  have ne: "?v \<noteq> []" by (simp add: version_text_def)
  have "to_ascii_lowercase ?v = ?v"
    unfolding to_ascii_lowercase_def using version_text_chars ascii_lower_digit by (intro map_idI) blast
  moreover have "CHR ''('' \<notin> set ?v" using version_text_chars [of "CHR ''(''"] by (auto simp: is_digit_def)
  ultimately have mc: "extract_mc_parenthetical ?v = None"
    by (simp add: extract_mc_parenthetical_def find_sub_absent)
  have hd: "?v ! 0 = CHR ''1''" by (simp add: version_text_def)
  have "[0..<length ?v] = 0 # [1..<length ?v]" using ne by (simp add: upt_conv_Cons)
  then have "find_minecraft_version_token ?v 0 =
      Some (\<lparr>tok_label = ?v, tok_parts = [1, int minor, int patch]\<rparr>, length ?v)"
    using parse_version_text [OF assms] hd
    by (simp add: find_minecraft_version_token_def token_at_def is_version_boundary_before_def)
  then have "plain_version ?v = ?v"
    by (simp add: plain_version_def trim_start_def strip_prefix_def)
  with mc ne have "sanitize_minecraft_version ?v = ?v"
    by (subst sanitize_minecraft_version.simps) (simp add: normalize_version_text)
  then show ?thesis by (simp add: version_text_def)
qed

theorem release_version_unchanged_witness:
  "sanitize_minecraft_version (''1.'' @ show_nat 20 @ ''.'' @ show_nat 4) = ''1.'' @ show_nat 20 @ ''.'' @ show_nat 4"
  by (rule release_version_unchanged) simp_all

end
