(* ===== verification/Wire.thy ===== *)
theory Wire
  imports Rust_Std
begin

text \<open>
  The byte encodings the program writes and reads itself: big-endian integers (the disk buffer, the
  RakNet packets, the port of the handshake) and the VarInts of the Java protocol
  (\<open>write_varint\<close> and \<open>read_varint\<close> of \<open>src/src/ping.rs\<close>). Their common interface is the locale
  \<open>byte_codec\<close>: decoding takes back exactly what was encoded and leaves the rest of the stream.
\<close>

unbundle bit_operations_syntax

subsection \<open>Codecs\<close>

fun decode_many :: "(u8 list \<Rightarrow> ('a \<times> u8 list) option) \<Rightarrow> nat \<Rightarrow> u8 list \<Rightarrow> ('a list \<times> u8 list) option" where
  "decode_many get 0 bs = Some ([], bs)"
| "decode_many get (Suc n) bs =
     (case get bs of
        None \<Rightarrow> None
      | Some (x, r) \<Rightarrow> map_option (\<lambda>(xs, r'). (x # xs, r')) (decode_many get n r))"

locale byte_codec =
  fixes put :: "'a \<Rightarrow> u8 list"
    and get :: "u8 list \<Rightarrow> ('a \<times> u8 list) option"
    and valid :: "'a \<Rightarrow> bool"
  assumes get_put: "valid x \<Longrightarrow> get (put x @ rest) = Some (x, rest)"
begin

lemma get_put_whole: "valid x \<Longrightarrow> get (put x) = Some (x, [])"
  using get_put [of x "[]"] by simp

lemma put_prefix_free:
  "valid x \<Longrightarrow> valid y \<Longrightarrow> put x @ r = put y @ s \<Longrightarrow> x = y \<and> r = s"
proof -
  assume x: "valid x" and y: "valid y" and eq: "put x @ r = put y @ s"
  from get_put [OF x, of r] get_put [OF y, of s] show ?thesis
    unfolding eq by simp
qed

lemma put_inject: "valid x \<Longrightarrow> valid y \<Longrightarrow> put x = put y \<longleftrightarrow> x = y"
  using put_prefix_free [of x y "[]" "[]"] by auto

lemma decode_many_put:
  "\<forall>x\<in>set xs. valid x \<Longrightarrow>
   decode_many get (length xs) (concat (map put xs) @ rest) = Some (xs, rest)"
  by (induction xs) (simp_all add: get_put)

end

text \<open>Two codecs in a row.\<close>

definition put_pair :: "('a \<Rightarrow> u8 list) \<Rightarrow> ('b \<Rightarrow> u8 list) \<Rightarrow> 'a \<times> 'b \<Rightarrow> u8 list" where
  "put_pair p q xy = p (fst xy) @ q (snd xy)"

definition get_pair ::
  "(u8 list \<Rightarrow> ('a \<times> u8 list) option) \<Rightarrow> (u8 list \<Rightarrow> ('b \<times> u8 list) option)
   \<Rightarrow> u8 list \<Rightarrow> (('a \<times> 'b) \<times> u8 list) option" where
  "get_pair g h bs =
     (case g bs of
        None \<Rightarrow> None
      | Some (x, r) \<Rightarrow> map_option (\<lambda>(y, r'). ((x, y), r')) (h r))"

locale codec_pair =
  fst_codec: byte_codec p g v + snd_codec: byte_codec q h w
  for p :: "'a \<Rightarrow> u8 list" and g v and q :: "'b \<Rightarrow> u8 list" and h w

sublocale codec_pair \<subseteq> pair: byte_codec "put_pair p q" "get_pair g h" "\<lambda>xy. v (fst xy) \<and> w (snd xy)"
  by unfold_locales
    (auto simp: put_pair_def get_pair_def fst_codec.get_put snd_codec.get_put)

subsection \<open>Big-endian integers\<close>

text \<open>\<open>to_be_bytes\<close> and \<open>from_be_bytes\<close>, for a number of \<open>k\<close> bytes.\<close>

fun be_bytes :: "nat \<Rightarrow> nat \<Rightarrow> u8 list" where
  "be_bytes 0 n = []"
| "be_bytes (Suc k) n = be_bytes k (n div 256) @ [of_nat n]"

definition from_be :: "u8 list \<Rightarrow> nat" where
  "from_be bs = foldl (\<lambda>a b. a * 256 + unat b) 0 bs"

lemma length_be_bytes [simp]: "length (be_bytes k n) = k"
  by (induction k arbitrary: n) auto

lemma unat_byte: "unat (of_nat n :: u8) = n mod 256"
  by (simp add: unat_of_nat take_bit_eq_mod)

lemma from_be_be_bytes: "from_be (be_bytes k n) = n mod 256 ^ k"
proof (induction k arbitrary: n)
  case (Suc k)
  have "from_be (be_bytes (Suc k) n) = from_be (be_bytes k (n div 256)) * 256 + n mod 256"
    by (simp add: from_be_def unat_byte)
  also have "\<dots> = (n div 256 mod 256 ^ k) * 256 + n mod 256"
    by (simp add: Suc)
  also have "\<dots> = n mod (256 * 256 ^ k)"
    by (simp add: mod_mult2_eq)
  finally show ?case by simp
qed (simp add: from_be_def)

definition get_be :: "nat \<Rightarrow> u8 list \<Rightarrow> (nat \<times> u8 list) option" where
  "get_be k bs = (if length bs < k then None else Some (from_be (take k bs), drop k bs))"

interpretation be16: byte_codec "be_bytes 2" "get_be 2" "\<lambda>n. n < 65536"
  by unfold_locales (simp add: get_be_def from_be_be_bytes)

interpretation be32: byte_codec "be_bytes 4" "get_be 4" "\<lambda>n. n < 4294967296"
  by unfold_locales (simp add: get_be_def from_be_be_bytes)

interpretation be64: byte_codec "be_bytes 8" "get_be 8" "\<lambda>n. n < 18446744073709551616"
  by unfold_locales (simp add: get_be_def from_be_be_bytes)

subsection \<open>VarInts\<close>

text \<open>
  \<open>value >>= 7\<close> on an \<open>i32\<close> is the arithmetic shift; the mask then clears the copies of the sign.
\<close>

definition varint_rest :: "i32 \<Rightarrow> i32" where
  "varint_rest v = signed_drop_bit 7 v AND 0x01FFFFFF"

lemma mask_25: "(0x01FFFFFF :: i32) = mask 25"
  by (simp add: mask_eq_exp_minus_1)

lemma mask_7: "(0x7F :: 'a::len word) = mask 7"
  by (simp add: mask_eq_exp_minus_1)

lemma bit_80: "bit (0x80 :: u8) n \<longleftrightarrow> n = 7"
proof -
  have "(0x80 :: u8) = push_bit 7 1" by (simp add: push_bit_eq_mult)
  then have "bit (0x80 :: u8) n \<longleftrightarrow> bit (push_bit 7 1 :: u8) n" by (rule arg_cong)
  also have "\<dots> \<longleftrightarrow> n = 7" unfolding bit_push_bit_iff bit_1_iff by auto
  finally show ?thesis .
qed

lemma varint_rest_drop_bit: "varint_rest v = drop_bit 7 v"
proof (rule bit_word_eqI)
  fix n assume "n < LENGTH(32)"
  then show "bit (varint_rest v) n \<longleftrightarrow> bit (drop_bit 7 v) n"
    unfolding varint_rest_def mask_25 bit_and_iff bit_mask_iff
    by (auto simp: bit_signed_drop_bit_iff bit_drop_bit_eq dest: bit_imp_le_length)
qed

lemma unat_varint_rest: "unat (varint_rest v) = unat v div 128"
proof -
  have "unat (drop_bit 7 v) = drop_bit 7 (unat v)" by (rule unat_drop_bit_eq)
  also have "\<dots> = unat v div 128" unfolding drop_bit_eq_div by simp
  finally show ?thesis by (simp only: varint_rest_drop_bit)
qed

function write_varint :: "i32 \<Rightarrow> u8 list" where
  "write_varint v =
     (let current = ucast (v AND 0x7F) :: u8; v' = varint_rest v in
      if v' \<noteq> 0 then (current OR 0x80) # write_varint v' else [current])"
  by pat_completeness auto
termination
proof (relation "measure unat")
  fix v :: i32 and x :: u8 and v' :: i32
  assume v': "v' = varint_rest v" and "v' \<noteq> 0"
  then have "unat v' \<noteq> 0" by (simp only: unsigned_eq_0_iff not_False_eq_True)
  moreover have "unat v' = unat v div 128" by (simp only: v' unat_varint_rest)
  ultimately show "(v', v) \<in> measure unat" by simp
qed simp

declare write_varint.simps [simp del]

datatype varint_error = UnexpectedEof | TooLong

text \<open>\<open>x.checked_shl(n).unwrap_or(0)\<close>\<close>

definition checked_shl_or_0 :: "i32 \<Rightarrow> nat \<Rightarrow> i32" where
  "checked_shl_or_0 x n = (if n < 32 then push_bit n x else 0)"

text \<open>The loop of \<open>read_varint\<close>: the result so far, the bytes read so far, and the stream.\<close>

fun read_varint_loop :: "i32 \<Rightarrow> nat \<Rightarrow> u8 list \<Rightarrow> varint_error + i32 \<times> u8 list" where
  "read_varint_loop res cnt [] = Inl UnexpectedEof"
| "read_varint_loop res cnt (b # bs) =
     (let res' = res OR checked_shl_or_0 (ucast (b AND 0x7F)) (7 * cnt); cnt' = Suc cnt in
      if 5 < cnt' then Inl TooLong
      else if b AND 0x80 = 0 then Inr (res', bs)
      else read_varint_loop res' cnt' bs)"

definition read_varint :: "u8 list \<Rightarrow> varint_error + i32 \<times> u8 list" where
  "read_varint bs = read_varint_loop 0 0 bs"

definition get_varint :: "u8 list \<Rightarrow> (i32 \<times> u8 list) option" where
  "get_varint bs = (case read_varint bs of Inr p \<Rightarrow> Some p | Inl _ \<Rightarrow> None)"

lemma low_byte_high_bit [simp]:
  fixes v :: i32
  shows "(ucast (v AND 0x7F) :: u8) AND 0x80 = 0"
    and "((ucast (v AND 0x7F) :: u8) OR 0x80) AND 0x80 \<noteq> 0"
proof -
  show "(ucast (v AND 0x7F) :: u8) AND 0x80 = 0"
    by (rule bit_word_eqI)
      (auto simp only: mask_7 bit_and_iff bit_unsigned_iff bit_mask_iff bit_80 bit_0_eq)
  have "bit (((ucast (v AND 0x7F) :: u8) OR 0x80) AND 0x80) 7"
    unfolding bit_and_iff bit_or_iff bit_80 by simp
  then show "((ucast (v AND 0x7F) :: u8) OR 0x80) AND 0x80 \<noteq> 0" by auto
qed

lemma low_byte_back [simp]:
  fixes v :: i32
  shows "(ucast ((ucast (v AND 0x7F) :: u8) AND 0x7F) :: i32) = v AND 0x7F"
    and "(ucast (((ucast (v AND 0x7F) :: u8) OR 0x80) AND 0x7F) :: i32) = v AND 0x7F"
  by (rule bit_word_eqI; unfold mask_7 bit_and_iff bit_or_iff bit_unsigned_iff bit_mask_iff bit_80;
      auto)+

lemma join_low_rest:
  fixes v :: i32
  shows "push_bit m (v AND 0x7F) OR push_bit (m + 7) (drop_bit 7 v) = push_bit m v"
proof (rule bit_word_eqI)
  fix n assume "n < LENGTH(32)"
  moreover have "7 + (n - (m + 7)) = n - m" if "m + 7 \<le> n" using that by simp
  ultimately show "bit (push_bit m (v AND 0x7F) OR push_bit (m + 7) (drop_bit 7 v)) n \<longleftrightarrow>
    bit (push_bit m v) n"
    unfolding mask_7 bit_or_iff bit_push_bit_iff bit_and_iff bit_mask_iff
    by (cases "m + 7 \<le> n") (auto simp: bit_drop_bit_eq)
qed

text \<open>After a byte with continuation bit, seven bits fewer are left.\<close>

lemma varint_rest_bound:
  assumes "varint_rest v \<noteq> 0" and v: "unat v < 2 ^ (32 - 7 * cnt)"
  shows "cnt \<le> 3" and "unat (varint_rest v) < 2 ^ (32 - 7 * Suc cnt)"
proof -
  have uw: "unat (varint_rest v) = unat v div 128" by (rule unat_varint_rest)
  have "unat (varint_rest v) \<noteq> 0"
    using assms(1) by (simp only: unsigned_eq_0_iff not_False_eq_True)
  then have "128 \<le> unat v" unfolding uw by (metis div_less not_less)
  then have "(2 :: nat) ^ 7 < 2 ^ (32 - 7 * cnt)" using v by simp
  then have "7 < 32 - 7 * cnt" by (rule power_less_imp_less_exp [rotated]) simp
  then show "cnt \<le> 3" by simp
  have e: "32 - 7 * cnt = 7 + (32 - 7 * Suc cnt)" using \<open>7 < 32 - 7 * cnt\<close> by simp
  show "unat (varint_rest v) < 2 ^ (32 - 7 * Suc cnt)"
    using v unfolding uw e by (simp add: less_mult_imp_div_less power_add mult.commute)
qed

text \<open>
  Reading what \<open>write_varint\<close> wrote, from the byte number \<open>cnt\<close> on: the bits read so far, and the
  bits of the value shifted to their place.
\<close>

lemma read_write_varint_loop:
  "unat v < 2 ^ (32 - 7 * cnt) \<Longrightarrow> cnt \<le> 4 \<Longrightarrow>
   read_varint_loop res cnt (write_varint v @ rest) = Inr (res OR push_bit (7 * cnt) v, rest)"
proof (induction v arbitrary: res cnt rule: write_varint.induct)
  case (1 v)
  let ?w = "varint_rest v"
  have w: "?w = drop_bit 7 v" by (rule varint_rest_drop_bit)
  have sh: "7 * cnt < 32" using "1.prems" by simp
  show ?case
  proof (cases "?w = 0")
    case True
    have "push_bit (7 * cnt) (v AND 0x7F) = push_bit (7 * cnt) v"
      using join_low_rest [of "7 * cnt" v] True w by simp
    with True sh "1.prems" show ?thesis
      by (subst write_varint.simps) (simp add: checked_shl_or_0_def Let_def)
  next
    case False
    note bound = varint_rest_bound [OF False "1.prems"(1)]
    from "1.IH" [OF refl refl False bound(2), of "res OR push_bit (7 * cnt) (v AND 0x7F)"] bound(1)
    have "read_varint_loop (res OR push_bit (7 * cnt) (v AND 0x7F)) (Suc cnt) (write_varint ?w @ rest)
      = Inr (res OR push_bit (7 * cnt) v, rest)"
      using join_low_rest [of "7 * cnt" v] by (simp add: w or.assoc add.commute)
    with False sh bound(1) show ?thesis
      by (subst write_varint.simps) (simp add: checked_shl_or_0_def Let_def)
  qed
qed

lemma read_write_varint [codec_simps]: "read_varint (write_varint v @ rest) = Inr (v, rest)"
  using read_write_varint_loop [of v 0 0 rest] unsigned_less [of v, where 'a = nat]
  by (simp add: read_varint_def)

interpretation varint: byte_codec write_varint get_varint "\<lambda>_. True"
  by unfold_locales (simp add: get_varint_def read_write_varint)

lemma length_write_varint_loop:
  "unat v < 2 ^ (32 - 7 * cnt) \<Longrightarrow> cnt \<le> 4 \<Longrightarrow> length (write_varint v) + cnt \<le> 5"
proof (induction v arbitrary: cnt rule: write_varint.induct)
  case (1 v)
  let ?w = "varint_rest v"
  show ?case
  proof (cases "?w = 0")
    case True
    with "1.prems" show ?thesis by (subst write_varint.simps) simp
  next
    case False
    note bound = varint_rest_bound [OF False "1.prems"(1)]
    from "1.IH" [OF refl refl False bound(2)] bound(1) False show ?thesis
      by (subst write_varint.simps) (simp add: Let_def)
  qed
qed

lemma length_write_varint: "length (write_varint v) \<le> 5" "write_varint v \<noteq> []"
  using length_write_varint_loop [of v 0] unsigned_less [of v, where 'a = nat]
  by (simp_all add: write_varint.simps [of v] Let_def)

text \<open>A stream whose first five bytes all carry the continuation bit is refused, and nothing else
  than a stream that ends too early is refused otherwise.\<close>

lemma read_varint_loop_consumes:
  "read_varint_loop res cnt bs = Inr (v, rest) \<Longrightarrow> cnt \<le> 5 \<Longrightarrow>
   \<exists>used. bs = used @ rest \<and> used \<noteq> [] \<and> length used + cnt \<le> 5"
proof (induction res cnt bs rule: read_varint_loop.induct)
  case (2 res cnt b bs)
  show ?case
  proof (cases "5 < Suc cnt")
    case True
    with 2 show ?thesis by (simp add: Let_def)
  next
    case False
    show ?thesis
    proof (cases "b AND 0x80 = 0")
      case True
      with False 2 show ?thesis by (auto simp: Let_def intro!: exI [of _ "[b]"])
    next
      case cont: False
      with False 2 obtain used where "bs = used @ rest" "length used + Suc cnt \<le> 5"
        by (auto simp: Let_def)
      then show ?thesis by (intro exI [of _ "b # used"]) auto
    qed
  qed
qed simp

subsection \<open>What the VarInts promise\<close>

text \<open>
  VarInts come back: reading what was written for any 32-bit value gives the value and leaves the
  rest of the stream, whatever it is; the encoding has between one and five bytes.
\<close>

theorem varint_roundtrip:
  "read_varint (write_varint v @ rest) = Inr (v, rest) \<and>
   1 \<le> length (write_varint v) \<and> length (write_varint v) \<le> 5"
  using length_write_varint [of v] by (simp add: read_write_varint Suc_le_eq)

text \<open>
  Reading a VarInt takes between one and five bytes off the front of the stream, so that a
  hostile server cannot make it read on.
\<close>

theorem read_varint_consumes:
  assumes "read_varint bs = Inr (v, rest)"
  shows "\<exists>used. bs = used @ rest \<and> used \<noteq> [] \<and> length used \<le> 5"
  using read_varint_loop_consumes [of 0 0 bs v rest] assms by (auto simp: read_varint_def)

theorem read_varint_consumes_witness:
  "\<exists>used. [0x80, 0x01, 0xFF] = used @ [0xFF :: u8] \<and> used \<noteq> [] \<and> length used \<le> 5"
  by (rule read_varint_consumes [of _ 128]) (simp add: read_varint_def checked_shl_or_0_def Let_def)

end
