(* ===== verification/Bedrock.thy ===== *)
theory Bedrock
  imports Wire
begin

text \<open>
  \<open>src/src/bedrock.rs\<close>: the RakNet unconnected ping of a Bedrock server. The packets are byte lists;
  the socket, the wall clock and the random GUID are arguments.
\<close>

definition RAKNET_MAGIC :: "u8 list" where
  "RAKNET_MAGIC =
     [0x00, 0xff, 0xff, 0x00, 0xfe, 0xfe, 0xfe, 0xfe, 0xfd, 0xfd, 0xfd, 0xfd, 0x12, 0x34, 0x56, 0x78]"

definition UNCONNECTED_PING_ID :: u8 where
  "UNCONNECTED_PING_ID = 0x01"

definition UNCONNECTED_PONG_ID :: u8 where
  "UNCONNECTED_PONG_ID = 0x1c"

record bedrock_status =
  bs_edition :: str
  bs_motd :: str
  bs_version :: str
  bs_online_players :: "i64 option"
  bs_max_players :: "i64 option"
  bs_motd_line2 :: str
  bs_gamemode :: str

text \<open>\<open>millis\<close> is the time since the epoch, 0 for a clock before it; \<open>as i64\<close> keeps 64 bits.\<close>

definition build_ping_packet :: "nat \<Rightarrow> i64 \<Rightarrow> u8 list" where
  "build_ping_packet millis guid =
     (let time = of_nat millis :: i64 in
      [UNCONNECTED_PING_ID] @ be_bytes 8 (unat time) @ RAKNET_MAGIC @ be_bytes 8 (unat guid))"

text \<open>\<open>parts.get(i).unwrap_or(&"")\<close>\<close>

definition part_or_empty :: "str list \<Rightarrow> nat \<Rightarrow> str" where
  "part_or_empty parts i = (if i < length parts then parts ! i else [])"

definition parse_pong :: "u8 list \<Rightarrow> bedrock_status option" where
  "parse_pong data =
     (if length data < 35 then None
      else if data ! 0 \<noteq> UNCONNECTED_PONG_ID then None
      else
        let string_len = from_be [data ! 33, data ! 34] in
        if length data < 35 + string_len then None
        else
          let motd_payload = utf8_lossy (take string_len (drop 35 data));
              parts = split_on (CHR '';'') motd_payload
          in if length parts < 6 then None
             else Some \<lparr>bs_edition = parts ! 0,
                        bs_motd = parts ! 1,
                        bs_version = parts ! 3,
                        bs_online_players = parse_i64 (parts ! 4),
                        bs_max_players = parse_i64 (parts ! 5),
                        bs_motd_line2 = part_or_empty parts 7,
                        bs_gamemode = part_or_empty parts 8\<rparr>)"

text \<open>
  The network as one ping meets it: whether a socket can be bound, connected to an address and sent
  to, what is received, if anything, and whether all that ends before the timeout.
\<close>

record udp_net =
  udp_bind :: bool
  udp_connect :: "str \<Rightarrow> bool"
  udp_send :: "u8 list \<Rightarrow> bool"
  udp_recv :: "u8 list option"
  udp_in_time :: bool

definition ping_bedrock :: "udp_net \<Rightarrow> nat \<Rightarrow> i64 \<Rightarrow> str \<Rightarrow> u16 \<Rightarrow> bedrock_status option" where
  "ping_bedrock net millis guid host port =
     (if \<not> udp_in_time net then None
      else if \<not> udp_bind net then None
      else if \<not> udp_connect net (host @ '':'' @ show_u16 port) then None
      else if \<not> udp_send net (build_ping_packet millis guid) then None
      else case udp_recv net of
        None \<Rightarrow> None
      | Some datagram \<Rightarrow> parse_pong (take 2048 datagram))"

subsection \<open>The pong as a server writes it\<close>

definition pong_packet :: "i64 \<Rightarrow> i64 \<Rightarrow> u8 list \<Rightarrow> u8 list" where
  "pong_packet time guid payload =
     [UNCONNECTED_PONG_ID] @ be_bytes 8 (unat time) @ be_bytes 8 (unat guid) @ RAKNET_MAGIC
     @ be_bytes 2 (length payload) @ payload"

lemma length_magic [simp]: "length RAKNET_MAGIC = 16"
  by (simp add: RAKNET_MAGIC_def)

lemma from_be_two: "from_be (be_bytes 2 n) = n mod 65536"
  using from_be_be_bytes [of 2 n] by simp

lemma be_bytes_2_nth: "[be_bytes 2 n ! 0, be_bytes 2 n ! Suc 0] = be_bytes 2 n"
  by (rule nth_equalityI) (auto simp: less_Suc_eq)

lemma pong_header:
  fixes time guid payload
  defines "h \<equiv> [UNCONNECTED_PONG_ID] @ be_bytes 8 (unat time) @ be_bytes 8 (unat guid) @ RAKNET_MAGIC"
  shows "length h = 33" "pong_packet time guid payload = h @ be_bytes 2 (length payload) @ payload"
    "h ! 0 = UNCONNECTED_PONG_ID"
  by (simp_all add: h_def pong_packet_def)

lemma parse_pong_packet:
  assumes "length payload < 65536"
  shows "parse_pong (pong_packet time guid payload @ junk) =
    (let parts = split_on (CHR '';'') (utf8_lossy payload) in
     if length parts < 6 then None
     else Some \<lparr>bs_edition = parts ! 0, bs_motd = parts ! 1, bs_version = parts ! 3,
       bs_online_players = parse_i64 (parts ! 4), bs_max_players = parse_i64 (parts ! 5),
       bs_motd_line2 = part_or_empty parts 7, bs_gamemode = part_or_empty parts 8\<rparr>)"
proof -
  obtain h where h: "length h = 33" "h ! 0 = UNCONNECTED_PONG_ID"
    "pong_packet time guid payload = h @ be_bytes 2 (length payload) @ payload"
    using pong_header by blast
  let ?d = "pong_packet time guid payload @ junk"
  have "?d ! 33 = be_bytes 2 (length payload) ! 0" "?d ! 34 = be_bytes 2 (length payload) ! 1"
    "?d ! 0 = UNCONNECTED_PONG_ID" "drop 35 ?d = payload @ junk" "length ?d = 35 + length payload + length junk"
    using h by (simp_all add: nth_append)
  then show ?thesis
    using assms by (simp add: parse_pong_def be_bytes_2_nth from_be_two Let_def)
qed

subsection \<open>What the ping promises\<close>

lemma from_be_8: "from_be (be_bytes 8 (unat (x :: 64 word))) = unat x"
proof -
  have "unat x < 18446744073709551616" using unsigned_less [of x, where 'a = nat] by simp
  then show ?thesis by (simp add: from_be_be_bytes)
qed

text \<open>
  The ping is the 33 bytes of the protocol: the packet id, the client's time and, behind the magic
  bytes, its GUID, each of which a server reads back from its place.
\<close>

theorem ping_packet_layout:
  "length (build_ping_packet millis guid) = 33 \<and>
   take 1 (build_ping_packet millis guid) = [UNCONNECTED_PING_ID] \<and>
   from_be (take 8 (drop 1 (build_ping_packet millis guid))) = millis mod 2 ^ 64 \<and>
   take 16 (drop 9 (build_ping_packet millis guid)) = RAKNET_MAGIC \<and>
   from_be (drop 25 (build_ping_packet millis guid)) = unat guid"
proof -
  let ?t = "be_bytes 8 (unat (of_nat millis :: i64))" and ?g = "be_bytes 8 (unat guid)"
  have p: "build_ping_packet millis guid = UNCONNECTED_PING_ID # ?t @ RAKNET_MAGIC @ ?g"
    by (simp add: build_ping_packet_def Let_def)
  have t: "drop 9 (UNCONNECTED_PING_ID # ?t @ RAKNET_MAGIC @ ?g) = RAKNET_MAGIC @ ?g"
    by (simp add: drop_Cons')
  have g: "drop 25 (UNCONNECTED_PING_ID # ?t @ RAKNET_MAGIC @ ?g) = ?g"
    by (simp add: drop_Cons')
  have u: "unat (of_nat millis :: i64) = millis mod 2 ^ 64"
    by (simp add: unat_of_nat take_bit_eq_mod)
  have g': "unat guid < 18446744073709551616"
    using unsigned_less [of guid, where 'a = nat] by simp
  show ?thesis
    unfolding p t g using g' by (simp add: from_be_be_bytes u [simplified] from_be_8)
qed

text \<open>
  C31: A pong is read as the server wrote it: for any six or more fields in ASCII without a semicolon,
  the fields come back at their places, whatever follows the announced length in the datagram.
\<close>

theorem parse_pong_reads_fields:
  assumes "6 \<le> length parts" and "\<forall>f\<in>set parts. CHR '';'' \<notin> set f \<and> (\<forall>c\<in>set f. (of_char c :: nat) < 128)"
    and "length (join '';'' parts) < 65536"
  shows "parse_pong (pong_packet time guid (as_bytes (join '';'' parts)) @ junk) =
    Some \<lparr>bs_edition = parts ! 0, bs_motd = parts ! 1, bs_version = parts ! 3,
      bs_online_players = parse_i64 (parts ! 4), bs_max_players = parse_i64 (parts ! 5),
      bs_motd_line2 = part_or_empty parts 7, bs_gamemode = part_or_empty parts 8\<rparr>"
proof -
  have "\<forall>c\<in>set (join '';'' parts). (of_char c :: nat) < 128"
    using assms(2) set_join [of "'';''" parts] by (fastforce dest!: subsetD)
  then have u: "utf8_lossy (as_bytes (join '';'' parts)) = join '';'' parts"
    by (rule utf8_lossy_ascii)
  have s: "split_on (CHR '';'') (join '';'' parts) = parts"
    using assms(1,2) by (intro split_on_join) auto
  show ?thesis
    using assms(1,3) by (simp add: parse_pong_packet u s)
qed

theorem parse_pong_reads_fields_witness:
  "parse_pong (pong_packet 0 0 (as_bytes (join '';'' [''MCPE'', ''Hello'', ''649'', ''1.20'', ''3'', ''50''])) @ [1, 2]) =
    Some \<lparr>bs_edition = ''MCPE'', bs_motd = ''Hello'', bs_version = ''1.20'',
      bs_online_players = parse_i64 ''3'', bs_max_players = parse_i64 ''50'',
      bs_motd_line2 = [], bs_gamemode = []\<rparr>"
  using parse_pong_reads_fields [of "[''MCPE'', ''Hello'', ''649'', ''1.20'', ''3'', ''50'']" 0 0 "[1, 2]"]
  by (simp add: part_or_empty_def)

text \<open>
  Nothing else is accepted: a datagram that parses has the id of a pong, holds the whole text it
  announces, and the text has at least six fields.
\<close>

theorem parse_pong_accepts_only_pongs:
  assumes "parse_pong data = Some st"
  shows "35 \<le> length data \<and> data ! 0 = UNCONNECTED_PONG_ID \<and>
    35 + from_be [data ! 33, data ! 34] \<le> length data \<and>
    6 \<le> length (split_on (CHR '';'') (utf8_lossy (take (from_be [data ! 33, data ! 34]) (drop 35 data))))"
  using assms by (auto simp: parse_pong_def Let_def split: if_splits)

definition demo_pong :: "u8 list" where
  "demo_pong = pong_packet 0 0 (as_bytes ''MCPE;Hello;649;1.20;3;50'') @ [1, 2]"

lemma parse_demo_pong: "\<exists>st. parse_pong demo_pong = Some st \<and> bs_motd st = ''Hello''"
proof -
  have u: "utf8_lossy (as_bytes ''MCPE;Hello;649;1.20;3;50'') = ''MCPE;Hello;649;1.20;3;50''"
    by (rule utf8_lossy_ascii) simp
  show ?thesis by (simp add: demo_pong_def parse_pong_packet u Let_def)
qed

theorem parse_pong_accepts_only_pongs_witness:
  "35 \<le> length demo_pong \<and> demo_pong ! 0 = UNCONNECTED_PONG_ID"
proof -
  obtain st where "parse_pong demo_pong = Some st" using parse_demo_pong by blast
  from parse_pong_accepts_only_pongs [OF this] show ?thesis by simp
qed

end
