(* ===== verification/Ping.thy ===== *)
theory Ping
  imports Version Bedrock Geo
begin

text \<open>
  \<open>src/src/ping.rs\<close> but for the VarInts (\<open>Wire\<close>) and the version sanitizer (\<open>Version\<close>): the status
  request of a Java server and the reading of its answer, the attempts over addresses and protocol
  versions, the poll results of both editions, the favicon and the Bedrock probe.

  The network is a parameter throughout: what a connection does, what a resolver answers, whether a
  call of the server service succeeds. Error values keep what happened and drop the text for the log.
\<close>

unbundle bit_operations_syntax

definition SERVER_LIST_VERSION_NAME_EXTRA_KEY :: str where
  "SERVER_LIST_VERSION_NAME_EXTRA_KEY = ''server_list_version_name''"

record poll_result =
  pr_payload :: json
  pr_status_ok :: bool
  pr_favicon :: str

record java_status =
  js_version_name :: str
  js_max :: u64
  js_online :: u64
  js_sample :: "str list option"
  js_description :: "json option"
  js_favicon :: "str option"

subsection \<open>The request\<close>

definition build_java_status_requests :: "str \<Rightarrow> u16 \<Rightarrow> i32 \<Rightarrow> u8 list \<times> u8 list" where
  "build_java_status_requests h p protocol_version =
     (let handshake = [0x00] @ write_varint protocol_version @ write_varint (of_nat (length h))
            @ as_bytes h @ be_bytes 2 (unat p) @ write_varint 1
      in (write_varint (of_nat (length handshake)) @ handshake, [0x01, 0x00]))"

subsection \<open>One attempt\<close>

datatype ping_error =
    Connect_failed
  | Set_option_failed
  | Write_failed
  | Bad_varint varint_error
  | Unexpected_packet_id i32
  | Negative_length
  | Body_cut_off
  | Bad_status_json
  | No_addresses
  | Timed_out

text \<open>
  A TCP connection: whether it can be opened, whether its options can be set, what it takes, and all
  the bytes that arrive until it ends, fails or times out.
\<close>

record tcp_conn =
  tcp_connects :: bool
  tcp_options :: bool
  tcp_write :: "u8 list \<Rightarrow> bool"
  tcp_stream :: "u8 list"

definition read_stream_varint :: "u8 list \<Rightarrow> ping_error + i32 \<times> u8 list" where
  "read_stream_varint bs = (case read_varint bs of Inl e \<Rightarrow> Inl (Bad_varint e) | Inr r \<Rightarrow> Inr r)"

definition read_status_response ::
  "(u8 list \<Rightarrow> java_status option) \<Rightarrow> u8 list \<Rightarrow> ping_error + java_status" where
  "read_status_response decode stream0 =
     (case read_stream_varint stream0 of Inl e \<Rightarrow> Inl e | Inr (packet_length, stream1) \<Rightarrow>
      (case read_stream_varint stream1 of Inl e \<Rightarrow> Inl e | Inr (packet_id, stream2) \<Rightarrow>
       if packet_id \<noteq> 0 then Inl (Unexpected_packet_id packet_id)
       else
         (case read_stream_varint stream2 of Inl e \<Rightarrow> Inl e | Inr (response_length, stream3) \<Rightarrow>
          if sint response_length < 0 then Inl Negative_length
          else if length stream3 < unat response_length then Inl Body_cut_off
          else (case decode (take (unat response_length) stream3) of
                  Some st \<Rightarrow> Inr st
                | None \<Rightarrow> Inl Bad_status_json))))"

definition try_ping_java_status ::
  "(u8 list \<Rightarrow> java_status option) \<Rightarrow> tcp_conn \<Rightarrow> str \<Rightarrow> u16 \<Rightarrow> i32 \<Rightarrow> ping_error + java_status" where
  "try_ping_java_status decode conn h p protocol_version =
     (let (handshake_request, status_request) = build_java_status_requests h p protocol_version in
      if \<not> tcp_connects conn then Inl Connect_failed
      else if \<not> tcp_options conn then Inl Set_option_failed
      else if \<not> tcp_write conn handshake_request then Inl Write_failed
      else if \<not> tcp_write conn status_request then Inl Write_failed
      else read_status_response decode (tcp_stream conn))"

subsection \<open>All attempts\<close>

definition java_status_protocol_versions :: "i32 list" where
  "java_status_protocol_versions = [769, 767, 763, 761, 759, 754, 340, 47, -1]"

text \<open>
  The attempts with what the network and the clock do: attempt number \<open>k\<close> would start after
  \<open>elapsed k\<close> seconds on the connection \<open>conn k\<close>. The last error is kept.
\<close>

record ping_env =
  elapsed :: "nat \<Rightarrow> f64"
  conn_at :: "nat \<Rightarrow> tcp_conn"

fun ping_attempts ::
  "(u8 list \<Rightarrow> java_status option) \<Rightarrow> ping_env \<Rightarrow> str \<Rightarrow> u16 \<Rightarrow> f64 \<Rightarrow> nat \<Rightarrow> ping_error option
   \<Rightarrow> ('a \<times> i32) list \<Rightarrow> ping_error + java_status" where
  "ping_attempts decode env h p timeout k last_error [] = Inl (unwrap_or Connect_failed last_error)"
| "ping_attempts decode env h p timeout k last_error ((addr, protocol_version) # rest) =
     (if timeout < elapsed env k then Inl (unwrap_or Timed_out last_error)
      else case try_ping_java_status decode (conn_at env k) h p protocol_version of
        Inr response \<Rightarrow> Inr response
      | Inl e \<Rightarrow> ping_attempts decode env h p timeout (Suc k) (Some e) rest)"

definition ping_java_status_blocking ::
  "(u8 list \<Rightarrow> java_status option) \<Rightarrow> ping_env \<Rightarrow> 'a list \<Rightarrow> str \<Rightarrow> u16 \<Rightarrow> f64 \<Rightarrow> ping_error + java_status" where
  "ping_java_status_blocking decode env socket_addrs h p timeout =
     (if socket_addrs = [] then Inl No_addresses
      else ping_attempts decode env h p timeout 0 None
             (List.product socket_addrs java_status_protocol_versions))"

subsection \<open>Where to connect\<close>

text \<open>
  The answer to an SRV query: the records in order, \<^const>\<open>None\<close> when there is no resolver, no
  answer or a timeout.
\<close>

definition resolve_java_connect_target ::
  "(str \<Rightarrow> (str \<times> u16) list option) \<Rightarrow> str \<Rightarrow> u16 option \<Rightarrow> str \<times> u16" where
  "resolve_java_connect_target srv_lookup h p =
     (let fallback = (h, unwrap_or JAVA_DEFAULT_PORT p) in
      if p \<noteq> None \<or> is_ip_addr h then fallback
      else case srv_lookup (''_minecraft._tcp.'' @ h) of
          None \<Rightarrow> fallback
        | Some [] \<Rightarrow> fallback
        | Some ((target, srv_port) # records) \<Rightarrow> (trim_end_matches ''.'' target, srv_port))"

subsection \<open>Names and messages\<close>

definition extract_player_names :: "str list option \<Rightarrow> str list" where
  "extract_player_names sample =
     keep_new {} (filter (\<lambda>n. n \<noteq> []) (map trim (unwrap_or [] sample)))"

lemma map_of_size: "map_of m k = Some v \<Longrightarrow> size v < Suc (size_list (size_prod (\<lambda>_. 0) size) m)"
  by (induction m) (auto split: if_splits)

function append_chat_text :: "json \<Rightarrow> str \<Rightarrow> str" and append_chat_items :: "json list \<Rightarrow> str \<Rightarrow> str" where
  "append_chat_text (JStr text) output = output @ text"
| "append_chat_text (JArr items) output = append_chat_items items output"
| "append_chat_text (JObj m) output =
     (let output1 = (case Option.bind (map_of m ''text'') as_str of Some text \<Rightarrow> output @ text | None \<Rightarrow> output)
      in case map_of m ''extra'' of Some extra \<Rightarrow> append_chat_text extra output1 | None \<Rightarrow> output1)"
| "append_chat_text JNull output = output"
| "append_chat_text (JBool b) output = output"
| "append_chat_text (JNum n) output = output"
| "append_chat_items [] output = output"
| "append_chat_items (item # items) output = append_chat_items items (append_chat_text item output)"
  by pat_completeness auto

termination
  by (relation "measure (\<lambda>x. case x of Inl (v, _) \<Rightarrow> size v | Inr (vs, _) \<Rightarrow> size_list size vs)")
    (auto dest: map_of_size)

definition motd_from_description :: "json option \<Rightarrow> str" where
  "motd_from_description description =
     (case description of Some v \<Rightarrow> append_chat_text v [] | None \<Rightarrow> [])"

subsection \<open>Polling\<close>

text \<open>
  What a poll meets: the SRV answers, the addresses of a name (\<^const>\<open>None\<close> for an error or a
  timeout), the connection attempts, whether the blocking worker comes back, and the UDP side.
\<close>

record poll_env =
  pe_srv :: "str \<Rightarrow> (str \<times> u16) list option"
  pe_addrs :: "str \<Rightarrow> u16 \<Rightarrow> str list option"
  pe_ping :: ping_env
  pe_worker_ok :: bool
  pe_decode :: "u8 list \<Rightarrow> java_status option"
  pe_udp :: udp_net
  pe_millis :: nat
  pe_guid :: i64

definition fail_payload :: "str \<Rightarrow> str \<Rightarrow> str \<Rightarrow> str \<Rightarrow> json" where
  "fail_payload sid collected_at country country_code =
     json_obj
       [(''server_id'', JStr sid),
        (''collected_at'', JStr collected_at),
        (''online'', JNull),
        (''max_players'', JNull),
        (''version'', JStr []),
        (''motd'', JStr []),
        (''country'', JStr country),
        (''country_code'', JStr country_code)]"

definition failed_poll :: "json \<Rightarrow> poll_result" where
  "failed_poll payload = \<lparr>pr_payload = payload, pr_status_ok = False, pr_favicon = []\<rparr>"

definition java_poll_result :: "java_status \<Rightarrow> str \<Rightarrow> str \<Rightarrow> str \<Rightarrow> str \<Rightarrow> poll_result" where
  "java_poll_result response sid collected_at country country_code =
     (let online = js_online response;
          max_pl = js_max response;
          raw_version = trim (js_version_name response);
          version = sanitize_minecraft_version raw_version;
          motd = motd_from_description (js_description response);
          favicon = (case js_favicon response of
              Some v \<Rightarrow> if v \<noteq> [] \<and> prefix ''data:image/'' v then v else []
            | None \<Rightarrow> []);
          players = extract_player_names (js_sample response);
          extra = json_obj
            ((if players \<noteq> [] then [(''players'', JArr (map JStr players))] else [])
             @ (if raw_version \<noteq> [] \<and> raw_version \<noteq> version
                then [(SERVER_LIST_VERSION_NAME_EXTRA_KEY, JStr raw_version)] else []))
      in \<lparr>pr_payload = json_obj
            [(''server_id'', JStr sid),
             (''collected_at'', JStr collected_at),
             (''online'', json_u64 online),
             (''max_players'', json_u64 max_pl),
             (''version'', JStr version),
             (''motd'', JStr motd),
             (''country'', JStr country),
             (''country_code'', JStr country_code),
             (''extra'', extra)],
          pr_status_ok = True, pr_favicon = favicon\<rparr>)"

definition poll_java ::
  "poll_env \<Rightarrow> str \<Rightarrow> str \<Rightarrow> u16 option \<Rightarrow> f64 \<Rightarrow> str \<Rightarrow> str \<Rightarrow> str \<Rightarrow> poll_result" where
  "poll_java env sid h p timeout collected_at country country_code =
     (let (connect_host, connect_port) = resolve_java_connect_target (pe_srv env) h p;
          failed = failed_poll (fail_payload sid collected_at country country_code)
      in case pe_addrs env connect_host connect_port of
           None \<Rightarrow> failed
         | Some socket_addrs \<Rightarrow>
             if \<not> pe_worker_ok env then failed
             else case ping_java_status_blocking (pe_decode env) (pe_ping env) socket_addrs h connect_port timeout of
                 Inl e \<Rightarrow> failed
               | Inr response \<Rightarrow> java_poll_result response sid collected_at country country_code)"

definition poll_bedrock ::
  "poll_env \<Rightarrow> str \<Rightarrow> str \<Rightarrow> u16 \<Rightarrow> str \<Rightarrow> str \<Rightarrow> str \<Rightarrow> poll_result" where
  "poll_bedrock env sid h p collected_at country country_code =
     (case ping_bedrock (pe_udp env) (pe_millis env) (pe_guid env) h p of
        Some status \<Rightarrow>
          (let motd = (if bs_motd_line2 status = [] then bs_motd status
                       else bs_motd status @ [CHR 0x0A] @ bs_motd_line2 status)
           in \<lparr>pr_payload = json_obj
                 [(''server_id'', JStr sid),
                  (''collected_at'', JStr collected_at),
                  (''online'', json_opt json_i64 (bs_online_players status)),
                  (''max_players'', json_opt json_i64 (bs_max_players status)),
                  (''version'', JStr (bs_version status)),
                  (''motd'', JStr motd),
                  (''country'', JStr country),
                  (''country_code'', JStr country_code),
                  (''extra'', json_obj
                     [(''edition'', JStr (bs_edition status)), (''gamemode'', JStr (bs_gamemode status))])],
               pr_status_ok = True, pr_favicon = []\<rparr>)
      | None \<Rightarrow> failed_poll (fail_payload sid collected_at country country_code))"

text \<open>
  The whole poll; \<^const>\<open>None\<close> for a panic, which ends the task that polls: in the look-up of the country, or on a
  status timeout that is no \<open>Duration\<close>. The cache is then as it was left.
\<close>

definition poll_server ::
  "poll_env \<Rightarrow> geo_env \<Rightarrow> geo_cache \<Rightarrow> str \<Rightarrow> str \<Rightarrow> str \<Rightarrow> u16 option \<Rightarrow> edition \<Rightarrow> f64
   \<Rightarrow> poll_result option \<times> geo_cache \<times> net_call list" where
  "poll_server env genv cache collected_at sid h p ed timeout =
     (case fetch_geo genv cache h p ed of
        (None, cache', calls) \<Rightarrow> (None, cache', calls)
      | (Some (country, country_code), cache', calls) \<Rightarrow>
          if duration_from_secs timeout = None then (None, cache', calls)
          else
            (Some (case ed of
               Bedrock \<Rightarrow> poll_bedrock env sid h (unwrap_or (default_port ed) p) collected_at country country_code
             | Java \<Rightarrow> poll_java env sid h p timeout collected_at country country_code),
             cache', calls))"

lemma poll_server_settings: "poll_server env genv cache t sid h p ed timeout = (r, cache', calls) \<Longrightarrow>
   lookup_timeout cache' = lookup_timeout cache"
  by (auto simp: poll_server_def dest: fetch_geo_settings split: prod.splits option.splits if_splits)

lemma poll_server_returns:
  assumes "duration_from_secs timeout \<noteq> None" and "duration_from_secs (lookup_timeout cache) \<noteq> None"
  obtains result cache' calls where "poll_server env genv cache t sid h p ed timeout = (Some result, cache', calls)"
proof -
  obtain r cache' calls where g: "fetch_geo genv cache h p ed = (r, cache', calls)" by (metis prod_cases3)
  with fetch_geo_answers [OF assms(2) g] assms(1) that show thesis by (auto simp: poll_server_def)
qed

lemma poll_server_panics:
  "duration_from_secs timeout = None \<Longrightarrow> fst (poll_server env genv cache t sid h p ed timeout) = None"
  by (auto simp: poll_server_def split: prod.split option.split)

subsection \<open>Favicon and Bedrock support\<close>

definition favicon_hash :: "externals \<Rightarrow> str \<Rightarrow> str option" where
  "favicon_hash X v =
     (if v = [] \<or> \<not> prefix ''data:image'' v then None else Some (sha256_hex X (as_bytes v)))"

text \<open>
  The server service: whether a channel can be built, and its answer to the one call made. The calls
  themselves are results.
\<close>

record server_api =
  api_channel_ok :: bool
  api_call_ok :: bool

datatype api_call = Update_favicon i64 str | Update_edition i64 str

definition maybe_update_favicon ::
  "externals \<Rightarrow> server_api \<Rightarrow> server_state \<Rightarrow> str \<Rightarrow> server_state \<times> api_call list" where
  "maybe_update_favicon X api st favicon_str =
     (case favicon_hash X favicon_str of
        None \<Rightarrow> (st, [])
      | Some hash \<Rightarrow>
          if last_favicon_hash st = Some hash then (st, [])
          else case parse_i64 (server_id st) of
            None \<Rightarrow> (st, [])
          | Some sid \<Rightarrow>
              if \<not> api_channel_ok api then (st, [])
              else if api_call_ok api
                then (st\<lparr>last_favicon_hash := Some hash\<rparr>, [Update_favicon sid favicon_str])
                else (st, [Update_favicon sid favicon_str]))"

definition probe_bedrock_support :: "udp_net \<Rightarrow> nat \<Rightarrow> i64 \<Rightarrow> str \<Rightarrow> u16 \<Rightarrow> bool" where
  "probe_bedrock_support net millis guid h p = (ping_bedrock net millis guid h p \<noteq> None)"

text \<open>The result says in addition whether the network was probed.\<close>

definition maybe_probe_bedrock ::
  "udp_net \<Rightarrow> nat \<Rightarrow> i64 \<Rightarrow> server_api \<Rightarrow> rng \<Rightarrow> u64 \<Rightarrow> u64 \<Rightarrow> server_state
   \<Rightarrow> server_state \<times> bool \<times> api_call list" where
  "maybe_probe_bedrock net millis guid api r probe_interval probe_jitter st =
     (if next_bedrock_probe st = None then (st, False, [])
      else
        let bp = unwrap_or BEDROCK_DEFAULT_PORT (bedrock_port st);
            ok = probe_bedrock_support net millis guid (host st) bp;
            (st1, calls) =
              (if ok then
                 (case parse_i64 (server_id st) of
                    Some sid \<Rightarrow>
                      if \<not> api_channel_ok api then (st, [])
                      else if api_call_ok api then
                        (st\<lparr>server := (case server st of
                              JObj m \<Rightarrow> JObj (obj_insert ''game_edition'' (JStr ''java_bedrock'') m)
                            | v \<Rightarrow> v)\<rparr>, [Update_edition sid ''java_bedrock''])
                      else (st, [Update_edition sid ''java_bedrock''])
                  | None \<Rightarrow> (st, []))
               else (st, []))
        in (st1\<lparr>next_bedrock_probe := schedule_next_bedrock_probe r (server st1) 0 probe_interval probe_jitter\<rparr>,
            True, calls))"

subsection \<open>The handshake as a server reads it\<close>

definition read_handshake_body :: "u8 list \<Rightarrow> (i32 \<times> str \<times> nat \<times> i32) option" where
  "read_handshake_body bs =
     (case bs of
        [] \<Rightarrow> None
      | packet_id # r1 \<Rightarrow>
          if packet_id \<noteq> 0 then None
          else
            Option.bind (get_varint r1) (\<lambda>(protocol, r2).
            Option.bind (get_varint r2) (\<lambda>(host_len, r3).
            Option.bind (get_be 2 (drop (unat host_len) r3)) (\<lambda>(p, r4).
            Option.bind (get_varint r4) (\<lambda>(next_state, r5).
              if r5 = [] then Some (protocol, of_bytes (take (unat host_len) r3), p, next_state) else None)))))"

definition read_handshake :: "u8 list \<Rightarrow> ((i32 \<times> str \<times> nat \<times> i32) \<times> u8 list) option" where
  "read_handshake bs =
     Option.bind (get_varint bs) (\<lambda>(len, r0).
       if length r0 < unat len then None
       else map_option (\<lambda>x. (x, drop (unat len) r0)) (read_handshake_body (take (unat len) r0)))"

lemma get_varint_write [simp]: "get_varint (write_varint x @ r) = Some (x, r)"
  by (rule varint.get_put) simp

lemma get_varint_write_only [simp]: "get_varint (write_varint x) = Some (x, [])"
  using get_varint_write [of x "[]"] by simp

lemma read_handshake_framed:
  assumes "length hs < 2 ^ 32"
  shows "read_handshake (write_varint (of_nat (length hs)) @ hs @ rest) =
    map_option (\<lambda>x. (x, rest)) (read_handshake_body hs)"
proof -
  have "unat (of_nat (length hs) :: i32) = length hs" using assms by (intro unat_of_nat_less) simp
  then show ?thesis by (simp add: read_handshake_def)
qed

lemma unat_u16_bound: "unat (p :: u16) < 65536"
  using unsigned_less [of p, where 'a = nat] by simp

text \<open>
  A server reads the handshake as it was meant: the protocol version, the requested host name,
  the port and the wish for the status, and the status request follows at once.
\<close>

theorem handshake_is_read_back:
  assumes "length h < 2 ^ 31"
  shows "read_handshake (fst (build_java_status_requests h p v) @ rest) = Some ((v, h, unat p, 1), rest)"
proof -
  define hs where "hs = [0x00] @ write_varint v @ write_varint (of_nat (length h)) @ as_bytes h
      @ be_bytes 2 (unat p) @ write_varint 1"
  have l: "length (write_varint x) \<le> 5" for x by (rule length_write_varint)
  have "length hs \<le> 1 + 5 + 5 + length h + 2 + 5"
    using l [of v] l [of "of_nat (length h)"] l [of 1] by (simp add: hs_def)
  then have short: "length hs < 2 ^ 32" using assms by simp
  have uh: "unat (of_nat (length h) :: i32) = length h" using assms by (intro unat_of_nat_less) simp
  have b: "get_be 2 (be_bytes 2 (unat p) @ r) = Some (unat p, r)" for r
    by (rule be16.get_put) (rule unat_u16_bound)
  have "read_handshake_body hs = Some (v, h, unat p, 1)"
    by (simp add: read_handshake_body_def hs_def uh b)
  moreover have "fst (build_java_status_requests h p v) = write_varint (of_nat (length hs)) @ hs"
    by (simp add: build_java_status_requests_def Let_def hs_def)
  ultimately show ?thesis using read_handshake_framed [OF short, of rest] by simp
qed

theorem handshake_is_read_back_witness:
  "read_handshake (fst (build_java_status_requests ''mc.example.org'' 25565 769) @ [1, 0]) =
     Some ((769, ''mc.example.org'', unat (25565 :: u16), 1), [1, 0])"
  by (rule handshake_is_read_back) simp

subsection \<open>The answer\<close>

definition status_packet :: "u8 list \<Rightarrow> u8 list" where
  "status_packet body =
     (let payload = write_varint 0 @ write_varint (of_nat (length body)) @ body
      in write_varint (of_nat (length payload)) @ payload)"

lemma sint_of_nat_small: "n < 2 ^ 31 \<Longrightarrow> 0 \<le> sint (of_nat n :: i32)"
proof -
  assume "n < 2 ^ 31"
  then have "int n < 2 ^ 31" by simp
  then have "signed_take_bit 31 (int n) = int n"
    by (intro signed_take_bit_int_eq_self) simp_all
  then show ?thesis by (simp add: signed_of_nat)
qed

lemma read_status_packet:
  assumes "length body < 2 ^ 31"
  shows "read_status_response decode (status_packet body @ rest) =
    (case decode body of Some st \<Rightarrow> Inr st | None \<Rightarrow> Inl Bad_status_json)"
proof -
  have u: "unat (of_nat (length body) :: i32) = length body" using assms by (intro unat_of_nat_less) simp
  have s: "\<not> sint (of_nat (length body) :: i32) < 0" using sint_of_nat_small [OF assms] by simp
  have r: "read_stream_varint (write_varint x @ r) = Inr (x, r)" for x r
    by (simp add: read_stream_varint_def read_write_varint)
  show ?thesis
    by (simp add: read_status_response_def status_packet_def Let_def r u s del: of_nat_add)
qed

text \<open>
  C32: The answer a server sends is read: for any body of less than 2 GiB the decoder gets exactly the
  body, whatever follows it on the stream.
\<close>

theorem status_answer_is_read:
  assumes "length body < 2 ^ 31"
  shows "read_status_response decode (status_packet body @ rest) =
    (case decode body of Some st \<Rightarrow> Inr st | None \<Rightarrow> Inl Bad_status_json)"
  using assms by (rule read_status_packet)

theorem status_answer_is_read_witness:
  "read_status_response (\<lambda>bs. None) (status_packet [0x7B, 0x7D] @ [9]) = Inl Bad_status_json"
  using status_answer_is_read [of "[0x7B, 0x7D]" "\<lambda>bs. None" "[9]"] by simp

subsection \<open>The attempts\<close>

lemma ping_attempts_Inr:
  "ping_attempts decode env h p timeout k err ts = Inr st \<longleftrightarrow>
   (\<exists>j<length ts. try_ping_java_status decode (conn_at env (k + j)) h p (snd (ts ! j)) = Inr st \<and>
      elapsed env (k + j) \<le> timeout \<and>
      (\<forall>i<j. elapsed env (k + i) \<le> timeout \<and>
         (\<exists>e. try_ping_java_status decode (conn_at env (k + i)) h p (snd (ts ! i)) = Inl e)))"
proof (induction ts arbitrary: k err)
  case (Cons t ts)
  obtain a v where t: "t = (a, v)" by (cases t)
  let ?ping = "try_ping_java_status decode (conn_at env k) h p v"
  show ?case
  proof (cases "timeout < elapsed env k")
    case True
    have "\<not> (elapsed env (k + j) \<le> timeout \<and> (\<forall>i<j. elapsed env (k + i) \<le> timeout))" for j
      using True by (cases j) force+
    then show ?thesis using True t by auto
  next
    case in_time: False
    show ?thesis
    proof (cases ?ping)
      case (Inr st')
      show ?thesis
        using in_time t Inr by (auto simp: less_Suc_eq_0_disj intro!: exI [of _ 0])
    next
      case (Inl e)
      then have "ping_attempts decode env h p timeout k err (t # ts) = Inr st \<longleftrightarrow>
          ping_attempts decode env h p timeout (Suc k) (Some e) ts = Inr st"
        using in_time t by simp
      also have "\<dots> \<longleftrightarrow> (\<exists>j<length ts. try_ping_java_status decode (conn_at env (k + Suc j)) h p (snd ((t # ts) ! Suc j)) = Inr st \<and>
          elapsed env (k + Suc j) \<le> timeout \<and>
          (\<forall>i<Suc j. elapsed env (k + i) \<le> timeout \<and>
             (\<exists>e. try_ping_java_status decode (conn_at env (k + i)) h p (snd ((t # ts) ! i)) = Inl e)))"
        unfolding Cons.IH using in_time Inl t by (simp add: All_less_Suc2)
      also have "\<dots> \<longleftrightarrow> (\<exists>j<length (t # ts). try_ping_java_status decode (conn_at env (k + j)) h p (snd ((t # ts) ! j)) = Inr st \<and>
          elapsed env (k + j) \<le> timeout \<and>
          (\<forall>i<j. elapsed env (k + i) \<le> timeout \<and>
             (\<exists>e. try_ping_java_status decode (conn_at env (k + i)) h p (snd ((t # ts) ! i)) = Inl e)))"
        using Inl t by (auto simp: Ex_less_Suc2)
      finally show ?thesis .
    qed
  qed
qed simp

lemma ping_blocking_Inr:
  "ping_java_status_blocking decode env addrs h p timeout = Inr st \<longleftrightarrow>
   (\<exists>j < 9 * length addrs.
      try_ping_java_status decode (conn_at env j) h p (java_status_protocol_versions ! (j mod 9)) = Inr st \<and>
      elapsed env j \<le> timeout \<and>
      (\<forall>i<j. elapsed env i \<le> timeout \<and>
         (\<exists>e. try_ping_java_status decode (conn_at env i) h p (java_status_protocol_versions ! (i mod 9)) = Inl e)))"
proof -
  have l: "length java_status_protocol_versions = 9" by (simp add: java_status_protocol_versions_def)
  have n: "snd (List.product addrs java_status_protocol_versions ! j) = java_status_protocol_versions ! (j mod 9)"
    if "j < 9 * length addrs" for j
    using that l product_nth [of j addrs java_status_protocol_versions] by (simp add: mult.commute)
  have len: "length (List.product addrs java_status_protocol_versions) = 9 * length addrs"
    by (simp add: length_product l)
  have eq: "(\<exists>j < 9 * length addrs. A (snd (List.product addrs java_status_protocol_versions ! j)) j \<and> P j \<and>
        (\<forall>i<j. P i \<and> B (snd (List.product addrs java_status_protocol_versions ! i)) i)) \<longleftrightarrow>
      (\<exists>j < 9 * length addrs. A (java_status_protocol_versions ! (j mod 9)) j \<and> P j \<and>
        (\<forall>i<j. P i \<and> B (java_status_protocol_versions ! (i mod 9)) i))" for A B P
  proof (intro ex_cong1 conj_cong refl)
    fix j assume j: "j < 9 * length addrs"
    show "A (snd (List.product addrs java_status_protocol_versions ! j)) j =
        A (java_status_protocol_versions ! (j mod 9)) j"
      by (simp add: n [OF j])
    show "(\<forall>i<j. P i \<and> B (snd (List.product addrs java_status_protocol_versions ! i)) i) =
        (\<forall>i<j. P i \<and> B (java_status_protocol_versions ! (i mod 9)) i)"
      using n [OF less_trans [OF _ j]] by simp
  qed
  show ?thesis
  proof (cases "addrs = []")
    case True
    then show ?thesis by (simp add: ping_java_status_blocking_def)
  next
    case False
    then have start: "ping_java_status_blocking decode env addrs h p timeout =
        ping_attempts decode env h p timeout 0 None (List.product addrs java_status_protocol_versions)"
      by (simp add: ping_java_status_blocking_def)
    show ?thesis
      unfolding start ping_attempts_Inr len add_0
      by (rule eq [of "\<lambda>v j. try_ping_java_status decode (conn_at env j) h p v = Inr st"
            "\<lambda>j. elapsed env j \<le> timeout"
            "\<lambda>v i. \<exists>e. try_ping_java_status decode (conn_at env i) h p v = Inl e"])
  qed
qed

text \<open>
  The ping succeeds exactly when some attempt does, before which all others failed and none began
  after the timeout, and gives its answer; there are nine attempts for an address, in the order of
  the addresses, one for each protocol version.
\<close>

theorem ping_succeeds_iff_attempt:
  "ping_java_status_blocking decode env addrs h p timeout = Inr st \<longleftrightarrow>
   (\<exists>j < 9 * length addrs.
      try_ping_java_status decode (conn_at env j) h p (java_status_protocol_versions ! (j mod 9)) = Inr st \<and>
      elapsed env j \<le> timeout \<and>
      (\<forall>i<j. elapsed env i \<le> timeout \<and>
         (\<exists>e. try_ping_java_status decode (conn_at env i) h p (java_status_protocol_versions ! (i mod 9)) = Inl e)))"
  by (rule ping_blocking_Inr)

definition demo_status :: java_status where
  "demo_status = \<lparr>js_version_name = ''Paper 1.20.4'', js_max = 20, js_online = 3,
     js_sample = Some [''Alice'', '' Alice'', ''Bob''], js_description = Some (JStr ''hi''), js_favicon = None\<rparr>"

definition demo_ping_env :: ping_env where
  "demo_ping_env = \<lparr>elapsed = (\<lambda>k. real k),
     conn_at = (\<lambda>k. \<lparr>tcp_connects = (k = 1), tcp_options = True, tcp_write = (\<lambda>_. True),
       tcp_stream = status_packet [0x7B, 0x7D]\<rparr>)\<rparr>"

lemma demo_attempt:
  "try_ping_java_status (\<lambda>_. Some demo_status) (conn_at demo_ping_env 1) h p v = Inr demo_status"
  "try_ping_java_status (\<lambda>_. Some demo_status) (conn_at demo_ping_env 0) h p v = Inl Connect_failed"
proof -
  have s: "read_stream_varint (write_varint x @ r) = Inr (x, r)" for x r
    by (simp add: read_stream_varint_def read_write_varint)
  show "try_ping_java_status (\<lambda>_. Some demo_status) (conn_at demo_ping_env 1) h p v = Inr demo_status"
    by (simp add: try_ping_java_status_def demo_ping_env_def read_status_response_def status_packet_def s Let_def
        split: prod.split)
  show "try_ping_java_status (\<lambda>_. Some demo_status) (conn_at demo_ping_env 0) h p v = Inl Connect_failed"
    by (simp add: try_ping_java_status_def demo_ping_env_def split: prod.split)
qed

theorem ping_succeeds_iff_attempt_witness:
  "ping_java_status_blocking (\<lambda>_. Some demo_status) demo_ping_env [''192.0.2.1''] ''mc.example.org'' 25565 5 =
     Inr demo_status"
proof -
  have "(1 :: nat) < 9 * length [''192.0.2.1'']" by simp
  moreover have "elapsed demo_ping_env 1 \<le> 5" "elapsed demo_ping_env 0 \<le> 5" by (simp_all add: demo_ping_env_def)
  ultimately show ?thesis
    unfolding ping_succeeds_iff_attempt
    by (intro exI [of _ 1] conjI) (auto simp: demo_attempt demo_attempt [simplified])
qed

subsection \<open>Targets, messages and results\<close>

text \<open>
  An explicit port or an address literal is connected to as it is; a bare name goes where the
  first SRV record points, without the dot at its end, or to the default port of the name itself.
\<close>

theorem connect_target:
  "resolve_java_connect_target srv h p =
    (if p \<noteq> None \<or> is_ip_addr h then (h, unwrap_or 25565 p)
     else case srv (''_minecraft._tcp.'' @ h) of
         Some ((target, srv_port) # _) \<Rightarrow> (trim_end_matches ''.'' target, srv_port)
       | _ \<Rightarrow> (h, 25565))"
  by (auto simp: resolve_java_connect_target_def JAVA_DEFAULT_PORT_def Let_def split: option.splits list.splits)

text \<open>The text of a chat component: its own text, then that of its extra parts.\<close>

function chat_text :: "json \<Rightarrow> str" where
  "chat_text v =
     (case v of
        JStr s \<Rightarrow> s
      | JArr vs \<Rightarrow> concat (map chat_text vs)
      | JObj m \<Rightarrow> unwrap_or [] (Option.bind (map_of m ''text'') as_str) @
          (case map_of m ''extra'' of Some e \<Rightarrow> chat_text e | None \<Rightarrow> [])
      | _ \<Rightarrow> [])"
  by pat_completeness auto
termination
  by (relation "measure size") (auto simp: less_Suc_eq_le size_list_estimation' dest: map_of_size)

declare chat_text.simps [simp del]

lemma append_chat_eq:
  "append_chat_text v out = out @ chat_text v"
  "append_chat_items vs out = out @ concat (map chat_text vs)"
proof (induction v out and vs out rule: append_chat_text_append_chat_items.induct)
  case (3 m out)
  then show ?case
    by (auto simp: Let_def chat_text.simps [of "JObj m"] split: option.splits)
qed (simp_all add: chat_text.simps [of "JStr _"] chat_text.simps [of "JArr _"] chat_text.simps [of JNull]
    chat_text.simps [of "JBool _"] chat_text.simps [of "JNum _"])

text \<open>The message is the text of the description, in reading order, for any nesting of components.\<close>

theorem motd_is_chat_text:
  "motd_from_description d = (case d of Some v \<Rightarrow> chat_text v | None \<Rightarrow> [])"
  by (simp add: motd_from_description_def append_chat_eq split: option.split)

text \<open>
  A poll of a Java server succeeds only with an answer of the ping to the address resolved, and
  reports that answer: the version sanitized, the raw one beside it exactly when it says more, the
  message as text, the players as names without blanks and duplicates, and an image as favicon or none.
\<close>

theorem java_poll_reports:
  assumes "poll_java env sid h p timeout t c cc = r" and "pr_status_ok r"
    and "resolve_java_connect_target (pe_srv env) h p = (target, target_port)"
  shows "\<exists>addrs st. pe_addrs env target target_port = Some addrs \<and>
    ping_java_status_blocking (pe_decode env) (pe_ping env) addrs h target_port timeout = Inr st \<and>
    get_str ''server_id'' (pr_payload r) = Some sid \<and>
    get_str ''version'' (pr_payload r) = Some (sanitize_minecraft_version (trim (js_version_name st))) \<and>
    get_str ''motd'' (pr_payload r) = Some (motd_from_description (js_description st)) \<and>
    Option.bind (get ''online'' (pr_payload r)) as_u64 = Some (js_online st) \<and>
    Option.bind (get ''extra'' (pr_payload r)) (get_str SERVER_LIST_VERSION_NAME_EXTRA_KEY) =
      (if trim (js_version_name st) \<in> {[], sanitize_minecraft_version (trim (js_version_name st))} then None
       else Some (trim (js_version_name st))) \<and>
    Option.bind (get ''extra'' (pr_payload r)) (get ''players'') =
      (if extract_player_names (js_sample st) = [] then None
       else Some (JArr (map JStr (extract_player_names (js_sample st))))) \<and>
    distinct (extract_player_names (js_sample st)) \<and> [] \<notin> set (extract_player_names (js_sample st)) \<and>
    (pr_favicon r = [] \<or> prefix ''data:image/'' (pr_favicon r))"
proof -
  obtain addrs st where st: "pe_addrs env target target_port = Some addrs"
    "ping_java_status_blocking (pe_decode env) (pe_ping env) addrs h target_port timeout = Inr st"
    "r = java_poll_result st sid t c cc"
    using assms by (auto simp: poll_java_def failed_poll_def Let_def split: option.splits if_splits sum.splits)
  show ?thesis
    by (rule exI [of _ addrs], rule exI [of _ st])
      (auto simp: st java_poll_result_def Let_def get_str_def extract_player_names_def
        SERVER_LIST_VERSION_NAME_EXTRA_KEY_def split: option.splits)
qed

definition demo_poll_env :: poll_env where
  "demo_poll_env = \<lparr>pe_srv = (\<lambda>_. None), pe_addrs = (\<lambda>_ _. Some [''192.0.2.1'']), pe_ping = demo_ping_env,
     pe_worker_ok = True, pe_decode = (\<lambda>_. Some demo_status),
     pe_udp = \<lparr>udp_bind = True, udp_connect = (\<lambda>_. True), udp_send = (\<lambda>_. True),
       udp_recv = Some demo_pong, udp_in_time = True\<rparr>,
     pe_millis = 0, pe_guid = 0\<rparr>"

lemma demo_poll_ok:
  "poll_java demo_poll_env ''7'' ''mc.example.org'' (Some 25565) 5 ''now'' [] [] =
     java_poll_result demo_status ''7'' ''now'' [] []"
proof -
  have "ping_attempts (\<lambda>_. Some demo_status) demo_ping_env ''mc.example.org'' 25565 5 0 None
      (List.product [''192.0.2.1''] java_status_protocol_versions) = Inr demo_status"
    using demo_attempt
    by (simp add: java_status_protocol_versions_def) (simp add: demo_ping_env_def)
  then show ?thesis
    by (simp add: poll_java_def demo_poll_env_def resolve_java_connect_target_def ping_java_status_blocking_def Let_def)
qed

theorem java_poll_reports_witness:
  "pr_status_ok (poll_java demo_poll_env ''7'' ''mc.example.org'' (Some 25565) 5 ''now'' [] []) \<and>
   get_str ''server_id'' (pr_payload (poll_java demo_poll_env ''7'' ''mc.example.org'' (Some 25565) 5 ''now'' [] [])) =
     Some ''7''"
proof -
  have ok: "pr_status_ok (poll_java demo_poll_env ''7'' ''mc.example.org'' (Some 25565) 5 ''now'' [] [])"
    by (simp add: demo_poll_ok java_poll_result_def Let_def)
  have "resolve_java_connect_target (pe_srv demo_poll_env) ''mc.example.org'' (Some 25565) = (''mc.example.org'', 25565)"
    by (simp add: resolve_java_connect_target_def)
  from java_poll_reports [OF refl ok this] ok show ?thesis by auto
qed

subsection \<open>What is told to the server service\<close>

text \<open>
  A favicon is uploaded once: after a successful upload the same favicon is not uploaded again,
  and after a failed one nothing is remembered, so that the next poll tries again.
\<close>

theorem favicon_uploaded_once:
  assumes "maybe_update_favicon X api st fav = (st', calls)" and "calls \<noteq> []"
  shows "(if api_call_ok api then maybe_update_favicon X api' st' fav = (st', []) else st' = st) \<and>
    (\<exists>sid. calls = [Update_favicon sid fav] \<and> parse_i64 (server_id st) = Some sid)"
  using assms by (auto simp: maybe_update_favicon_def split: option.splits if_splits)

theorem favicon_uploaded_once_witness:
  "\<exists>st' calls. maybe_update_favicon demo_externals \<lparr>api_channel_ok = True, api_call_ok = True\<rparr>
       (build_state demo_externals (\<lambda>lo hi. lo) (\<lambda>lo hi. lo) 0 (json_obj [(''id'', JStr ''7'')]) 0 30 0 600)
       ''data:image/png;base64,xx'' = (st', calls) \<and> calls \<noteq> [] \<and>
     maybe_update_favicon demo_externals \<lparr>api_channel_ok = False, api_call_ok = False\<rparr> st'
       ''data:image/png;base64,xx'' = (st', [])"
proof -
  let ?st = "build_state demo_externals (\<lambda>lo hi. lo) (\<lambda>lo hi. lo) 0 (json_obj [(''id'', JStr ''7'')]) 0 30 0 600"
  let ?f = "''data:image/png;base64,xx''" and ?api = "\<lparr>api_channel_ok = True, api_call_ok = True\<rparr>"
  have n: "last_favicon_hash ?st = None" by (simp add: build_state_def Let_def split: prod.splits)
  have i: "parse_i64 (server_id ?st) = Some 7"
    by (simp add: server_key_def parse_i64_def parse_signed_def parse_digits_upto_def is_digit_def)
  obtain st' calls where u: "maybe_update_favicon demo_externals ?api ?st ?f = (st', calls)" by fastforce
  then have "calls \<noteq> []" using n i by (auto simp: maybe_update_favicon_def favicon_hash_def)
  with favicon_uploaded_once [OF u this, of "\<lparr>api_channel_ok = False, api_call_ok = False\<rparr>"] u
  show ?thesis by auto
qed

text \<open>
  The time of the next Bedrock probe is not looked at: whatever it is, a server that has one is
  probed, and as long as no pong comes it has one again. So every poll of a Java server probes it
  once more, whatever the configured interval.
\<close>

theorem bedrock_probe_ignores_its_time:
  assumes "next_bedrock_probe st = Some t" and "wants_bedrock_probe (server st) iv"
    and "ping_bedrock net millis guid (host st) (unwrap_or 19132 (bedrock_port st)) = None"
  shows "\<exists>st' t'. maybe_probe_bedrock net millis guid api r iv jitter st = (st', True, []) \<and>
    next_bedrock_probe st' = Some t' \<and> server st' = server st"
  using assms
  by (simp add: maybe_probe_bedrock_def probe_bedrock_support_def BEDROCK_DEFAULT_PORT_def
      schedule_next_bedrock_probe_def Let_def)

theorem bedrock_probe_ignores_its_time_witness:
  "\<exists>(st :: server_state) st' t'. next_bedrock_probe st = Some 1000000 \<and>
     maybe_probe_bedrock \<lparr>udp_bind = False, udp_connect = (\<lambda>_. True), udp_send = (\<lambda>_. True),
       udp_recv = None, udp_in_time = True\<rparr> 0 0 \<lparr>api_channel_ok = True, api_call_ok = True\<rparr> (\<lambda>lo hi. lo) 3600 600 st
       = (st', True, []) \<and> next_bedrock_probe st' = Some t'"
proof -
  let ?net = "\<lparr>udp_bind = False, udp_connect = (\<lambda>_. True), udp_send = (\<lambda>_. True), udp_recv = None, udp_in_time = True\<rparr>"
  let ?st = "build_state demo_externals (\<lambda>lo hi. lo) (\<lambda>lo hi. lo) 0 (json_obj []) 1000000 30 3600 600"
  have w: "wants_bedrock_probe (json_obj []) 3600"
    by (simp add: wants_bedrock_probe_def get_str_def to_lowercase_def lower_char_def ascii_lower_def chars.simps char_width_def)
  have s: "server ?st = json_obj []" by (simp add: build_state_def Let_def split: prod.splits)
  have n: "next_bedrock_probe ?st = Some 1000000" using w by (simp add: seed_bedrock_probe_def)
  have "wants_bedrock_probe (server ?st) 3600" using w s by simp
  from bedrock_probe_ignores_its_time [OF n this, of ?net 0 0 "\<lparr>api_channel_ok = True, api_call_ok = True\<rparr>" "\<lambda>lo hi. lo" 600]
  obtain st' t' where "maybe_probe_bedrock ?net 0 0 \<lparr>api_channel_ok = True, api_call_ok = True\<rparr> (\<lambda>lo hi. lo) 3600 600 ?st
      = (st', True, []) \<and> next_bedrock_probe st' = Some t'"
    by (auto simp: ping_bedrock_def)
  with n show ?thesis by blast
qed

text \<open>
  A server found to support Bedrock, when the server service has taken that in, is never probed
  again.
\<close>

theorem bedrock_support_settles:
  assumes "next_bedrock_probe st \<noteq> None" and "parse_i64 (server_id st) = Some sid" and "server st = JObj m"
    and "ping_bedrock net millis guid (host st) (unwrap_or 19132 (bedrock_port st)) \<noteq> None"
    and "api_channel_ok api" and "api_call_ok api"
  shows "\<exists>st'. maybe_probe_bedrock net millis guid api r iv jitter st = (st', True, [Update_edition sid ''java_bedrock'']) \<and>
    next_bedrock_probe st' = None \<and>
    maybe_probe_bedrock net' millis' guid' api' r' iv' jitter' st' = (st', False, [])"
proof -
  have "get_str ''game_edition'' (JObj (obj_insert ''game_edition'' (JStr ''java_bedrock'') m)) = Some ''java_bedrock''"
    by (simp add: get_str_def)
  moreover have "to_lowercase ''java_bedrock'' \<noteq> ''java''"
    by (simp add: to_lowercase_def lower_char_def ascii_lower_def chars.simps char_width_def)
  ultimately have "\<not> wants_bedrock_probe (JObj (obj_insert ''game_edition'' (JStr ''java_bedrock'') m)) iv"
    by (simp add: wants_bedrock_probe_def)
  then show ?thesis
    using assms
    by (auto simp: maybe_probe_bedrock_def probe_bedrock_support_def BEDROCK_DEFAULT_PORT_def Let_def)
qed

theorem bedrock_support_settles_witness:
  "\<exists>(st :: server_state) st'. maybe_probe_bedrock (pe_udp demo_poll_env) 0 0 \<lparr>api_channel_ok = True, api_call_ok = True\<rparr>
       (\<lambda>lo hi. lo) 3600 600 st = (st', True, [Update_edition 7 ''java_bedrock'']) \<and> next_bedrock_probe st' = None"
proof -
  let ?api = "\<lparr>api_channel_ok = True, api_call_ok = True\<rparr>"
  let ?st = "build_state demo_externals (\<lambda>lo hi. lo) (\<lambda>lo hi. lo) 0 (JObj [(''id'', JStr ''7'')]) 5 30 3600 600"
  have w: "wants_bedrock_probe (JObj [(''id'', JStr ''7'')]) 3600"
    by (simp add: wants_bedrock_probe_def get_str_def to_lowercase_def lower_char_def ascii_lower_def chars.simps char_width_def)
  have s: "server ?st = JObj [(''id'', JStr ''7'')]" by (simp add: build_state_def Let_def split: prod.splits)
  have n: "next_bedrock_probe ?st \<noteq> None" using w by simp
  have i: "parse_i64 (server_id ?st) = Some 7"
    by (simp add: server_key_def parse_i64_def parse_signed_def parse_digits_upto_def is_digit_def)
  have "length demo_pong \<le> 2048" by (simp add: demo_pong_def pong_packet_def)
  then have "ping_bedrock (pe_udp demo_poll_env) 0 0 (host ?st) (unwrap_or 19132 (bedrock_port ?st)) \<noteq> None"
    using parse_demo_pong by (auto simp: ping_bedrock_def demo_poll_env_def)
  from bedrock_support_settles [OF n i s this, of ?api "\<lambda>lo hi. lo" 3600 600] show ?thesis by (simp, blast)
qed

end
