(* ===== verification/Sync.thy ===== *)
theory Sync
  imports Grpc_Clients Config Ping
begin

text \<open>
  \<open>src/src/sync.rs\<close>: fetching the catalog, bringing the states in line with it, and the three ways of
  asking for a poll out of turn: the trigger file, the force-ping queue and the discovery queue.

  The map of states is a \<open>hash_map\<close> (\<open>Hash_Map\<close>). A call of \<open>SchedulerHandle::schedule\<close> is an entry
  of the list of schedule requests that the operations return, in the order of the calls. The answers
  of the catalog service, of Redis and of the file system are arguments, as are the readings of the
  clocks and the random draws. A result of \<^const>\<open>None\<close> of an operation that may run forever means
  that it does not return: it loops, or it panics on a token the interceptor refuses.
\<close>

type_synonym states = "(str, server_state) hash_map"
type_synonym requests = "(str \<times> f64) list"

subsection \<open>Fetching the catalog\<close>

record list_request =
  lr_page :: i32
  lr_limit :: i32
  lr_role :: "str option"

record list_response =
  lr_items :: "server_catalog_item list"
  lr_total :: i32

record catalog_service =
  list_servers :: "list_request \<Rightarrow> list_response option"
  get_server :: "i64 \<Rightarrow> server_catalog_item option"

text \<open>The loop over the pages, with the page number and the items so far.\<close>

partial_function (option) fetch_page_loop ::
  "(list_request \<Rightarrow> list_response option) \<Rightarrow> i32 \<Rightarrow> str option \<Rightarrow> i32 \<Rightarrow> json list \<Rightarrow> json list option" where
  "fetch_page_loop list limit role page result =
     (case list \<lparr>lr_page = page, lr_limit = limit, lr_role = role\<rparr> of
        None \<Rightarrow> Some result
      | Some resp \<Rightarrow>
          let result' = result @ map catalog_item_to_value (lr_items resp) in
          if sint (lr_total resp) \<le> sint (of_nat (length result') :: i32) then Some result'
          else fetch_page_loop list limit role (page + 1) result')"

definition fetch_page ::
  "(list_request \<Rightarrow> list_response option) \<Rightarrow> u64 \<Rightarrow> str option \<Rightarrow> json list option" where
  "fetch_page list psize role = fetch_page_loop list (ucast psize) role 1 []"

definition fetch_servers :: "grpc_toolkit \<Rightarrow> catalog_service \<Rightarrow> api_settings \<Rightarrow> u64 \<Rightarrow> json list option" where
  "fetch_servers G svc cfg psize =
     (case auth_channel G (grpc_target cfg) (unwrap_or [] (api_token cfg)) of
        Channel_error \<Rightarrow> Some []
      | Channel_panic \<Rightarrow> None
      | Channel _ _ \<Rightarrow>
          Option.bind (fetch_page (list_servers svc) psize None) (\<lambda>servers.
          Option.bind (fetch_page (list_servers svc) psize (Some ''subserver'')) (\<lambda>subs.
          Some (servers @ subs))))"

definition fetch_server_by_id ::
  "grpc_toolkit \<Rightarrow> catalog_service \<Rightarrow> api_settings \<Rightarrow> str \<Rightarrow> json option option" where
  "fetch_server_by_id G svc cfg sid =
     (let id = trim sid in
      if id = [] then Some None
      else case parse_i64 id of
        None \<Rightarrow> Some None
      | Some numeric_id \<Rightarrow>
          (case auth_channel G (grpc_target cfg) (unwrap_or [] (api_token cfg)) of
             Channel_error \<Rightarrow> Some None
           | Channel_panic \<Rightarrow> None
           | Channel _ _ \<Rightarrow> Some (map_option catalog_item_to_value (get_server svc numeric_id))))"

subsection \<open>One refresh of the states\<close>

text \<open>
  A server that is already tracked: its address is compared with the catalog, and the emitted fields
  are reset when it moved; the polling times stay, unless the server falls back from its plugin.
\<close>

definition readdress :: "f64 \<Rightarrow> json \<Rightarrow> server_state \<Rightarrow> server_state" where
  "readdress now srv st =
     (let (h, parsed_port) = parse_address (host_value srv);
          ed = normalize_edition (get_str ''game_edition'' srv);
          (p, bp) = resolve_state_ports srv h parsed_port ed
      in if host st \<noteq> h \<or> port st \<noteq> p \<or> edition st \<noteq> ed \<or> bedrock_port st \<noteq> bp
         then reset_emitted (st\<lparr>host := h, port := p, edition := ed, bedrock_port := bp, next_query_attempt := now\<rparr>)
         else st)"

definition keep_probing :: "rng \<Rightarrow> u64 \<Rightarrow> f64 \<Rightarrow> json \<Rightarrow> server_state \<Rightarrow> server_state" where
  "keep_probing r iv now srv st =
     (if wants_bedrock_probe srv iv then
        (if next_bedrock_probe st = None
         then st\<lparr>next_bedrock_probe := seed_bedrock_probe r srv now iv\<rparr> else st)
      else st\<lparr>next_bedrock_probe := None\<rparr>)"

definition update_existing ::
  "externals \<Rightarrow> collector_settings \<Rightarrow> rng \<Rightarrow> int \<Rightarrow> f64 \<Rightarrow> str \<Rightarrow> json \<Rightarrow> server_state
   \<Rightarrow> server_state \<times> requests" where
  "update_existing X C r utc_now now k srv st =
     (let st1 = readdress now srv st;
          previous_fallback_mode = plugin_fallback_mode st1;
          fallback = is_plugin_fallback_mode X srv (plugin_fallback_stale_seconds C) utc_now;
          st2 = st1\<lparr>server := srv, plugin_managed := is_plugin_managed srv, plugin_fallback_mode := fallback\<rparr>;
          (st3, reqs) = (if fallback \<and> \<not> previous_fallback_mode
                         then (st2\<lparr>next_due := now\<rparr>, [(k, now)]) else (st2, []))
      in (keep_probing r (bedrock_probe_interval_seconds C) now srv st3, reqs))"

text \<open>
  What the iteration for one server draws and reads: two random draws and the wall clock.
\<close>

record refresh_draws =
  rd_due :: rng
  rd_probe :: rng
  rd_utc :: int

definition refresh_server ::
  "externals \<Rightarrow> collector_settings \<Rightarrow> f64 \<Rightarrow> json \<Rightarrow> refresh_draws
   \<Rightarrow> states \<times> str list \<times> requests \<Rightarrow> states \<times> str list \<times> requests" where
  "refresh_server X C now srv d acc =
     (let (m, incoming, reqs) = acc; k = server_key X srv in
      if k = [] then acc
      else case hm_get m k of
        Some st \<Rightarrow>
          (let (st', rs) = update_existing X C (rd_probe d) (rd_utc d) now k srv st
           in (hm_insert k st' m, k # incoming, reqs @ rs))
      | None \<Rightarrow>
          (let st = build_state X (rd_due d) (rd_probe d) (rd_utc d) srv now (startup_spread_seconds C)
                 (bedrock_probe_interval_seconds C) (plugin_fallback_stale_seconds C)
           in (hm_insert k st m, k # incoming, reqs @ [(key st, next_due st)])))"

fun refresh_all ::
  "externals \<Rightarrow> collector_settings \<Rightarrow> f64 \<Rightarrow> (json \<times> refresh_draws) list
   \<Rightarrow> states \<times> str list \<times> requests \<Rightarrow> states \<times> str list \<times> requests" where
  "refresh_all X C now [] acc = acc"
| "refresh_all X C now ((srv, d) # rest) acc =
     refresh_all X C now rest (refresh_server X C now srv d acc)"

text \<open>
  Under the lock: all servers of the catalog, then the removal of the servers that are not in it.
  \<open>draws i\<close> is what the iteration for the \<open>i\<close>-th server draws.
\<close>

definition refresh_states ::
  "externals \<Rightarrow> collector_settings \<Rightarrow> (nat \<Rightarrow> refresh_draws) \<Rightarrow> f64 \<Rightarrow> json list \<Rightarrow> states \<Rightarrow> states \<times> requests" where
  "refresh_states X C draws now servers m =
     (let (m', incoming, reqs) =
        refresh_all X C now (zip servers (map draws [0..<length servers])) (m, [], [])
      in (hm_retain (\<lambda>k _. k \<in> set incoming) m', reqs))"

definition refresh_servers_once ::
  "externals \<Rightarrow> grpc_toolkit \<Rightarrow> catalog_service \<Rightarrow> settings \<Rightarrow> (nat \<Rightarrow> refresh_draws) \<Rightarrow> f64 \<Rightarrow> states
   \<Rightarrow> (bool \<times> states \<times> requests) option" where
  "refresh_servers_once X G svc S draws now m =
     (case fetch_servers G svc (server_cfg S) (page_size (collector_cfg S)) of
        None \<Rightarrow> None
      | Some servers \<Rightarrow>
          if servers = [] then Some (False, m, [])
          else (case refresh_states X (collector_cfg S) draws now servers m of
                  (m', reqs) \<Rightarrow> Some (True, m', reqs)))"

definition refresh_delay :: "collector_settings \<Rightarrow> bool \<Rightarrow> u64" where
  "refresh_delay C success =
     (if success then server_list_refresh_seconds C else server_list_retry_seconds C)"

subsection \<open>The trigger file\<close>

text \<open>The identifiers of a JSON array: strings and numbers, trimmed and not empty.\<close>

definition id_of :: "externals \<Rightarrow> json \<Rightarrow> str option" where
  "id_of X v =
     (case (case v of
              JStr s \<Rightarrow> Some (trim s)
            | JNum n \<Rightarrow> Some (json_to_string X (JNum n))
            | _ \<Rightarrow> None) of
        Some s \<Rightarrow> if s = [] then None else Some s
      | None \<Rightarrow> None)"

definition replace_char :: "char \<Rightarrow> char \<Rightarrow> str \<Rightarrow> str" where
  "replace_char a b s = map (\<lambda>c. if c = a then b else c) s"

definition split_ids :: "str \<Rightarrow> str list" where
  "split_ids content = filter (\<lambda>s. s \<noteq> []) (split_whitespace (replace_char (CHR '','') (CHR '' '') content))"

text \<open>\<^const>\<open>None\<close> stands for all servers.\<close>

definition parse_trigger_content :: "externals \<Rightarrow> str \<Rightarrow> str list option" where
  "parse_trigger_content X raw =
     (let content = trim raw in
      if content = [] then Some []
      else
        let lowered = to_lowercase content in
        if lowered = ''all'' \<or> lowered = ''*'' then None
        else case (if prefix ''{'' content \<or> prefix ''['' content
                   then json_from_slice X (as_bytes content) else None) of
          Some (JObj m) \<Rightarrow>
            (if unwrap_or False (Option.bind (map_of m ''all'') as_bool) then None
             else Some (unwrap_or []
               (map_option (List.map_filter (id_of X))
                 (Option.bind (case map_of m ''server_ids'' of Some v \<Rightarrow> Some v | None \<Rightarrow> map_of m ''ids'')
                   as_array))))
        | Some (JArr arr) \<Rightarrow> Some (List.map_filter (id_of X) arr)
        | _ \<Rightarrow> Some (split_ids content))"

text \<open>A state made due now, and the request for it.\<close>

definition due_now :: "f64 \<Rightarrow> server_state \<Rightarrow> server_state" where
  "due_now now st = st\<lparr>next_due := now\<rparr>"

fun trigger_ids :: "f64 \<Rightarrow> str list \<Rightarrow> states \<Rightarrow> states \<times> requests" where
  "trigger_ids now [] m = (m, [])"
| "trigger_ids now (sid # ids) m =
     (case hm_get m sid of
        Some st \<Rightarrow>
          (let (m', reqs) = trigger_ids now ids (hm_insert sid (due_now now st) m)
           in (m', (key st, now) # reqs))
      | None \<Rightarrow> trigger_ids now ids m)"

definition trigger_targets :: "f64 \<Rightarrow> str list option \<Rightarrow> states \<Rightarrow> states \<times> requests" where
  "trigger_targets now targets m =
     (case targets of
        None \<Rightarrow> (map (\<lambda>(k, st). (k, due_now now st)) m, map (\<lambda>(k, st). (key st, now)) m)
      | Some ids \<Rightarrow> trigger_ids now ids m)"

text \<open>
  One turn of \<open>trigger_loop\<close>: the file, when it is there and can be read, is removed (a failure of
  that is ignored) and its content applied.
\<close>

definition trigger_once ::
  "externals \<Rightarrow> bool \<Rightarrow> f64 \<Rightarrow> str option \<Rightarrow> states \<Rightarrow> str option \<times> states \<times> requests" where
  "trigger_once X remove_ok now file m =
     (case file of
        None \<Rightarrow> (None, m, [])
      | Some content \<Rightarrow>
          (case trigger_targets now (parse_trigger_content X content) m of
             (m', reqs) \<Rightarrow> (if remove_ok then None else Some content, m', reqs)))"

subsection \<open>The force-ping queue\<close>

text \<open>
  The loops run only with a queue to listen to. The seconds \<open>BLPOP\<close> waits are cut down to a whole
  number, of which 0 means forever.
\<close>

definition force_ping_runs :: "collector_settings \<Rightarrow> bool" where
  "force_ping_runs C \<longleftrightarrow> trim (force_ping_queue_key C) \<noteq> []"

definition discovery_runs :: "collector_settings \<Rightarrow> bool" where
  "discovery_runs C \<longleftrightarrow>
     trim (discovery_probe_queue_key C) \<noteq> [] \<and> trim (discovery_probe_result_key_prefix C) \<noteq> []"

definition pop_timeout :: "f64 \<Rightarrow> nat" where
  "pop_timeout seconds = nat \<lfloor>max seconds (1 / 2)\<rfloor>"

text \<open>What \<open>BLPOP\<close> answers.\<close>

datatype redis_reply = Popped str | Pop_timeout | Pop_error

text \<open>The target of a reply; an empty one is skipped.\<close>

definition ping_target :: "redis_reply \<Rightarrow> str option" where
  "ping_target reply =
     (case reply of
        Popped raw \<Rightarrow> (let target = trim raw in if target = [] then None else Some target)
      | Pop_timeout \<Rightarrow> None
      | Pop_error \<Rightarrow> None)"

text \<open>
  The stretch under the lock for a known server; \<^const>\<open>None\<close> for an unknown one, for which the lock
  is released and the catalog asked.
\<close>

definition force_ping_known :: "f64 \<Rightarrow> str \<Rightarrow> states \<Rightarrow> (states \<times> requests) option" where
  "force_ping_known now target m =
     (case hm_get m target of
        Some st \<Rightarrow> Some (hm_insert target (due_now now st) m, [(key st, now)])
      | None \<Rightarrow> None)"

text \<open>
  The stretch after the answer of the catalog, under the lock taken again; \<open>now\<close> is the time read
  before asking.
\<close>

definition force_ping_fetched ::
  "externals \<Rightarrow> collector_settings \<Rightarrow> refresh_draws \<Rightarrow> f64 \<Rightarrow> str \<Rightarrow> json \<Rightarrow> states \<Rightarrow> states \<times> requests" where
  "force_ping_fetched X C d now target srv m =
     (let st = build_state X (rd_due d) (rd_probe d) (rd_utc d) srv now (startup_spread_seconds C)
            (bedrock_probe_interval_seconds C) (plugin_fallback_stale_seconds C)
      in (hm_insert target st m, [(key st, now)]))"

text \<open>One turn of the loop, without other tasks in between.\<close>

definition force_ping_once ::
  "externals \<Rightarrow> grpc_toolkit \<Rightarrow> catalog_service \<Rightarrow> settings \<Rightarrow> refresh_draws \<Rightarrow> f64 \<Rightarrow> redis_reply \<Rightarrow> states
   \<Rightarrow> (states \<times> requests) option" where
  "force_ping_once X G svc S d now reply m =
     (case ping_target reply of
        None \<Rightarrow> Some (m, [])
      | Some target \<Rightarrow>
          (case force_ping_known now target m of
             Some r \<Rightarrow> Some r
           | None \<Rightarrow>
               (case fetch_server_by_id G svc (server_cfg S) target of
                  None \<Rightarrow> None
                | Some None \<Rightarrow> Some (m, [])
                | Some (Some srv) \<Rightarrow> Some (force_ping_fetched X (collector_cfg S) d now target srv m))))"

subsection \<open>The discovery queue\<close>

text \<open>
  The request is decoded by generated code (\<open>serde\<close>), a parameter. The queues are looked at only when
  the trimmed names of the queue and of the result prefix are not empty.
\<close>

record probe_request =
  pq_candidate_id :: str
  pq_host :: str
  pq_port :: "u16 option"
  pq_edition :: "str option"

definition probe_edition :: "str option \<Rightarrow> edition" where
  "probe_edition e =
     (case e of
        Some v \<Rightarrow> if eq_ignore_ascii_case v ''bedrock'' then Bedrock else Java
      | None \<Rightarrow> Java)"

definition accept_probe :: "(str \<Rightarrow> probe_request option) \<Rightarrow> redis_reply \<Rightarrow> probe_request option" where
  "accept_probe decode reply =
     (case ping_target reply of
        None \<Rightarrow> None
      | Some raw \<Rightarrow>
          (case decode raw of
             None \<Rightarrow> None
           | Some req \<Rightarrow>
               (let h = trim (pq_host req) in
                if trim (pq_candidate_id req) = [] \<or> h = [] then None
                else Some (req\<lparr>pq_host := h\<rparr>))))"

definition probe_response :: "probe_request \<Rightarrow> poll_result \<Rightarrow> str \<Rightarrow> u64 \<Rightarrow> json" where
  "probe_response req result probed_at elapsed_ms =
     (let payload = (case pr_payload result of JObj m \<Rightarrow> JObj m | _ \<Rightarrow> JNull)
      in json_obj
        [(''candidate_id'', JStr (pq_candidate_id req)),
         (''status_ok'', JBool (pr_status_ok result)),
         (''error'', if pr_status_ok result then JNull else JStr ''probe failed''),
         (''probed_at'', JStr probed_at),
         (''host'', JStr (pq_host req)),
         (''port'', json_opt (\<lambda>p. json_u64 (ucast p)) (pq_port req)),
         (''edition'', JStr (edition_as_str (probe_edition (pq_edition req)))),
         (''online'', json_opt json_u64 (Option.bind (get ''online'' payload) as_u64)),
         (''max_players'', json_opt json_u64 (Option.bind (get ''max_players'' payload) as_u64)),
         (''version'', JStr (unwrap_or [] (get_str ''version'' payload))),
         (''motd'', JStr (unwrap_or [] (get_str ''motd'' payload))),
         (''favicon'', JStr (pr_favicon result)),
         (''elapsed_ms'', json_u64 elapsed_ms)])"

text \<open>
  One turn of the loop: it goes on without an answer, sends the \<open>SET\<close> of the answer (its key, its value and the
  seconds it lives), or is ended by a panic of the poll.
\<close>

datatype probe_outcome = No_answer | Answer "str \<times> u8 list \<times> u64" | Probe_panics

definition discovery_probe_once ::
  "externals \<Rightarrow> (str \<Rightarrow> probe_request option) \<Rightarrow> collector_settings \<Rightarrow> poll_env \<Rightarrow> geo_env \<Rightarrow> geo_cache
   \<Rightarrow> str \<Rightarrow> str \<Rightarrow> u64 \<Rightarrow> redis_reply \<Rightarrow> probe_outcome \<times> geo_cache" where
  "discovery_probe_once X decode C env genv cache collected_at probed_at elapsed_ms reply =
     (case accept_probe decode reply of
        None \<Rightarrow> (No_answer, cache)
      | Some req \<Rightarrow>
          (case poll_server env genv cache collected_at (pq_candidate_id req) (pq_host req) (pq_port req)
               (probe_edition (pq_edition req)) (status_timeout_seconds C) of
             (None, cache', _) \<Rightarrow> (Probe_panics, cache')
           | (Some result, cache', _) \<Rightarrow>
               (case json_to_vec X (probe_response req result probed_at elapsed_ms) of
                  None \<Rightarrow> No_answer
                | Some body \<Rightarrow>
                    Answer (trim (discovery_probe_result_key_prefix C) @ pq_candidate_id req, body,
                      max (discovery_probe_result_ttl_seconds C) 60), cache')))"

subsection \<open>Fetching a whole catalog\<close>

text \<open>A service that cuts a catalog into pages of the size asked for.\<close>

definition served_pages :: "server_catalog_item list \<Rightarrow> list_request \<Rightarrow> list_response option" where
  "served_pages xs r =
     Some \<lparr>lr_items = take (unat (lr_limit r)) (drop ((unat (lr_page r) - 1) * unat (lr_limit r)) xs),
           lr_total = of_nat (length xs)\<rparr>"

lemma sint_of_nat_i32: "n < 2 ^ 31 \<Longrightarrow> sint (of_nat n :: i32) = int n"
proof -
  assume "n < 2 ^ 31"
  then have "signed_take_bit 31 (int n) = int n"
    by (intro signed_take_bit_int_eq_self) auto
  moreover have "sint (word_of_int (int n) :: i32) = signed_take_bit 31 (int n)"
    unfolding sint_sbintrunc' by simp
  ultimately show ?thesis by (simp only: of_int_of_nat_eq)
qed

lemma fetch_page_loop_served:
  assumes srv: "\<And>r. lr_role r = role \<Longrightarrow> list r = served_pages xs r"
    and l: "0 < unat limit" and n: "length xs < 2 ^ 31"
    and k: "k * unat limit < length xs \<or> k = 0"
  shows "fetch_page_loop list limit role (of_nat (Suc k)) (map catalog_item_to_value (take (k * unat limit) xs)) =
    Some (map catalog_item_to_value xs)"
  using k
proof (induction "length xs - k * unat limit" arbitrary: k rule: less_induct)
  case less
  let ?l = "unat limit"
  have "k \<le> k * ?l" using l by simp
  also have "k * ?l < 2 ^ 31" using less.prems n by (elim disjE) (erule less_trans, assumption, simp)
  finally have "k < 2 ^ 31" .
  then have u: "unat (of_nat (Suc k) :: i32) = Suc k" by (intro unat_of_nat_less) simp
  have t: "take (k * ?l) xs @ take ?l (drop (k * ?l) xs) = take (Suc k * ?l) xs"
    by (simp add: take_add [symmetric] add.commute)
  have page: "list \<lparr>lr_page = of_nat (Suc k), lr_limit = limit, lr_role = role\<rparr> =
      Some \<lparr>lr_items = take ?l (drop (k * ?l) xs), lr_total = of_nat (length xs)\<rparr>"
    using u by (simp add: srv served_pages_def del: of_nat_Suc)
  have step: "fetch_page_loop list limit role (of_nat (Suc k)) (map catalog_item_to_value (take (k * ?l) xs)) =
      (if length xs \<le> Suc k * ?l then Some (map catalog_item_to_value (take (Suc k * ?l) xs))
       else fetch_page_loop list limit role (of_nat (Suc (Suc k))) (map catalog_item_to_value (take (Suc k * ?l) xs)))"
  proof -
    let ?R = "map catalog_item_to_value (take (Suc k * ?l) xs)"
    have e: "map catalog_item_to_value (take (k * ?l) xs) @ map catalog_item_to_value (take ?l (drop (k * ?l) xs)) = ?R"
      unfolding t [symmetric] by (rule map_append [symmetric])
    have s: "sint (of_nat (length ?R) :: i32) = int (length ?R)" "sint (of_nat (length xs) :: i32) = int (length xs)"
      using n by (intro sint_of_nat_i32, simp)+
    have le: "int (length xs) \<le> int (length ?R) \<longleftrightarrow> length xs \<le> Suc k * ?l" by auto
    have p: "of_nat (Suc k) + 1 = (of_nat (Suc (Suc k)) :: i32)" by simp
    show ?thesis
      by (subst fetch_page_loop.simps)
        (simp only: page option.case list_response.select_convs Let_def e s le p)
  qed
  show ?case
  proof (cases "length xs \<le> Suc k * ?l")
    case True
    then show ?thesis unfolding step by simp
  next
    case False
    then have "length xs - Suc k * ?l < length xs - k * ?l" using l by simp
    with False show ?thesis unfolding step using less.hyps [of "Suc k"] by simp
  qed
qed

text \<open>The loop does not end on pages that never fill the total.\<close>

lemma fetch_page_loop_endless:
  assumes "\<And>r. \<exists>t. list r = Some \<lparr>lr_items = [], lr_total = t\<rparr> \<and> sint (of_nat (length result) :: i32) < sint t"
  shows "fetch_page_loop list limit role page result = None"
proof (rule ccontr)
  have stuck: "\<not> (\<forall>r. \<exists>t. list r = Some \<lparr>lr_items = [], lr_total = t\<rparr> \<and> sint (of_nat (length result) :: i32) < sint t)"
    if "fetch_page_loop list limit role page result = Some r" for r
  proof (rule fetch_page_loop.raw_induct [where P = "\<lambda>list limit role page result r.
        \<not> (\<forall>r. \<exists>t. list r = Some \<lparr>lr_items = [], lr_total = t\<rparr> \<and> sint (of_nat (length result) :: i32) < sint t)",
        OF _ that], rule notI)
    fix f :: "(list_request \<Rightarrow> list_response option) \<Rightarrow> i32 \<Rightarrow> str option \<Rightarrow> i32 \<Rightarrow> json list \<Rightarrow> json list option"
    fix list limit role page result r
    assume IH: "\<And>list limit role page result r. f list limit role page result = Some r \<Longrightarrow>
        \<not> (\<forall>r. \<exists>t. list r = Some \<lparr>lr_items = [], lr_total = t\<rparr> \<and> sint (of_nat (length result) :: i32) < sint t)"
      and body: "(case list \<lparr>lr_page = page, lr_limit = limit, lr_role = role\<rparr> of None \<Rightarrow> Some result
         | Some resp \<Rightarrow> let result' = result @ map catalog_item_to_value (lr_items resp) in
             if sint (lr_total resp) \<le> sint (of_nat (length result') :: i32) then Some result'
             else f list limit role (page + 1) result') = Some r"
      and all: "\<forall>r. \<exists>t. list r = Some \<lparr>lr_items = [], lr_total = t\<rparr> \<and> sint (of_nat (length result) :: i32) < sint t"
    obtain t where t: "list \<lparr>lr_page = page, lr_limit = limit, lr_role = role\<rparr> = Some \<lparr>lr_items = [], lr_total = t\<rparr>"
      "sint (of_nat (length result) :: i32) < sint t"
      using all by blast
    with body have "f list limit role (page + 1) result = Some r" by simp
    from IH [OF this] all show False by contradiction
  qed
  moreover assume "fetch_page_loop list limit role page result \<noteq> None"
  ultimately show False using assms by blast
qed

lemma fetch_page_served:
  assumes "\<And>r. lr_role r = role \<Longrightarrow> list r = served_pages xs r"
    and "0 < psize" and "psize < 2 ^ 31" and "length xs < 2 ^ 31"
  shows "fetch_page list psize role = Some (map catalog_item_to_value xs)"
proof -
  have "unat (ucast psize :: i32) = unat psize"
    using assms(3) by (simp add: unsigned_ucast_eq take_bit_nat_eq_self word_less_nat_alt)
  then have "0 < unat (ucast psize :: i32)" using assms(2) by (simp add: word_less_nat_alt)
  from fetch_page_loop_served [OF assms(1) this assms(4), where k = 0] show ?thesis
    by (simp add: fetch_page_def)
qed

text \<open>A service with the servers \<open>xs\<close>, and \<open>ys\<close> as the subservers.\<close>

definition serves :: "catalog_service \<Rightarrow> server_catalog_item list \<Rightarrow> server_catalog_item list \<Rightarrow> bool" where
  "serves svc xs ys \<longleftrightarrow>
     (\<forall>r. lr_role r = None \<longrightarrow> list_servers svc r = served_pages xs r) \<and>
     (\<forall>r. lr_role r = Some ''subserver'' \<longrightarrow> list_servers svc r = served_pages ys r) \<and>
     length xs < 2 ^ 31 \<and> length ys < 2 ^ 31"

lemma fetch_servers_served:
  assumes "auth_channel G (grpc_target cfg) (unwrap_or [] (api_token cfg)) = Channel tg tk"
    and "serves svc xs ys" and "0 < psize" and "psize < 2 ^ 31"
  shows "fetch_servers G svc cfg psize = Some (map catalog_item_to_value (xs @ ys))"
  using assms fetch_page_served [of None "list_servers svc" xs psize]
    fetch_page_served [of "Some ''subserver''" "list_servers svc" ys psize]
  by (simp add: fetch_servers_def serves_def)

text \<open>
  C14: A service that pages honestly is read completely: whatever the page size, all items of the
  catalog come back, once and in order.
\<close>

theorem fetch_page_complete:
  assumes "\<And>r. lr_role r = role \<Longrightarrow> list r = served_pages xs r"
    and "0 < psize" and "psize < 2 ^ 31" and "length xs < 2 ^ 31"
  shows "fetch_page list psize role = Some (map catalog_item_to_value xs)"
  using assms by (rule fetch_page_served)

definition demo_catalog_item :: "str \<Rightarrow> server_catalog_item" where
  "demo_catalog_item sid = \<lparr>ci_id = sid, ci_project_id = None, ci_project_online_strategy = None,
     ci_ip_or_domain = ''mc.example.org'', ci_server_role = ''main'', ci_proxy_type = None, ci_parent_id = None,
     ci_ping_ip_or_domain = None, ci_ping_port = None, ci_bedrock_port = None, ci_game_edition = None,
     ci_is_verified = False, ci_verification_source = None, ci_verified_plugin_last_seen_at = None\<rparr>"

theorem fetch_page_complete_witness:
  "fetch_page (served_pages [demo_catalog_item ''1'', demo_catalog_item ''2'', demo_catalog_item ''3'']) 2 None =
     Some (map catalog_item_to_value [demo_catalog_item ''1'', demo_catalog_item ''2'', demo_catalog_item ''3''])"
  by (rule fetch_page_complete) simp_all

text \<open>
  A total that the pages never reach is waited for forever: when every page is empty and the
  total is positive, fetching does not return.
\<close>

theorem endless_on_empty_pages:
  assumes "\<And>r. \<exists>t. list r = Some \<lparr>lr_items = [], lr_total = t\<rparr> \<and> 0 < sint t"
  shows "fetch_page list psize role = None"
  unfolding fetch_page_def by (rule fetch_page_loop_endless) (use assms in simp)

theorem endless_on_empty_pages_witness: "fetch_page (\<lambda>_. Some \<lparr>lr_items = [], lr_total = 1\<rparr>) 0 None = None"
  by (rule endless_on_empty_pages) simp

subsection \<open>A refresh and the catalog\<close>

text \<open>The polled address and the mode of a state are those its catalog entry asks for.\<close>

definition mirrors :: "server_state \<Rightarrow> bool" where
  "mirrors st \<longleftrightarrow>
     (let (h, parsed_port) = parse_address (host_value (server st));
          ed = normalize_edition (get_str ''game_edition'' (server st))
      in host st = h \<and> edition st = ed \<and>
         (port st, bedrock_port st) = resolve_state_ports (server st) h parsed_port ed \<and>
         plugin_managed st = is_plugin_managed (server st))"

definition moved :: "json \<Rightarrow> server_state \<Rightarrow> bool" where
  "moved srv st \<longleftrightarrow>
     (let (h, parsed_port) = parse_address (host_value srv);
          ed = normalize_edition (get_str ''game_edition'' srv)
      in \<not> (host st = h \<and> edition st = ed \<and> (port st, bedrock_port st) = resolve_state_ports srv h parsed_port ed))"

definition falls_back :: "externals \<Rightarrow> collector_settings \<Rightarrow> int \<Rightarrow> json \<Rightarrow> server_state \<Rightarrow> bool" where
  "falls_back X C utc_now srv st \<longleftrightarrow>
     is_plugin_fallback_mode X srv (plugin_fallback_stale_seconds C) utc_now \<and> \<not> plugin_fallback_mode st"

lemma mirrors_build_state [simp]: "mirrors (build_state X r1 r2 utc srv now sp iv stale)"
  by (simp add: mirrors_def build_state_def Let_def split: prod.splits)

lemma server_build_state [simp]: "server (build_state X r1 r2 utc srv now sp iv stale) = srv"
  by (simp add: build_state_def Let_def split: prod.splits)

lemma keep_probing_frame [simp]:
  "key (keep_probing r iv now srv st) = key st" "server_id (keep_probing r iv now srv st) = server_id st"
  "server (keep_probing r iv now srv st) = server st" "next_due (keep_probing r iv now srv st) = next_due st"
  "host (keep_probing r iv now srv st) = host st" "port (keep_probing r iv now srv st) = port st"
  "edition (keep_probing r iv now srv st) = edition st" "bedrock_port (keep_probing r iv now srv st) = bedrock_port st"
  "plugin_managed (keep_probing r iv now srv st) = plugin_managed st"
  "plugin_fallback_mode (keep_probing r iv now srv st) = plugin_fallback_mode st"
  "has_emitted_state (keep_probing r iv now srv st) = has_emitted_state st"
  "last_obs (keep_probing r iv now srv st) = last_obs st"
  "last_emitted_at (keep_probing r iv now srv st) = last_emitted_at st"
  "emitted_ok (keep_probing r iv now srv st) = emitted_ok st"
  by (simp_all add: keep_probing_def last_obs_def emitted_ok_def)

lemma mode_frame [simp]:
  "emitted_ok (st\<lparr>server := s, plugin_managed := a, plugin_fallback_mode := b, next_due := d\<rparr>) = emitted_ok st"
  "last_obs (st\<lparr>server := s, plugin_managed := a, plugin_fallback_mode := b, next_due := d\<rparr>) = last_obs st"
  by (simp_all add: emitted_ok_def last_obs_def)

lemma readdress_unmoved: "\<not> moved srv st \<Longrightarrow> readdress now srv st = st"
  by (auto simp: readdress_def moved_def Let_def split: prod.splits)

lemma readdress_moved: "moved srv st \<Longrightarrow> emitted_ok (readdress now srv st) \<and> \<not> has_emitted_state (readdress now srv st)"
  by (auto simp: readdress_def moved_def Let_def split: prod.splits)

lemma readdress_frame [simp]:
  "key (readdress now srv st) = key st" "server_id (readdress now srv st) = server_id st"
  "next_due (readdress now srv st) = next_due st"
  "plugin_fallback_mode (readdress now srv st) = plugin_fallback_mode st"
  by (simp_all add: readdress_def reset_emitted_def Let_def split: prod.splits)

lemma readdress_address:
  assumes "parse_address (host_value srv) = (h, pp)" and "ed = normalize_edition (get_str ''game_edition'' srv)"
    and "resolve_state_ports srv h pp ed = (p, bp)"
  shows "host (readdress now srv st) = h" "edition (readdress now srv st) = ed" "port (readdress now srv st) = p"
    "bedrock_port (readdress now srv st) = bp"
  using assms by (auto simp: readdress_def reset_emitted_def Let_def)

lemma due_unchanged:
  fixes st :: server_state
  assumes "next_due st = d"
  shows "st\<lparr>server := s, plugin_managed := a, plugin_fallback_mode := b\<rparr> =
    st\<lparr>server := s, plugin_managed := a, plugin_fallback_mode := b, next_due := d\<rparr>"
  using assms by (cases st) simp

text \<open>The state after the mode and the due time have been set.\<close>

lemma update_existing_unfold:
  "update_existing X C r utc now k srv st =
    (keep_probing r (bedrock_probe_interval_seconds C) now srv
       ((readdress now srv st)\<lparr>server := srv, plugin_managed := is_plugin_managed srv,
          plugin_fallback_mode := is_plugin_fallback_mode X srv (plugin_fallback_stale_seconds C) utc,
          next_due := if falls_back X C utc srv st then now else next_due st\<rparr>),
     if falls_back X C utc srv st then [(k, now)] else [])"
  by (simp add: update_existing_def falls_back_def Let_def due_unchanged [OF readdress_frame(3), symmetric])

lemma update_existing_spec:
  assumes "update_existing X C r utc now k srv st = (st', reqs)"
  shows "server st' = srv" "key st' = key st" "server_id st' = server_id st" "mirrors st'"
    "next_due st' = (if falls_back X C utc srv st then now else next_due st)"
    "reqs = (if falls_back X C utc srv st then [(k, now)] else [])"
    "moved srv st \<Longrightarrow> emitted_ok st' \<and> \<not> has_emitted_state st'"
    "\<not> moved srv st \<Longrightarrow> has_emitted_state st' = has_emitted_state st \<and> last_obs st' = last_obs st \<and>
       last_emitted_at st' = last_emitted_at st"
proof -
  have st': "st' = fst (update_existing X C r utc now k srv st)" "reqs = snd (update_existing X C r utc now k srv st)"
    using assms by simp_all
  show "server st' = srv" "key st' = key st" "server_id st' = server_id st"
    "next_due st' = (if falls_back X C utc srv st then now else next_due st)"
    "reqs = (if falls_back X C utc srv st then [(k, now)] else [])"
    by (simp_all add: st' update_existing_unfold)
  obtain h pp where h: "parse_address (host_value srv) = (h, pp)" by fastforce
  obtain p bp where p: "resolve_state_ports srv h pp (normalize_edition (get_str ''game_edition'' srv)) = (p, bp)" by fastforce
  show "mirrors st'"
    by (simp add: st' update_existing_unfold mirrors_def h p readdress_address [OF h refl p])
  show "emitted_ok st' \<and> \<not> has_emitted_state st'" if "moved srv st"
    using readdress_moved [OF that, of now] by (simp add: st' update_existing_unfold)
  show "has_emitted_state st' = has_emitted_state st \<and> last_obs st' = last_obs st \<and> last_emitted_at st' = last_emitted_at st"
    if "\<not> moved srv st"
    by (simp add: st' update_existing_unfold readdress_unmoved [OF that])
qed

lemma refresh_server_skip: "server_key X srv = [] \<Longrightarrow> refresh_server X C now srv d acc = acc"
  by (simp add: refresh_server_def split: prod.split)

lemma refresh_server_tracks:
  assumes "refresh_server X C now srv d (m, inc, reqs) = (m', inc', reqs')" and "server_key X srv \<noteq> []"
  obtains st' rs where "m' = hm_insert (server_key X srv) st' m" "inc' = server_key X srv # inc" "reqs' = reqs @ rs"
    "server st' = srv" "mirrors st'"
    "(\<exists>st. hm_get m (server_key X srv) = Some st \<and> key st' = key st \<and> next_due st' = next_due st) \<or>
     (server_key X srv, next_due st') \<in> set rs"
    "\<And>st. hm_get m (server_key X srv) = Some st \<Longrightarrow> key st' = key st"
    "hm_get m (server_key X srv) = None \<Longrightarrow> key st' = server_key X srv"
proof (cases "hm_get m (server_key X srv)")
  case None
  let ?st = "build_state X (rd_due d) (rd_probe d) (rd_utc d) srv now (startup_spread_seconds C)
      (bedrock_probe_interval_seconds C) (plugin_fallback_stale_seconds C)"
  have "m' = hm_insert (server_key X srv) ?st m" "inc' = server_key X srv # inc"
    "reqs' = reqs @ [(server_key X srv, next_due ?st)]"
    using assms None by (auto simp: refresh_server_def Let_def)
  then show thesis by (rule that) (use None in auto)
next
  case (Some st)
  obtain st' rs where u: "update_existing X C (rd_probe d) (rd_utc d) now (server_key X srv) srv st = (st', rs)"
    by fastforce
  have "m' = hm_insert (server_key X srv) st' m" "inc' = server_key X srv # inc" "reqs' = reqs @ rs"
    using assms Some u by (auto simp: refresh_server_def Let_def split: prod.splits)
  then show thesis
    by (rule that) (use update_existing_spec(1-6) [OF u] Some in \<open>auto split: if_splits\<close>)
qed

definition catalog_keys :: "externals \<Rightarrow> json list \<Rightarrow> str set" where
  "catalog_keys X servers = server_key X ` set servers - {[]}"

lemma catalog_keys_simps [simp]:
  "catalog_keys X [] = {}"
  "catalog_keys X (srv # servers) =
     (if server_key X srv = [] then catalog_keys X servers else insert (server_key X srv) (catalog_keys X servers))"
  by (auto simp: catalog_keys_def)

text \<open>A state is tracked under its own key, but for the keys in \<open>F\<close>.\<close>

definition keys_agree :: "str set \<Rightarrow> states \<Rightarrow> bool" where
  "keys_agree F m \<longleftrightarrow> (\<forall>k st. hm_get m k = Some st \<longrightarrow> k \<notin> F \<longrightarrow> key st = k)"

lemma keys_agree_insert [inv_intros]:
  "keys_agree F m \<Longrightarrow> (k \<notin> F \<Longrightarrow> key st = k) \<Longrightarrow> keys_agree F (hm_insert k st m)"
  by (simp add: keys_agree_def)

lemma keys_agree_retain [inv_intros]: "hm_ok m \<Longrightarrow> keys_agree F m \<Longrightarrow> keys_agree F (hm_retain P m)"
  by (auto simp: keys_agree_def hm_get_retain split: option.splits if_splits)

text \<open>One turn of the loop: the entry has no identifier, or its state is inserted.\<close>

lemma refresh_all_Cons:
  assumes "refresh_all X C now (x # L) (m, inc, reqs) = res"
  obtains (skip) "server_key X (fst x) = []" "refresh_all X C now L (m, inc, reqs) = res"
  | (track) st' rs where "server_key X (fst x) \<noteq> []"
    "refresh_all X C now L (hm_insert (server_key X (fst x)) st' m, server_key X (fst x) # inc, reqs @ rs) = res"
    "server st' = fst x" "mirrors st'"
    "(\<exists>st. hm_get m (server_key X (fst x)) = Some st \<and> next_due st' = next_due st) \<or>
     (server_key X (fst x), next_due st') \<in> set rs"
    "\<And>st. hm_get m (server_key X (fst x)) = Some st \<Longrightarrow> key st' = key st"
    "hm_get m (server_key X (fst x)) = None \<Longrightarrow> key st' = server_key X (fst x)"
proof -
  obtain srv d where x: "x = (srv, d)" by (cases x)
  obtain m1 inc1 reqs1 where s: "refresh_server X C now srv d (m, inc, reqs) = (m1, inc1, reqs1)" by (metis prod_cases3)
  have r: "refresh_all X C now L (m1, inc1, reqs1) = res" using assms by (simp add: x s)
  show thesis
  proof (cases "server_key X srv = []")
    case True
    then show thesis using r s by (intro skip) (auto simp: x refresh_server_skip)
  next
    case False
    obtain st' rs where
      st': "m1 = hm_insert (server_key X srv) st' m" "inc1 = server_key X srv # inc" "reqs1 = reqs @ rs"
        "server st' = srv" "mirrors st'"
        "(\<exists>st. hm_get m (server_key X srv) = Some st \<and> key st' = key st \<and> next_due st' = next_due st) \<or>
         (server_key X srv, next_due st') \<in> set rs"
        "\<And>st. hm_get m (server_key X srv) = Some st \<Longrightarrow> key st' = key st"
        "hm_get m (server_key X srv) = None \<Longrightarrow> key st' = server_key X srv"
      by (rule refresh_server_tracks [OF s False]) rule
    have d: "(\<exists>st. hm_get m (server_key X srv) = Some st \<and> next_due st' = next_due st) \<or>
        (server_key X srv, next_due st') \<in> set rs"
      using st'(6) by blast
    show thesis
      by (rule track [of st' rs]) (use r st'(1-5) False d st'(7,8) in \<open>simp_all only: x fst_conv not_False_eq_True\<close>)
  qed
qed

lemma refresh_all_keys:
  assumes "refresh_all X C now L (m, inc, reqs) = (m', inc', reqs')" and "hm_ok m"
  shows "hm_ok m' \<and> set inc' = set inc \<union> catalog_keys X (map fst L) \<and>
    set (hm_keys m') = set (hm_keys m) \<union> catalog_keys X (map fst L) \<and> set reqs \<subseteq> set reqs'"
  using assms
proof (induction L arbitrary: m inc reqs)
  case (Cons x L)
  from Cons.prems(1) show ?case
  proof (cases rule: refresh_all_Cons)
    case skip
    then show ?thesis using Cons.IH Cons.prems(2) by simp
  next
    case (track st' rs)
    then show ?thesis using Cons.IH [OF track(2)] Cons.prems(2) by auto
  qed
qed simp

lemma refresh_all_states:
  assumes "refresh_all X C now L (m, inc, reqs) = (m', inc', reqs')" and "hm_get m' k = Some st'"
  shows "(mirrors st' \<and> server st' \<in> fst ` set L \<and> server_key X (server st') = k) \<or>
    (k \<notin> catalog_keys X (map fst L) \<and> hm_get m k = Some st')"
  using assms
proof (induction L arbitrary: m inc reqs)
  case (Cons x L)
  from Cons.prems(1) show ?case
  proof (cases rule: refresh_all_Cons)
    case skip
    then show ?thesis using Cons.IH Cons.prems(2) by fastforce
  next
    case (track st1 rs)
    then show ?thesis using Cons.IH [OF track(2) Cons.prems(2)] by (auto split: if_splits)
  qed
qed simp

text \<open>Whoever is due at another time than before has been asked for at that time.\<close>

lemma refresh_all_due:
  assumes "refresh_all X C now L (m, inc, reqs) = (m', inc', reqs')" and "hm_ok m" and "hm_get m' k = Some st'"
  shows "(\<exists>st. hm_get m k = Some st \<and> next_due st' = next_due st) \<or> (k, next_due st') \<in> set reqs'"
  using assms
proof (induction L arbitrary: m inc reqs)
  case (Cons x L)
  from Cons.prems(1) show ?case
  proof (cases rule: refresh_all_Cons)
    case skip
    then show ?thesis using Cons.IH Cons.prems(2,3) by simp
  next
    case (track st1 rs)
    let ?m1 = "hm_insert (server_key X (fst x)) st1 m"
    have ok: "hm_ok ?m1" using Cons.prems(2) by simp
    have "set (reqs @ rs) \<subseteq> set reqs'" using refresh_all_keys [OF track(2) ok] by simp
    with Cons.IH [OF track(2) ok Cons.prems(3)] track(5) show ?thesis by (auto split: if_splits)
  qed
qed auto

lemma refresh_all_keys_agree:
  assumes "refresh_all X C now L (m, inc, reqs) = (m', inc', reqs')" and "keys_agree F m"
  shows "keys_agree F m'"
  using assms
proof (induction L arbitrary: m inc reqs)
  case (Cons x L)
  from Cons.prems(1) show ?case
  proof (cases rule: refresh_all_Cons)
    case skip
    then show ?thesis using Cons.IH Cons.prems(2) by blast
  next
    case (track st1 rs)
    let ?k = "server_key X (fst x)"
    have "key st1 = ?k" if "?k \<notin> F"
      using track(6,7) Cons.prems(2) that by (cases "hm_get m ?k") (auto simp: keys_agree_def)
    then show ?thesis using Cons.IH [OF track(2)] Cons.prems(2) by (simp add: inv_intros)
  qed
qed simp

lemma refresh_states_unfold:
  assumes "refresh_states X C draws now servers m = (m', reqs)"
  obtains m1 inc where
    "refresh_all X C now (zip servers (map draws [0..<length servers])) (m, [], []) = (m1, inc, reqs)"
    "m' = hm_retain (\<lambda>k _. k \<in> set inc) m1"
  using assms by (auto simp: refresh_states_def split: prod.splits)

lemma refresh_states_ok [inv_intros]:
  assumes "refresh_states X C draws now servers m = (m', reqs)" and "hm_ok m"
  shows "hm_ok m'" and "keys_agree F m \<Longrightarrow> keys_agree F m'"
proof -
  from assms(1) obtain m1 inc where r: "refresh_all X C now (zip servers (map draws [0..<length servers])) (m, [], []) = (m1, inc, reqs)"
    and m': "m' = hm_retain (\<lambda>k _. k \<in> set inc) m1" by (rule refresh_states_unfold)
  have "hm_ok m1" using refresh_all_keys [OF r assms(2)] by simp
  then show "hm_ok m'" and "keys_agree F m \<Longrightarrow> keys_agree F m'"
    using refresh_all_keys_agree [OF r] by (simp_all add: m' inv_intros)
qed

lemma refresh_states_due:
  assumes "refresh_states X C draws now servers m = (m', reqs)" and "hm_ok m" and "hm_get m' k = Some st'"
  shows "(\<exists>st. hm_get m k = Some st \<and> next_due st' = next_due st) \<or> (k, next_due st') \<in> set reqs"
proof -
  from assms(1) obtain m1 inc where r: "refresh_all X C now (zip servers (map draws [0..<length servers])) (m, [], []) = (m1, inc, reqs)"
    and m': "m' = hm_retain (\<lambda>k _. k \<in> set inc) m1" by (rule refresh_states_unfold)
  have "hm_ok m1" using refresh_all_keys [OF r assms(2)] by simp
  then have "hm_get m1 k = Some st'" using assms(3) by (simp add: m' hm_get_retain split: option.splits if_splits)
  with refresh_all_due [OF r assms(2)] show ?thesis .
qed

lemma refresh_states_tracks:
  assumes "refresh_states X C draws now servers m = (m', reqs)" and "hm_ok m"
  shows "hm_ok m' \<and> set (hm_keys m') = catalog_keys X servers \<and>
    (hm_get m' k = Some st \<longrightarrow> mirrors st \<and> server st \<in> set servers \<and> server_key X (server st) = k)"
proof -
  from assms(1) obtain m1 inc where r: "refresh_all X C now (zip servers (map draws [0..<length servers])) (m, [], []) = (m1, inc, reqs)"
    and m': "m' = hm_retain (\<lambda>k _. k \<in> set inc) m1" by (rule refresh_states_unfold)
  have f: "map fst (zip servers (map draws [0..<length servers])) = servers" by simp
  have fs: "fst ` set (zip servers (map draws [0..<length servers])) = set servers"
    by (metis f set_map)
  from refresh_all_keys [OF r assms(2), unfolded f] have ok: "hm_ok m1"
    and inc: "set inc = catalog_keys X servers" and keys: "set (hm_keys m1) = set (hm_keys m) \<union> catalog_keys X servers"
    by simp_all
  have get: "hm_get m' j = (if j \<in> set inc then hm_get m1 j else None)" for j
    using ok by (simp add: m' hm_get_retain split: option.splits)
  have "set (hm_keys m') = set (hm_keys m1) \<inter> set inc"
    using get by (auto simp: hm_get_None_iff [symmetric] set_eq_iff) (metis hm_get_None_iff option.distinct(1))+
  moreover have "mirrors st \<and> server st \<in> set servers \<and> server_key X (server st) = k" if "hm_get m' k = Some st"
    using that get [of k] refresh_all_states [OF r, of k st, unfolded f fs] inc by (auto split: if_splits)
  ultimately show ?thesis using ok inc keys by (auto simp: m')
qed

text \<open>
  C9: After a refresh exactly the servers of the fetched catalog are tracked, each with the address,
  the ports, the edition and the plugin mode its entry asks for.
\<close>

theorem refresh_tracks_catalog:
  assumes "refresh_states X C draws now servers m = (m', reqs)" and "hm_ok m"
  shows "hm_ok m' \<and> set (hm_keys m') = catalog_keys X servers \<and>
    (hm_get m' k = Some st \<longrightarrow> mirrors st \<and> server st \<in> set servers \<and> server_key X (server st) = k)"
  using assms by (rule refresh_states_tracks)

definition demo_readers :: env_readers where
  "demo_readers = \<lparr>env_str = (\<lambda>_ d. d), env_str_opt = (\<lambda>_. None), env_u64 = (\<lambda>_ d. d),
     env_usize = (\<lambda>_ d. d), env_f64 = (\<lambda>_ d. d), env_u16 = (\<lambda>_ d. d), env_bool = (\<lambda>_ d. d)\<rparr>"

definition demo_settings :: collector_settings where
  "demo_settings = load_collector demo_readers"

definition demo_draws :: refresh_draws where
  "demo_draws = \<lparr>rd_due = (\<lambda>lo hi. lo), rd_probe = (\<lambda>lo hi. lo), rd_utc = 0\<rparr>"

theorem refresh_tracks_catalog_witness:
  "\<exists>m' reqs. refresh_states demo_externals demo_settings (\<lambda>_. demo_draws) 100
       [catalog_item_to_value (demo_catalog_item ''1''), catalog_item_to_value (demo_catalog_item ''2'')]
       [(''9'', demo_state)] = (m', reqs) \<and> set (hm_keys m') = {''1'', ''2''}"
proof -
  obtain m' reqs where r: "refresh_states demo_externals demo_settings (\<lambda>_. demo_draws) 100
       [catalog_item_to_value (demo_catalog_item ''1''), catalog_item_to_value (demo_catalog_item ''2'')]
       [(''9'', demo_state)] = (m', reqs)" by fastforce
  from refresh_tracks_catalog [OF r] have "set (hm_keys m') = {''1'', ''2''}"
    by (auto simp: hm_ok_def demo_catalog_item_def)
  with r show ?thesis by blast
qed

text \<open>
  C26: A server that moved starts over: nothing counts as emitted, so that the next poll reports its
  full state. For any other server the refresh forgets nothing of what was emitted, and a server is
  due earlier only when it has just lost its plugin.
\<close>

theorem moved_server_starts_over:
  assumes "update_existing X C r utc now k srv st = (st', reqs)"
  shows "(if moved srv st then emitted_ok st' \<and> \<not> has_emitted_state st'
      else has_emitted_state st' = has_emitted_state st \<and> last_obs st' = last_obs st) \<and>
    (if falls_back X C utc srv st then next_due st' = now \<and> reqs = [(k, now)]
      else next_due st' = next_due st \<and> reqs = [])"
  using update_existing_spec [OF assms] by auto

theorem moved_server_starts_over_witness:
  "\<exists>st' reqs. update_existing demo_externals demo_settings (\<lambda>lo hi. lo) 0 200 ''srv-1''
     (json_obj [(''id'', JStr ''srv-1''), (''ip_or_domain'', JStr ''other.example.org'')]) demo_state = (st', reqs) \<and>
     \<not> has_emitted_state st'"
proof -
  obtain st' reqs where u: "update_existing demo_externals demo_settings (\<lambda>lo hi. lo) 0 200 ''srv-1''
     (json_obj [(''id'', JStr ''srv-1''), (''ip_or_domain'', JStr ''other.example.org'')]) demo_state = (st', reqs)"
    by fastforce
  from moved_server_starts_over [OF u] have "\<not> has_emitted_state st'" by (auto split: if_splits)
  with u show ?thesis by blast
qed

text \<open>
  C39: A page that cannot be fetched ends the fetching with what came before it, and the refresh takes
  that for the whole catalog: all other servers are forgotten, and the refresh counts as a success.
\<close>

theorem partial_catalog_forgets:
  assumes "auth_channel G (grpc_target (server_cfg S)) (unwrap_or [] (api_token (server_cfg S))) = Channel tg tk"
    and "list_servers svc \<lparr>lr_page = 1, lr_limit = ucast (page_size (collector_cfg S)), lr_role = None\<rparr> =
      Some \<lparr>lr_items = items, lr_total = tot\<rparr>"
    and "items \<noteq> []" and "sint (of_nat (length items) :: i32) < sint tot"
    and "list_servers svc \<lparr>lr_page = 2, lr_limit = ucast (page_size (collector_cfg S)), lr_role = None\<rparr> = None"
    and "list_servers svc \<lparr>lr_page = 1, lr_limit = ucast (page_size (collector_cfg S)), lr_role = Some ''subserver''\<rparr> = None"
    and "hm_ok m"
  shows "\<exists>m' reqs. refresh_servers_once X G svc S draws now m = Some (True, m', reqs) \<and>
    set (hm_keys m') = ci_id ` set items - {[]}"
proof -
  let ?servers = "map catalog_item_to_value items"
  have "fetch_page (list_servers svc) (page_size (collector_cfg S)) None = Some ?servers"
    using assms(2,4,5) by (simp add: fetch_page_def fetch_page_loop.simps [of _ _ None 1] fetch_page_loop.simps [of _ _ None 2])
  moreover have "fetch_page (list_servers svc) (page_size (collector_cfg S)) (Some ''subserver'') = Some []"
    using assms(6) by (simp add: fetch_page_def fetch_page_loop.simps)
  ultimately have fetch: "fetch_servers G svc (server_cfg S) (page_size (collector_cfg S)) = Some ?servers"
    using assms(1) by (simp add: fetch_servers_def)
  obtain m' reqs where r: "refresh_states X (collector_cfg S) draws now ?servers m = (m', reqs)" by fastforce
  have "set (hm_keys m') = ci_id ` set items - {[]}"
    using refresh_states_tracks [OF r assms(7)] by (simp add: catalog_keys_def image_image)
  with fetch r assms(3) show ?thesis by (simp add: refresh_servers_once_def)
qed

definition demo_half_service :: catalog_service where
  "demo_half_service = \<lparr>list_servers = (\<lambda>r. if lr_page r = 1 \<and> lr_role r = None
       then Some \<lparr>lr_items = [demo_catalog_item ''1''], lr_total = 2\<rparr> else None), get_server = (\<lambda>_. None)\<rparr>"

theorem partial_catalog_forgets_witness:
  "\<exists>m' reqs. refresh_servers_once demo_externals demo_toolkit demo_half_service (load demo_readers)
     (\<lambda>_. demo_draws) 100 [(''srv-1'', demo_state)] = Some (True, m', reqs) \<and> hm_get m' ''srv-1'' = None"
proof -
  let ?S = "load demo_readers"
  obtain tg tk where c: "auth_channel demo_toolkit (grpc_target (server_cfg ?S)) (unwrap_or [] (api_token (server_cfg ?S))) =
      Channel tg tk"
    by (simp add: demo_channel)
  have "\<exists>m' reqs. refresh_servers_once demo_externals demo_toolkit demo_half_service ?S
      (\<lambda>_. demo_draws) 100 [(''srv-1'', demo_state)] = Some (True, m', reqs) \<and>
      set (hm_keys m') = ci_id ` set [demo_catalog_item ''1''] - {[]}"
    by (rule partial_catalog_forgets [OF c, where tot = 2]) (simp_all add: demo_half_service_def hm_ok_def)
  then show ?thesis by (auto simp: hm_get_None_iff demo_catalog_item_def)
qed

subsection \<open>The trigger file and the queues\<close>

lemma due_now_frame [simp]:
  "due_now now (due_now t st) = due_now now st" "key (due_now now st) = key st" "next_due (due_now now st) = now"
  by (simp_all add: due_now_def)

lemma keys_agree_due_now [inv_intros]:
  "keys_agree F m \<Longrightarrow> hm_get m k = Some st \<Longrightarrow> keys_agree F (hm_insert k (due_now now st) m)"
  by (auto simp: keys_agree_def due_now_def)

lemma trigger_ids_get:
  assumes "trigger_ids now ids m = (m', reqs)"
  shows "hm_get m' k = (if k \<in> set ids then map_option (due_now now) (hm_get m k) else hm_get m k)"
    and "hm_ok m \<Longrightarrow> hm_ok m'"
    and "\<And>st. k \<in> set ids \<Longrightarrow> hm_get m k = Some st \<Longrightarrow> (key st, now) \<in> set reqs"
  using assms
proof (induction ids arbitrary: m m' reqs)
  case (Cons i ids)
  {
    case 1
    then show ?case
      using Cons.IH(1) by (auto split: option.splits prod.splits if_splits simp: option.map_comp comp_def)
  next
    case 2
    then show ?case by (auto split: option.splits prod.splits intro: Cons.IH(2) Cons.IH(2) [OF hm_ok_insert])
  next
    case (3 st)
    show ?case
    proof (cases "k = i")
      case True
      then show ?thesis using 3 by (auto split: prod.splits)
    next
      case False
      show ?thesis
      proof (cases "hm_get m i")
        case None
        then show ?thesis using 3 False Cons.IH(3) [of m st m' reqs] by simp
      next
        case (Some x)
        then obtain reqs' where "trigger_ids now ids (hm_insert i (due_now now x) m) = (m', reqs')" "reqs = (key x, now) # reqs'"
          using 3(3) by (auto split: prod.splits)
        then show ?thesis using 3 False Cons.IH(3) [of "hm_insert i (due_now now x) m" st m' reqs'] by auto
      qed
    qed
  }
qed simp_all

definition targeted :: "str list option \<Rightarrow> str \<Rightarrow> bool" where
  "targeted targets k \<longleftrightarrow> (case targets of None \<Rightarrow> True | Some ids \<Rightarrow> k \<in> set ids)"

lemma hm_ok_map_values [simp]: "hm_ok (map (\<lambda>(k, v). (k, f v)) m) = hm_ok m"
  by (simp add: hm_ok_def comp_def case_prod_beta')

lemma hm_get_map_values [simp]: "hm_get (map (\<lambda>(k, v). (k, f v)) m) k = map_option f (hm_get m k)"
  by (simp add: hm_get_def map_of_map)

lemma trigger_targets_spec:
  assumes "trigger_targets now targets m = (m', reqs)"
  shows "hm_get m' k = (if targeted targets k then map_option (due_now now) (hm_get m k) else hm_get m k)"
    and "hm_ok m \<Longrightarrow> hm_ok m'"
    and "targeted targets k \<Longrightarrow> hm_get m k = Some st \<Longrightarrow> (key st, now) \<in> set reqs"
proof -
  show "hm_get m' k = (if targeted targets k then map_option (due_now now) (hm_get m k) else hm_get m k)"
    "hm_ok m \<Longrightarrow> hm_ok m'"
    using assms trigger_ids_get(1,2) [of now _ m m' reqs]
    by (auto simp: trigger_targets_def targeted_def split: option.splits)
  show "targeted targets k \<Longrightarrow> hm_get m k = Some st \<Longrightarrow> (key st, now) \<in> set reqs"
    using assms trigger_ids_get(3) [of now _ m m' reqs k st]
    by (force simp: trigger_targets_def targeted_def hm_get_def dest: map_of_SomeD split: option.splits)
qed

lemma trigger_targets_keys_agree [inv_intros]:
  "trigger_targets now targets m = (m', reqs) \<Longrightarrow> keys_agree F m \<Longrightarrow> keys_agree F m'"
  unfolding keys_agree_def using trigger_targets_spec(1) [of now targets m m' reqs]
  by (auto split: if_splits)

text \<open>
  A trigger makes the servers it names due now, all of them when it names none, and asks for each
  of these polls; no other server is touched, and unknown identifiers are ignored.
\<close>

theorem trigger_makes_due:
  assumes "trigger_targets now targets m = (m', reqs)" and "keys_agree {} m"
  shows "hm_get m' k =
      (if targeted targets k then map_option (\<lambda>st. st\<lparr>next_due := now\<rparr>) (hm_get m k) else hm_get m k) \<and>
    (targeted targets k \<longrightarrow> hm_get m k \<noteq> None \<longrightarrow> (k, now) \<in> set reqs)"
  using trigger_targets_spec(1,3) [OF assms(1), of k] assms(2)
  by (auto simp: keys_agree_def due_now_def [abs_def])

theorem trigger_makes_due_witness:
  "\<exists>m' reqs. trigger_targets 7 None [(''srv-1'', demo_state)] = (m', reqs) \<and> (''srv-1'', 7) \<in> set reqs \<and>
     (\<exists>st. hm_get m' ''srv-1'' = Some st \<and> next_due st = 7)"
proof -
  have "keys_agree {} [(''srv-1'', demo_state)]"
    by (auto simp: keys_agree_def hm_get_def demo_state_def demo_catalog_def server_key_def)
  from trigger_makes_due [OF _ this, of 7 None _ _ "''srv-1''"] show ?thesis
    by (auto simp: trigger_targets_def targeted_def hm_get_def due_now_def)
qed

text \<open>Identifiers as decimal numbers, with commas or blanks between them.\<close>

lemma words_of_run:
  "\<forall>c\<in>set x. \<not> is_whitespace [c] \<Longrightarrow> words_of (map (\<lambda>c. [c]) x @ cs) acc = words_of cs (acc @ x)"
  by (induction x arbitrary: acc) auto

definition numeric :: "str \<Rightarrow> bool" where
  "numeric s \<longleftrightarrow> s \<noteq> [] \<and> (\<forall>c\<in>set s. is_digit c)"

lemma digit_not_white [simp]: "is_digit c \<Longrightarrow> \<not> is_whitespace [c]"
  by (auto simp: is_whitespace_def dest!: is_digit_ascii)

lemma words_of_join:
  "\<forall>x\<in>set ids. numeric x \<Longrightarrow> words_of (map (\<lambda>c. [c]) (join '' '' ids)) [] = ids"
proof (induction ids rule: induct_list012)
  case (2 x)
  then show ?case using words_of_run [of x "[]" "[]"] by (simp add: numeric_def)
next
  case (3 x y zs)
  have "is_whitespace '' ''" by (simp add: is_whitespace_def)
  with 3 words_of_run [of x "map (\<lambda>c. [c]) ('' '' @ join '' '' (y # zs))" "[]"] show ?case
    by (simp add: numeric_def)
qed simp

definition ids_text :: "char \<Rightarrow> str list \<Rightarrow> str" where
  "ids_text sep ids = join [sep] ids"

lemma ids_text_chars:
  assumes "\<forall>x\<in>set ids. numeric x" and "c \<in> set (ids_text sep ids)"
  shows "is_digit c \<or> c = sep"
  using assms set_join [of "[sep]" ids] by (fastforce simp: ids_text_def numeric_def)

lemma ids_text_ascii:
  assumes "\<forall>x\<in>set ids. numeric x" and "sep = CHR '','' \<or> sep = CHR '' ''" and "c \<in> set (ids_text sep ids)"
  shows "(of_char c :: nat) < 128"
proof -
  have "is_digit c \<or> c = sep" using ids_text_chars [OF assms(1,3)] .
  then show ?thesis
  proof
    assume "is_digit c"
    then show ?thesis using is_digit_ascii [of c] by linarith
  qed (use assms(2) in auto)
qed

lemma ids_text_ends:
  assumes "\<forall>x\<in>set ids. numeric x" and "ids \<noteq> []"
  shows "ids_text sep ids \<noteq> [] \<and> is_digit (hd (ids_text sep ids)) \<and> is_digit (last (ids_text sep ids))"
  using assms unfolding ids_text_def
proof (induction ids rule: induct_list012)
  case (3 x y zs)
  then show ?case by (auto simp: numeric_def)
qed (auto simp: numeric_def)

lemma trim_ends:
  assumes "\<forall>c\<in>set s. (of_char c :: nat) < 128" and "s \<noteq> []" and "\<not> is_whitespace [hd s]" and "\<not> is_whitespace [last s]"
  shows "trim s = s"
proof -
  have c: "chars s = map (\<lambda>c. [c]) s" using assms(1) by (rule chars_ascii)
  have "trim_start s = concat (dropWhile is_whitespace (map (\<lambda>c. [c]) s))" by (simp only: trim_start_def c)
  also have "\<dots> = s" using assms(2,3) by (cases s) (simp_all del: chars.simps)
  finally have "trim_start s = s" .
  moreover have "trim_end s = concat (rev (dropWhile is_whitespace (rev (map (\<lambda>c. [c]) s))))"
    by (simp only: trim_end_def c)
  moreover have "\<dots> = s" using assms(2,4) by (cases s rule: rev_cases) (simp_all del: chars.simps)
  ultimately show ?thesis by (simp add: trim_def)
qed

lemma comma_no_digit [simp]: "\<not> is_digit (CHR '','')"
  by (simp add: is_digit_def)

lemma replace_char_ids: "\<forall>x\<in>set ids. numeric x \<Longrightarrow> replace_char (CHR '','') (CHR '' '') (ids_text (CHR '','') ids) = ids_text (CHR '' '') ids"
  "\<forall>x\<in>set ids. numeric x \<Longrightarrow> replace_char (CHR '','') (CHR '' '') (ids_text (CHR '' '') ids) = ids_text (CHR '' '') ids"
proof -
  have d: "map (\<lambda>c. if c = CHR '','' then CHR '' '' else c) x = x" if "numeric x" for x
    using that by (intro map_idI) (auto simp: numeric_def)
  show "\<forall>x\<in>set ids. numeric x \<Longrightarrow> replace_char (CHR '','') (CHR '' '') (ids_text (CHR '','') ids) = ids_text (CHR '' '') ids"
    "\<forall>x\<in>set ids. numeric x \<Longrightarrow> replace_char (CHR '','') (CHR '' '') (ids_text (CHR '' '') ids) = ids_text (CHR '' '') ids"
    unfolding ids_text_def replace_char_def by (induction ids rule: induct_list012) (auto simp: d)
qed

lemma trigger_ids_parsed:
  assumes "\<forall>x\<in>set ids. numeric x" and "sep = CHR '','' \<or> sep = CHR '' ''"
  shows "parse_trigger_content X (ids_text sep ids) = Some ids"
proof (cases "ids = []")
  case True
  then show ?thesis by (simp add: ids_text_def parse_trigger_content_def)
next
  case False
  let ?s = "ids_text sep ids"
  have ends: "?s \<noteq> []" "is_digit (hd ?s)" "is_digit (last ?s)" using ids_text_ends [OF assms(1) False] by simp_all
  have ascii: "\<forall>c\<in>set ?s. (of_char c :: nat) < 128" using ids_text_ascii [OF assms] by blast
  then have c: "chars ?s = map (\<lambda>c. [c]) ?s" by (rule chars_ascii)
  have t: "trim ?s = ?s" using trim_ends [OF ascii] ends by simp
  obtain a r where s: "?s = a # r" and a: "is_digit a" using ends by (cases ?s) auto
  have "lower_char [a] = [ascii_lower a]" using is_digit_ascii [OF a] by (auto simp: lower_char_def)
  then have "to_lowercase ?s = a # concat (map lower_char (map (\<lambda>c. [c]) r))"
    using a unfolding to_lowercase_def c unfolding s by (simp add: ascii_lower_digit)
  then have l: "to_lowercase ?s \<noteq> ''all''" "to_lowercase ?s \<noteq> ''*''" using a by (auto simp: is_digit_def)
  have p: "\<not> prefix ''{'' ?s" "\<not> prefix ''['' ?s" using a unfolding s by (auto simp: is_digit_def)
  have "split_ids ?s = ids"
  proof -
    have "chars (ids_text (CHR '' '') ids) = map (\<lambda>c. [c]) (ids_text (CHR '' '') ids)"
      using ids_text_ascii [OF assms(1), of "CHR '' ''"] by (intro chars_ascii) blast
    moreover have "filter (\<lambda>s. s \<noteq> []) ids = ids" using assms(1) by (auto simp: numeric_def intro: filter_True)
    ultimately show ?thesis
      using assms replace_char_ids [OF assms(1)]
      by (auto simp: split_ids_def split_whitespace_def words_of_join ids_text_def)
  qed
  then show ?thesis using ends(1) l p by (simp add: parse_trigger_content_def t Let_def)
qed

text \<open>
  A trigger file with numeric identifiers, separated by commas or by blanks, names exactly these
  servers; an empty one names none.
\<close>

theorem trigger_text_roundtrip:
  assumes "\<forall>x\<in>set ids. numeric x" and "sep = CHR '','' \<or> sep = CHR '' ''"
  shows "parse_trigger_content X (ids_text sep ids) = Some ids"
  using assms by (rule trigger_ids_parsed)

theorem trigger_text_roundtrip_witness:
  "parse_trigger_content demo_externals ''10,20,3'' = Some [''10'', ''20'', ''3'']"
  using trigger_text_roundtrip [of "[''10'', ''20'', ''3'']" "CHR '',''" demo_externals]
  by (simp add: numeric_def is_digit_def ids_text_def)

lemma probe_response_reads [simp]:
  "get_str ''candidate_id'' (probe_response req res t ms) = Some (pq_candidate_id req)"
  "get_str ''host'' (probe_response req res t ms) = Some (pq_host req)"
  "get ''status_ok'' (probe_response req res t ms) = Some (JBool (pr_status_ok res))"
  "get ''error'' (probe_response req res t ms) =
     Some (if pr_status_ok res then JNull else JStr ''probe failed'')"
  by (simp_all add: probe_response_def get_str_def Let_def)

text \<open>
  Every discovery request that names a candidate and a host is answered: under the key made of the
  prefix and the candidate, for at least a minute, with the status of the poll and an error exactly
  when it failed; numbers come from the poll's payload. This needs timeouts that are \<open>Duration\<close>s.
\<close>

theorem discovery_is_answered:
  assumes "ping_target reply = Some raw" and "decode raw = Some req"
    and "trim (pq_candidate_id req) \<noteq> []" and "trim (pq_host req) \<noteq> []"
    and "\<And>v. json_to_vec X v \<noteq> None"
    and "duration_from_secs (status_timeout_seconds C) \<noteq> None" and "duration_from_secs (lookup_timeout cache) \<noteq> None"
  shows "\<exists>body ttl v result cache' calls.
    discovery_probe_once X decode C env genv cache t probed_at ms reply =
      (Answer (trim (discovery_probe_result_key_prefix C) @ pq_candidate_id req, body, ttl), cache') \<and>
    60 \<le> ttl \<and> json_to_vec X v = Some body \<and>
    poll_server env genv cache t (pq_candidate_id req) (trim (pq_host req)) (pq_port req)
      (probe_edition (pq_edition req)) (status_timeout_seconds C) = (Some result, cache', calls) \<and>
    get_str ''candidate_id'' v = Some (pq_candidate_id req) \<and> get_str ''host'' v = Some (trim (pq_host req)) \<and>
    Option.bind (get ''status_ok'' v) as_bool = Some (pr_status_ok result) \<and>
    (get ''error'' v = Some JNull \<longleftrightarrow> pr_status_ok result)"
proof -
  let ?req = "req\<lparr>pq_host := trim (pq_host req)\<rparr>"
  obtain result cache' calls where p: "poll_server env genv cache t (pq_candidate_id req) (trim (pq_host req)) (pq_port req)
      (probe_edition (pq_edition req)) (status_timeout_seconds C) = (Some result, cache', calls)"
    by (rule poll_server_returns [OF assms(6,7)])
  obtain body where b: "json_to_vec X (probe_response ?req result probed_at ms) = Some body" using assms(5) by blast
  have "accept_probe decode reply = Some ?req" using assms(1-4) by (simp add: accept_probe_def Let_def)
  then show ?thesis
    using p b by (intro exI [of _ body] exI [of _ "max (discovery_probe_result_ttl_seconds C) 60"]
        exI [of _ "probe_response ?req result probed_at ms"] exI [of _ result] exI [of _ cache'] exI [of _ calls])
      (simp add: discovery_probe_once_def)
qed

definition demo_request :: probe_request where
  "demo_request = \<lparr>pq_candidate_id = ''c1'', pq_host = ''mc.example.org'', pq_port = None, pq_edition = Some ''Bedrock''\<rparr>"

lemma demo_status_timeout: "duration_from_secs (status_timeout_seconds demo_settings) \<noteq> None"
  by (simp add: demo_settings_def load_collector_def demo_readers_def chain_def duration_from_secs_def)

lemma demo_geo_cache_timeout: "duration_from_secs (lookup_timeout demo_geo_cache) \<noteq> None"
  by (simp add: demo_geo_cache_def geo_new_def duration_from_secs_def)

theorem discovery_is_answered_witness:
  "\<exists>body ttl cache'. discovery_probe_once (demo_externals\<lparr>json_to_vec := \<lambda>_. Some []\<rparr>) (\<lambda>_. Some demo_request)
     demo_settings demo_poll_env (demo_geo_env 0) demo_geo_cache ''now'' ''now'' 3 (Popped ''x'') =
     (Answer (trim (discovery_probe_result_key_prefix demo_settings) @ ''c1'', body, ttl), cache') \<and> 60 \<le> ttl"
proof -
  have t: "trim ''x'' = ''x''" "trim ''c1'' = ''c1''" "trim ''mc.example.org'' = ''mc.example.org''"
    by (rule trim_ends; simp add: is_whitespace_def)+
  then have "ping_target (Popped ''x'') = Some ''x''" by (simp add: ping_target_def)
  from discovery_is_answered [OF this, of "\<lambda>_. Some demo_request" demo_request
      "demo_externals\<lparr>json_to_vec := \<lambda>_. Some []\<rparr>" demo_settings demo_geo_cache demo_poll_env "demo_geo_env 0"
      "''now''" "''now''" 3] t
  show ?thesis by (simp add: demo_request_def demo_status_timeout demo_geo_cache_timeout [simplified]) blast
qed

end
