(* ===== verification/Worker.thy ===== *)
theory Worker
  imports Sync
begin

text \<open>
  The polling half of \<open>src/src/collector.rs\<close>: the check of a due key before it is handed to the
  workers, and \<open>process_work_item\<close>, split where it gives the lock on the states back: the snapshot
  (\<open>work_begin\<close>), the postponement of an internal host (\<open>skip_internal\<close>), and what follows the poll
  (\<open>finish_work\<close>). The poll itself (\<open>poll_server\<close> in \<open>Ping\<close>) runs without the lock.
\<close>

subsection \<open>Dispatch\<close>

text \<open>A due key is passed on only when its state is still due at that time.\<close>

definition still_due :: "states \<Rightarrow> str \<Rightarrow> f64 \<Rightarrow> bool" where
  "still_due m k d = (case hm_get m k of Some st \<Rightarrow> next_due st = d | None \<Rightarrow> False)"

subsection \<open>Before the poll\<close>

record work_snapshot =
  ws_host :: str
  ws_port :: "u16 option"
  ws_edition :: edition
  ws_plugin_managed :: bool
  ws_plugin_fallback_mode :: bool
  ws_server_id :: str

datatype work_plan = Gone | Skip_internal | Poll work_snapshot

definition snapshot_of :: "server_state \<Rightarrow> work_snapshot" where
  "snapshot_of st =
     \<lparr>ws_host = host st, ws_port = port st, ws_edition = edition st, ws_plugin_managed = plugin_managed st,
      ws_plugin_fallback_mode = plugin_fallback_mode st, ws_server_id = server_id st\<rparr>"

definition work_begin :: "states \<Rightarrow> str \<Rightarrow> work_plan" where
  "work_begin m k =
     (case hm_get m k of
        None \<Rightarrow> Gone
      | Some st \<Rightarrow>
          (let snap = snapshot_of st in
           if ws_plugin_managed snap \<and> is_internal_only_host (ws_host snap) then Skip_internal else Poll snap))"

definition skip_internal :: "collector_settings \<Rightarrow> rng \<Rightarrow> f64 \<Rightarrow> str \<Rightarrow> states \<Rightarrow> states \<times> requests" where
  "skip_internal C r now k m =
     (case hm_get m k of
        None \<Rightarrow> (m, [])
      | Some st \<Rightarrow>
          (let plugin_interval = f64_of_u64 (plugin_compare_interval_seconds C);
               jitter = r (- (1 / 10)) (1 / 10) * plugin_interval;
               due = now + max (plugin_interval + jitter) 60
           in (hm_insert k (st\<lparr>next_due := due\<rparr>) m, [(k, due)])))"

subsection \<open>After the poll\<close>

definition note_outcome :: "bool \<Rightarrow> server_state \<Rightarrow> server_state" where
  "note_outcome status_ok st =
     (if status_ok then st\<lparr>has_succeeded := True, consecutive_failures := 0\<rparr>
      else
        (let st1 = st\<lparr>consecutive_failures := consecutive_failures st + 1\<rparr> in
         if \<not> has_succeeded st1 then st1\<lparr>initial_failures := initial_failures st1 + 1\<rparr> else st1))"

definition poll_interval :: "collector_settings \<Rightarrow> bool \<Rightarrow> bool \<Rightarrow> bool \<Rightarrow> server_state \<Rightarrow> f64" where
  "poll_interval C managed fallback status_ok st =
     (let online_interval = f64_of_u64 (online_interval_seconds C);
          offline_interval = f64_of_u64 (offline_interval_seconds C);
          plugin_interval = f64_of_u64 (plugin_compare_interval_seconds C);
          max_slow_interval = f64_of_u64 (initial_failure_max_interval_seconds C)
      in if managed \<and> \<not> fallback then plugin_interval
         else
           (let iv = (if status_ok then online_interval else offline_interval) in
            if \<not> status_ok \<and> \<not> has_succeeded st \<and> initial_failures_before_slowdown C \<le> initial_failures st then
              (let slowed = max (offline_interval * initial_failure_slowdown_multiplier C) offline_interval
               in min slowed max_slow_interval)
            else iv))"

text \<open>
  What happens outside while the lock is held: the Bedrock probe, the answers of the server service,
  the draws, and the two readings of the scheduler's clock.
\<close>

record work_env =
  we_udp :: udp_net
  we_millis :: nat
  we_guid :: i64
  we_edition_api :: server_api
  we_favicon_api :: server_api
  we_probe_draw :: rng
  we_due_draw :: rng
  we_now_due :: f64
  we_now_emit :: f64

text \<open>The stretch under the lock for a server that is still there.\<close>

definition finish_state ::
  "externals \<Rightarrow> collector_settings \<Rightarrow> work_env \<Rightarrow> work_snapshot \<Rightarrow> poll_result \<Rightarrow> server_state
   \<Rightarrow> server_state \<times> json option \<times> api_call list" where
  "finish_state X C e snap result st =
     (let status_ok = pr_status_ok result;
          st1 = note_outcome status_ok st;
          (st2, _, calls1) = maybe_probe_bedrock (we_udp e) (we_millis e) (we_guid e) (we_edition_api e) (we_probe_draw e)
            (bedrock_probe_interval_seconds C) (bedrock_probe_jitter_seconds C) st1;
          (st3, calls2) = (if pr_favicon result \<noteq> []
            then maybe_update_favicon X (we_favicon_api e) st2 (pr_favicon result) else (st2, []));
          interval = poll_interval C (ws_plugin_managed snap) (ws_plugin_fallback_mode snap) status_ok st3;
          jitter = we_due_draw e (- (1 / 10)) (1 / 10) * interval;
          st4 = st3\<lparr>next_due := we_now_due e + max (interval + jitter) 1\<rparr>
      in if ws_plugin_managed snap \<and> \<not> ws_plugin_fallback_mode snap \<and> \<not> status_ok
         then (st4, None, calls1 @ calls2)
         else
           (case build_change_payload X st4 (pr_payload result) status_ok (we_now_emit e)
                   (f64_of_u64 (heartbeat_interval_seconds C)) of
              (st5, payload) \<Rightarrow> (st5, payload, calls1 @ calls2)))"

text \<open>\<open>try_send\<close> on the bounded channel of rows: a row that finds it full is dropped.\<close>

definition offer :: "nat \<Rightarrow> json option \<Rightarrow> json list \<Rightarrow> json list" where
  "offer capacity payload queue =
     (case payload of
        None \<Rightarrow> queue
      | Some v \<Rightarrow> if length queue < capacity then queue @ [v] else queue)"

definition finish_work ::
  "externals \<Rightarrow> collector_settings \<Rightarrow> work_env \<Rightarrow> work_snapshot \<Rightarrow> poll_result \<Rightarrow> str \<Rightarrow> states \<times> json list
   \<Rightarrow> (states \<times> json list) \<times> requests \<times> api_call list" where
  "finish_work X C e snap result k mq =
     (case mq of (m, queue) \<Rightarrow>
       case hm_get m k of
         None \<Rightarrow> ((m, queue), [], [])
       | Some st \<Rightarrow>
           (case finish_state X C e snap result st of
              (st', payload, calls) \<Rightarrow>
                ((hm_insert k st' m, offer (result_queue_maxsize C) payload queue),
                 [(k, next_due st')], calls)))"

text \<open>
  The whole item when no other task runs in between; the second component is \<^const>\<open>None\<close> for an item whose poll
  panics, which is the end of its worker.
\<close>

definition process_work_item ::
  "externals \<Rightarrow> collector_settings \<Rightarrow> work_env \<Rightarrow> poll_env \<Rightarrow> geo_env \<Rightarrow> str \<Rightarrow> str \<Rightarrow> geo_cache \<times> states \<times> json list
   \<Rightarrow> (geo_cache \<times> states \<times> json list) \<times> (requests \<times> api_call list) option" where
  "process_work_item X C e penv genv collected_at k s =
     (case s of (cache, m, queue) \<Rightarrow>
       case work_begin m k of
         Gone \<Rightarrow> ((cache, m, queue), Some ([], []))
       | Skip_internal \<Rightarrow>
           (case skip_internal C (we_due_draw e) (we_now_due e) k m of
              (m', reqs) \<Rightarrow> ((cache, m', queue), Some (reqs, [])))
       | Poll snap \<Rightarrow>
           (case poll_server penv genv cache collected_at (ws_server_id snap) (ws_host snap) (ws_port snap)
                   (ws_edition snap) (status_timeout_seconds C) of
              (None, cache', _) \<Rightarrow> ((cache', m, queue), None)
            | (Some result, cache', _) \<Rightarrow>
                (case finish_work X C e snap result k (m, queue) of
                   ((m', queue'), reqs, calls) \<Rightarrow> ((cache', m', queue'), Some (reqs, calls)))))"

subsection \<open>Frames\<close>

lemma note_outcome_frame [simp]:
  "key (note_outcome ok st) = key st" "server_id (note_outcome ok st) = server_id st"
  "next_due (note_outcome ok st) = next_due st"
  by (simp_all add: note_outcome_def Let_def)

definition same_counters :: "server_state \<Rightarrow> server_state \<Rightarrow> bool" where
  "same_counters st st' \<longleftrightarrow> key st' = key st \<and> server_id st' = server_id st \<and> has_succeeded st' = has_succeeded st \<and>
     initial_failures st' = initial_failures st \<and> last_obs st' = last_obs st \<and>
     has_emitted_state st' = has_emitted_state st \<and> last_emitted_at st' = last_emitted_at st"

lemma same_counters_refl [simp]: "same_counters st st"
  by (simp add: same_counters_def)

lemma same_counters_trans: "same_counters st st' \<Longrightarrow> same_counters st' st'' \<Longrightarrow> same_counters st st''"
  by (simp add: same_counters_def)

lemma maybe_probe_bedrock_frame:
  "maybe_probe_bedrock net ms g api r iv j st = (st', b, calls) \<Longrightarrow> same_counters st st'"
  by (auto simp: maybe_probe_bedrock_def same_counters_def last_obs_def Let_def split: if_splits option.splits prod.splits)

lemma maybe_update_favicon_frame:
  "maybe_update_favicon X api st fav = (st', calls) \<Longrightarrow> same_counters st st'"
  by (auto simp: maybe_update_favicon_def same_counters_def last_obs_def split: if_splits option.splits)

lemma poll_interval_counters: "same_counters st st' \<Longrightarrow> poll_interval C mg fb ok st' = poll_interval C mg fb ok st"
  by (simp add: poll_interval_def same_counters_def Let_def)

lemma build_change_payload_frame:
  "build_change_payload X st payload ok now hb = (st', p) \<Longrightarrow> key st' = key st \<and> next_due st' = next_due st"
  by (cases rule: build_change_payload_cases [of st X payload ok now hb]) auto

text \<open>The state a poll leaves, up to the emitted fields.\<close>

lemma finish_stateE:
  assumes "finish_state X C e snap result st = (st', payload, calls)"
  obtains st3 where "same_counters (note_outcome (pr_status_ok result) st) st3"
    "let interval = poll_interval C (ws_plugin_managed snap) (ws_plugin_fallback_mode snap) (pr_status_ok result)
           (note_outcome (pr_status_ok result) st);
         st4 = st3\<lparr>next_due := we_now_due e + max (interval + we_due_draw e (- (1 / 10)) (1 / 10) * interval) 1\<rparr>
     in if ws_plugin_managed snap \<and> \<not> ws_plugin_fallback_mode snap \<and> \<not> pr_status_ok result
        then st' = st4 \<and> payload = None
        else build_change_payload X st4 (pr_payload result) (pr_status_ok result) (we_now_emit e)
               (f64_of_u64 (heartbeat_interval_seconds C)) = (st', payload)"
proof -
  let ?st1 = "note_outcome (pr_status_ok result) st"
  obtain st2 b calls1 where p: "maybe_probe_bedrock (we_udp e) (we_millis e) (we_guid e) (we_edition_api e)
      (we_probe_draw e) (bedrock_probe_interval_seconds C) (bedrock_probe_jitter_seconds C) ?st1 = (st2, b, calls1)"
    by (metis prod_cases3)
  obtain st3 calls2 where f: "(if pr_favicon result \<noteq> []
      then maybe_update_favicon X (we_favicon_api e) st2 (pr_favicon result) else (st2, [])) = (st3, calls2)"
    by fastforce
  have c: "same_counters ?st1 st3"
    using maybe_probe_bedrock_frame [OF p] maybe_update_favicon_frame [of X "we_favicon_api e" st2 "pr_favicon result" st3 calls2] f
    by (auto intro: same_counters_trans split: if_splits)
  show thesis
    by (rule that [OF c])
      (use assms in \<open>auto simp: finish_state_def p f poll_interval_counters [OF c] Let_def split: if_splits prod.splits\<close>)
qed

lemma build_row_at:
  "build_change_payload X st payload ok now hb = (st', Some row) \<Longrightarrow> last_emitted_at st' = Some now"
  by (cases rule: build_change_payload_cases [of st X payload ok now hb]) auto

lemma build_change_payload_ids:
  "build_change_payload X st payload ok now hb = (st', p) \<Longrightarrow> server_id st' = server_id st \<and>
    (\<forall>row. p = Some row \<longrightarrow> get_str ''server_id'' row = Some (server_id st))"
  by (cases rule: build_change_payload_cases [of st X payload ok now hb]) auto

text \<open>
  The comparison with what was emitted last: it is left out for a failed poll of a server that its plugin
  manages, and otherwise made on a state that claims what the old one did.
\<close>

lemma finish_state_compares:
  assumes "finish_state X C e snap result st = (st', payload, calls)"
  obtains st4 where "server_id st4 = server_id st" "last_obs st4 = last_obs st"
    "has_emitted_state st4 = has_emitted_state st" "last_emitted_at st4 = last_emitted_at st"
    "if ws_plugin_managed snap \<and> \<not> ws_plugin_fallback_mode snap \<and> \<not> pr_status_ok result
     then st' = st4 \<and> payload = None
     else build_change_payload X st4 (pr_payload result) (pr_status_ok result) (we_now_emit e)
            (f64_of_u64 (heartbeat_interval_seconds C)) = (st', payload)"
proof (rule finish_stateE [OF assms])
  let ?st1 = "note_outcome (pr_status_ok result) st"
  have n: "has_emitted_state ?st1 = has_emitted_state st" "last_obs ?st1 = last_obs st"
    "last_emitted_at ?st1 = last_emitted_at st"
    by (simp_all add: note_outcome_def last_obs_def Let_def)
  fix st3
  assume c: "same_counters ?st1 st3"
    and b: "let interval = poll_interval C (ws_plugin_managed snap) (ws_plugin_fallback_mode snap) (pr_status_ok result) ?st1;
         st4 = st3\<lparr>next_due := we_now_due e + max (interval + we_due_draw e (- (1 / 10)) (1 / 10) * interval) 1\<rparr>
     in if ws_plugin_managed snap \<and> \<not> ws_plugin_fallback_mode snap \<and> \<not> pr_status_ok result
        then st' = st4 \<and> payload = None
        else build_change_payload X st4 (pr_payload result) (pr_status_ok result) (we_now_emit e)
               (f64_of_u64 (heartbeat_interval_seconds C)) = (st', payload)"
  have keeps: "server_id (st3\<lparr>next_due := d\<rparr>) = server_id st" "last_obs (st3\<lparr>next_due := d\<rparr>) = last_obs st"
    "has_emitted_state (st3\<lparr>next_due := d\<rparr>) = has_emitted_state st"
    "last_emitted_at (st3\<lparr>next_due := d\<rparr>) = last_emitted_at st" for d
    using c n by (simp_all add: same_counters_def last_obs_def)
  show thesis by (rule that [OF keeps b [unfolded Let_def]])
qed

text \<open>What the emitted fields become: either nothing is emitted and they stay, or the row shows them.\<close>

lemma finish_state_emits:
  assumes "finish_state X C e snap result st = (st', payload, calls)"
  shows "server_id st' = server_id st"
    "payload = None \<Longrightarrow> last_obs st' = last_obs st \<and> has_emitted_state st' = has_emitted_state st \<and>
       last_emitted_at st' = last_emitted_at st"
    "payload = Some row \<Longrightarrow> row_shows X row (last_obs st') \<and> get_str ''server_id'' row = Some (server_id st) \<and>
       last_emitted_at st' = Some (we_now_emit e)"
  by (rule finish_state_compares [OF assms];
      auto dest: build_quiet_same build_row_shows build_change_payload_ids build_row_at split: if_splits)+

text \<open>
  What a poll leaves behind, unless it is a failed one of a server that its plugin manages: the fields that
  count as emitted are those of its own payload.
\<close>

lemma finish_state_observes:
  assumes "finish_state X C e snap result st = (st', payload, calls)"
    and "pr_status_ok result \<or> \<not> ws_plugin_managed snap \<or> ws_plugin_fallback_mode snap"
  shows "has_emitted_state st' \<and> last_obs st' = snd (current_obs X st' (pr_payload result) (pr_status_ok result))"
  by (rule finish_state_compares [OF assms(1)])
    (use assms(2) in \<open>auto dest: has_emitted_after_build obs_after_build split: if_splits\<close>)

text \<open>Nothing is emitted only when nothing has changed and no heartbeat is due.\<close>

lemma finish_state_quiet:
  assumes "finish_state X C e snap result st = (st', None, calls)"
    and "pr_status_ok result \<or> \<not> ws_plugin_managed snap \<or> ws_plugin_fallback_mode snap"
  shows "\<not> heartbeat_due st' (we_now_emit e) (f64_of_u64 (heartbeat_interval_seconds C))"
proof (rule finish_state_compares [OF assms(1)])
  fix st4
  assume "if ws_plugin_managed snap \<and> \<not> ws_plugin_fallback_mode snap \<and> \<not> pr_status_ok result
     then st' = st4 \<and> None = None
     else build_change_payload X st4 (pr_payload result) (pr_status_ok result) (we_now_emit e)
            (f64_of_u64 (heartbeat_interval_seconds C)) = (st', None)"
  then have "build_change_payload X st4 (pr_payload result) (pr_status_ok result) (we_now_emit e)
            (f64_of_u64 (heartbeat_interval_seconds C)) = (st', None)"
    using assms(2) by (auto split: if_splits)
  then show ?thesis
    by (cases rule: build_change_payload_cases [of st4 X "pr_payload result" "pr_status_ok result" "we_now_emit e"
          "f64_of_u64 (heartbeat_interval_seconds C)"]) auto
qed

lemma heartbeat_due_cong: "last_emitted_at st = last_emitted_at st' \<Longrightarrow> heartbeat_due st t hb = heartbeat_due st' t hb"
  by (simp add: heartbeat_due_def)

lemma build_payload_None:
  "build_change_payload X st payload ok now hb = (st', p) \<Longrightarrow>
   p = None \<longleftrightarrow> has_emitted_state st \<and> last_obs st = last_obs st' \<and> \<not> heartbeat_due st now hb"
  using event_of_None_iff [of st "last_obs st" now hb]
  by (cases rule: build_change_payload_cases [of st X payload ok now hb]) auto

lemma finish_state_reports:
  assumes "finish_state X C e snap result st = (st', payload, calls)"
    and "pr_status_ok result \<or> \<not> ws_plugin_managed snap \<or> ws_plugin_fallback_mode snap"
  shows "payload = None \<longleftrightarrow> has_emitted_state st \<and> last_obs st = last_obs st' \<and>
    \<not> heartbeat_due st (we_now_emit e) (f64_of_u64 (heartbeat_interval_seconds C))"
proof (rule finish_state_compares [OF assms(1)])
  fix st4
  assume st4: "last_obs st4 = last_obs st" "has_emitted_state st4 = has_emitted_state st"
    "last_emitted_at st4 = last_emitted_at st"
    and "if ws_plugin_managed snap \<and> \<not> ws_plugin_fallback_mode snap \<and> \<not> pr_status_ok result
     then st' = st4 \<and> payload = None
     else build_change_payload X st4 (pr_payload result) (pr_status_ok result) (we_now_emit e)
            (f64_of_u64 (heartbeat_interval_seconds C)) = (st', payload)"
  then have "build_change_payload X st4 (pr_payload result) (pr_status_ok result) (we_now_emit e)
            (f64_of_u64 (heartbeat_interval_seconds C)) = (st', payload)"
    using assms(2) by (auto split: if_splits)
  from build_payload_None [OF this] show ?thesis using st4 heartbeat_due_cong [OF st4(3)] by simp
qed

lemma finish_state_due:
  assumes "finish_state X C e snap result st = (st', payload, calls)"
  defines "interval \<equiv> poll_interval C (ws_plugin_managed snap) (ws_plugin_fallback_mode snap) (pr_status_ok result)
           (note_outcome (pr_status_ok result) st)"
  shows "key st' = key st"
    "next_due st' = we_now_due e + max (interval + we_due_draw e (- (1 / 10)) (1 / 10) * interval) 1"
  by (rule finish_stateE [OF assms(1)];
      force simp: interval_def Let_def same_counters_def dest: build_change_payload_frame split: if_splits)+

subsection \<open>When a server is polled next\<close>

lemma poll_interval_nonneg: "0 \<le> poll_interval C mg fb ok st"
  by (simp add: poll_interval_def Let_def le_max_iff_disj)

text \<open>
  C17: A poll, however it ends, puts its server back on the schedule: one request, for the time its state
  is due at, a second away at least, and within ten per cent of the interval that applies. No other
  server is touched.
\<close>

theorem poll_comes_back:
  assumes "finish_work X C e snap result k (m, queue) = ((m', queue'), reqs, calls)"
    and "hm_get m k = Some st" and "in_range (we_due_draw e)"
    and "interval = poll_interval C (ws_plugin_managed snap) (ws_plugin_fallback_mode snap) (pr_status_ok result)
      (note_outcome (pr_status_ok result) st)"
  shows "\<exists>st'. hm_get m' k = Some st' \<and> reqs = [(k, next_due st')] \<and>
    we_now_due e + max (9 / 10 * interval) 1 \<le> next_due st' \<and>
    next_due st' \<le> we_now_due e + max (11 / 10 * interval) 1 \<and>
    (k' \<noteq> k \<longrightarrow> hm_get m' k' = hm_get m k')"
proof -
  obtain st' payload calls' where f: "finish_state X C e snap result st = (st', payload, calls')" by (metis prod_cases3)
  let ?r = "we_due_draw e (- (1 / 10)) (1 / 10)"
  have r: "- (1 / 10) \<le> ?r" "?r < 1 / 10" using in_rangeD [OF assms(3), of "- (1 / 10)" "1 / 10"] by simp_all
  have i: "0 \<le> interval" using assms(4) poll_interval_nonneg by simp
  have lo: "9 / 10 * interval \<le> interval + ?r * interval"
    using mult_right_mono [OF r(1) i] by (simp add: algebra_simps)
  have hi: "interval + ?r * interval \<le> 11 / 10 * interval"
    using mult_right_mono [OF less_imp_le [OF r(2)] i] by (simp add: algebra_simps)
  have "next_due st' = we_now_due e + max (interval + ?r * interval) 1"
    using finish_state_due(2) [OF f] assms(4) by simp
  then have "we_now_due e + max (9 / 10 * interval) 1 \<le> next_due st' \<and> next_due st' \<le> we_now_due e + max (11 / 10 * interval) 1"
    using lo hi by (auto simp: max_def)
  with assms(1,2) f show ?thesis by (auto simp: finish_work_def)
qed

definition demo_work_env :: work_env where
  "demo_work_env =
     \<lparr>we_udp = \<lparr>udp_bind = False, udp_connect = (\<lambda>_. True), udp_send = (\<lambda>_. True), udp_recv = None, udp_in_time = True\<rparr>,
      we_millis = 0, we_guid = 0, we_edition_api = \<lparr>api_channel_ok = True, api_call_ok = True\<rparr>,
      we_favicon_api = \<lparr>api_channel_ok = True, api_call_ok = True\<rparr>, we_probe_draw = (\<lambda>lo hi. lo),
      we_due_draw = (\<lambda>lo hi. lo), we_now_due = 1000, we_now_emit = 1000\<rparr>"

theorem poll_comes_back_witness:
  "\<exists>m' queue' reqs calls st'. finish_work demo_externals demo_settings demo_work_env (snapshot_of demo_state)
       (failed_poll (json_obj [])) ''srv-1'' ([(''srv-1'', demo_state)], []) = ((m', queue'), reqs, calls) \<and>
     hm_get m' ''srv-1'' = Some st' \<and> 1001 \<le> next_due st' \<and> reqs = [(''srv-1'', next_due st')]"
proof -
  let ?F = "finish_work demo_externals demo_settings demo_work_env (snapshot_of demo_state)
       (failed_poll (json_obj [])) ''srv-1'' ([(''srv-1'', demo_state)], [])"
  obtain m' queue' reqs calls where f: "?F = ((m', queue'), reqs, calls)"
    by (rule that [of "fst (fst ?F)" "snd (fst ?F)" "fst (snd ?F)" "snd (snd ?F)"]) (simp only: prod.collapse)
  have g: "hm_get [(''srv-1'', demo_state)] ''srv-1'' = Some demo_state" by (simp add: hm_get_def)
  have r: "in_range (we_due_draw demo_work_env)" by (simp add: demo_work_env_def in_range_low)
  from poll_comes_back [OF f g r refl, of "''srv-1''"] obtain st' where
    "hm_get m' ''srv-1'' = Some st'" "reqs = [(''srv-1'', next_due st')]" "1000 + 1 \<le> next_due st'"
    by (auto simp: demo_work_env_def)
  with f show ?thesis by auto
qed

lemma note_failure [simp]:
  "has_succeeded (note_outcome False st) = has_succeeded st"
  "initial_failures (note_outcome False st) =
     (if has_succeeded st then initial_failures st else initial_failures st + 1)"
  by (simp_all add: note_outcome_def Let_def)

lemma failures_counted:
  "\<not> has_succeeded st \<Longrightarrow> initial_failures st = 0 \<Longrightarrow> n < 2 ^ 32 \<Longrightarrow>
   \<not> has_succeeded ((note_outcome False ^^ n) st) \<and> unat (initial_failures ((note_outcome False ^^ n) st)) = n"
proof (induction n)
  case (Suc n)
  let ?s = "(note_outcome False ^^ n) st"
  have "unat (initial_failures ?s) = n" "\<not> has_succeeded ?s" using Suc by simp_all
  moreover have "unat (initial_failures ?s + 1) = Suc (unat (initial_failures ?s))"
    using Suc.prems(3) calculation(1) unat_add_lem [of "initial_failures ?s" 1] by simp
  ultimately show ?case by simp
qed simp

lemma success_stays: "has_succeeded st \<Longrightarrow> has_succeeded ((note_outcome False ^^ n) st)"
  by (induction n) simp_all

text \<open>
  A server that has never answered is polled less often after the configured number of failures,
  at the slowed interval up to its cap, and not before; one that has answered once never is.
\<close>

theorem slowdown_of_unreachable:
  assumes "initial_failures st = 0" and "n < 2 ^ 32" and "\<not> mg \<or> fb"
  shows "poll_interval C mg fb False ((note_outcome False ^^ n) st) =
    (if \<not> has_succeeded st \<and> unat (initial_failures_before_slowdown C) \<le> n
     then min (max (f64_of_u64 (offline_interval_seconds C) * initial_failure_slowdown_multiplier C)
                   (f64_of_u64 (offline_interval_seconds C)))
              (f64_of_u64 (initial_failure_max_interval_seconds C))
     else f64_of_u64 (offline_interval_seconds C))"
proof (cases "has_succeeded st")
  case True
  then show ?thesis using assms(3) success_stays [of st n] by (auto simp: poll_interval_def Let_def)
next
  case False
  with failures_counted [of st n] assms(1,2) have
    "\<not> has_succeeded ((note_outcome False ^^ n) st)" "unat (initial_failures ((note_outcome False ^^ n) st)) = n" by simp_all
  with False assms(3) show ?thesis by (auto simp: poll_interval_def Let_def word_le_nat_alt)
qed

theorem slowdown_of_unreachable_witness:
  "poll_interval demo_settings False False False ((note_outcome False ^^ 5) demo_state) = 3600"
proof -
  have "initial_failures demo_state = 0" "\<not> has_succeeded demo_state"
    by (simp_all add: demo_state_def build_state_def Let_def split: prod.splits)
  moreover have "initial_failures_before_slowdown demo_settings = 5" "offline_interval_seconds demo_settings = 600"
    "initial_failure_slowdown_multiplier demo_settings = 6" "initial_failure_max_interval_seconds demo_settings = 3600"
    by (simp_all add: demo_settings_def load_collector_def demo_readers_def chain_def load_offline_interval_def
        load_online_interval_def)
  ultimately show ?thesis using slowdown_of_unreachable [of demo_state 5 False False demo_settings] by simp
qed

subsection \<open>A full channel\<close>

text \<open>
  A row that finds the channel full is gone for good: the state counts it as emitted, and as long
  as the polls show the same and no heartbeat is due, nothing is emitted again.
\<close>

theorem full_channel_loses_event:
  assumes "finish_work X C e snap result k (m, queue) = ((m', queue'), reqs, calls)" and "hm_get m k = Some st"
    and "result_queue_maxsize C \<le> length queue"
    and "ws_plugin_managed snap \<longrightarrow> ws_plugin_fallback_mode snap \<or> pr_status_ok result"
    and "heartbeat_interval_seconds C = 0"
  shows "\<exists>st'. hm_get m' k = Some st' \<and> queue' = queue \<and>
    snd (build_change_payload X st' (pr_payload result) (pr_status_ok result) now
           (f64_of_u64 (heartbeat_interval_seconds C))) = None"
proof -
  obtain st' payload calls' where f: "finish_state X C e snap result st = (st', payload, calls')" by (metis prod_cases3)
  have hb: "\<not> heartbeat_due s t 0" for s t by (simp add: heartbeat_due_def)
  obtain st4 where b: "build_change_payload X st4 (pr_payload result) (pr_status_ok result) (we_now_emit e) 0 = (st', payload)"
    by (rule finish_stateE [OF f]) (use assms(4,5) in \<open>auto simp: Let_def split: if_splits\<close>)
  have "snd (current_obs X st' (pr_payload result) (pr_status_ok result)) = last_obs st' \<and> has_emitted_state st'"
  proof (cases rule: build_change_payload_cases [of st4 X "pr_payload result" "pr_status_ok result" "we_now_emit e" 0])
    case quiet
    with b show ?thesis by simp
  next
    case (emit players ob ev)
    then have "st' = remember st4 ob (we_now_emit e)" using b by simp
    with current_obs_stable [OF emit(1), of "we_now_emit e"] show ?thesis by simp
  qed
  then have "event_of st' (snd (current_obs X st' (pr_payload result) (pr_status_ok result))) now 0 = None"
    by (simp add: event_of_None_iff hb)
  then have "snd (build_change_payload X st' (pr_payload result) (pr_status_ok result) now 0) = None"
    by (auto simp: build_change_payload_def split: prod.splits)
  with assms(1-3,5) f show ?thesis
    by (auto simp: finish_work_def offer_def split: option.splits)
qed

theorem full_channel_loses_event_witness:
  "\<exists>m' queue' reqs calls st'. finish_work demo_externals (demo_settings\<lparr>result_queue_maxsize := 1, heartbeat_interval_seconds := 0\<rparr>)
       demo_work_env (snapshot_of demo_state) (failed_poll (json_obj [])) ''srv-1'' ([(''srv-1'', demo_state)], [JNull])
       = ((m', queue'), reqs, calls) \<and> queue' = [JNull] \<and> hm_get m' ''srv-1'' = Some st' \<and>
     snd (build_change_payload demo_externals st' (json_obj []) False 5000 0) = None"
proof -
  let ?C = "demo_settings\<lparr>result_queue_maxsize := 1, heartbeat_interval_seconds := 0\<rparr>"
  let ?F = "finish_work demo_externals ?C demo_work_env (snapshot_of demo_state)
       (failed_poll (json_obj [])) ''srv-1'' ([(''srv-1'', demo_state)], [JNull])"
  obtain m' queue' reqs calls where f: "?F = ((m', queue'), reqs, calls)"
    by (rule that [of "fst (fst ?F)" "snd (fst ?F)" "fst (snd ?F)" "snd (snd ?F)"]) (simp only: prod.collapse)
  have g: "hm_get [(''srv-1'', demo_state)] ''srv-1'' = Some demo_state" by (simp add: hm_get_def)
  have p: "ws_plugin_managed (snapshot_of demo_state) \<longrightarrow>
      ws_plugin_fallback_mode (snapshot_of demo_state) \<or> pr_status_ok (failed_poll (json_obj []))"
    by (simp add: snapshot_of_def demo_state_def build_state_def demo_catalog_def is_plugin_managed_def Let_def split: prod.splits)
  from full_channel_loses_event [OF f g _ p, of 5000] f show ?thesis by (simp add: failed_poll_def) blast
qed

end
