(* ===== verification/Scheduler.thy ===== *)
theory Scheduler
  imports Rust_Std
begin

text \<open>
  \<open>src/src/scheduler.rs\<close>: the min-heap of due times shared by all tasks, and the single task that
  waits for the next due key.

  \<open>BinaryHeap\<close> is a list of entries of which \<open>peek\<close> and \<open>pop\<close> take a greatest one by
  \<open>ScheduleEntry::cmp\<close>. The tasks are a transition system: a state is the shared heap and counter,
  the pushes spawned by \<open>schedule\<close> that have not run yet, the permit of the \<open>Notify\<close>, the clock, and
  the point the waiting task has reached in \<open>next_due\<close>. A step is one stretch of code between two
  \<open>await\<close>s, so that every interleaving of the tasks is a sequence of steps.
\<close>

record schedule_entry =
  due :: f64
  seq :: u64
  ekey :: str

text \<open>
  Reversed, so that the greatest entry is the one due first. \<open>partial_cmp\<close> of two numbers that are
  not NaN always has a value.
\<close>

definition entry_cmp :: "schedule_entry \<Rightarrow> schedule_entry \<Rightarrow> ordering" where
  "entry_cmp self other =
     then_with (cmp_of (due other) (due self)) (cmp_of (seq other) (seq self))"

subsection \<open>The order of entries\<close>

datatype prio = Prio f64 u64

instantiation prio :: linorder
begin

fun less_eq_prio :: "prio \<Rightarrow> prio \<Rightarrow> bool" where
  "less_eq_prio (Prio d s) (Prio d' s') \<longleftrightarrow> d < d' \<or> d = d' \<and> s \<le> s'"

definition less_prio :: "prio \<Rightarrow> prio \<Rightarrow> bool" where
  "less_prio p q \<longleftrightarrow> p \<le> q \<and> \<not> q \<le> p"

instance
proof
  fix x y z :: prio
  show "x < y \<longleftrightarrow> x \<le> y \<and> \<not> y \<le> x" by (rule less_prio_def)
  show "x \<le> x" by (cases x) simp
  show "x \<le> y \<Longrightarrow> y \<le> z \<Longrightarrow> x \<le> z" by (cases x; cases y; cases z) auto
  show "x \<le> y \<Longrightarrow> y \<le> x \<Longrightarrow> x = y" by (cases x; cases y) auto
  show "x \<le> y \<or> y \<le> x" by (cases x; cases y) auto
qed

end

definition prio_of :: "schedule_entry \<Rightarrow> prio" where
  "prio_of e = Prio (due e) (seq e)"

lemma entry_cmp_Less_iff: "entry_cmp a b = Less \<longleftrightarrow> prio_of b < prio_of a"
  by (auto simp: entry_cmp_def prio_of_def then_with_iffs less_prio_def)

lemma prio_le_due: "prio_of a \<le> prio_of b \<Longrightarrow> due a \<le> due b"
  by (auto simp: prio_of_def)

subsection \<open>The heap\<close>

text \<open>The interface of a queue that hands out an element of least rank.\<close>

locale min_queue =
  fixes empty :: "'q"
    and push :: "'e \<Rightarrow> 'q \<Rightarrow> 'q"
    and peek :: "'q \<Rightarrow> 'e option"
    and pop :: "'q \<Rightarrow> ('e \<times> 'q) option"
    and contents :: "'q \<Rightarrow> 'e multiset"
    and rank :: "'e \<Rightarrow> 'r::linorder"
  assumes contents_empty: "contents empty = {#}"
    and contents_push: "contents (push e q) = add_mset e (contents q)"
    and peek_None_iff: "peek q = None \<longleftrightarrow> contents q = {#}"
    and peek_in: "peek q = Some e \<Longrightarrow> e \<in># contents q"
    and peek_least: "peek q = Some e \<Longrightarrow> x \<in># contents q \<Longrightarrow> rank e \<le> rank x"
    and pop_None_iff: "pop q = None \<longleftrightarrow> peek q = None"
    and pop_peek: "pop q = Some (e, q') \<Longrightarrow> peek q = Some e"
    and pop_contents: "pop q = Some (e, q') \<Longrightarrow> contents q' = contents q - {#e#}"
begin

lemma pop_conserves: "pop q = Some (e, q') \<Longrightarrow> add_mset e (contents q') = contents q"
  using pop_contents pop_peek peek_in by (metis insert_DiffM)

lemma pop_least: "pop q = Some (e, q') \<Longrightarrow> x \<in># contents q \<Longrightarrow> rank e \<le> rank x"
  using pop_peek peek_least by blast

lemma pop_pop_sorted: "pop q = Some (e, q') \<Longrightarrow> pop q' = Some (e', q'') \<Longrightarrow> rank e \<le> rank e'"
proof -
  assume p: "pop q = Some (e, q')" and p': "pop q' = Some (e', q'')"
  then have "e' \<in># contents q'" by (auto dest: pop_peek peek_in)
  then have "e' \<in># contents q" unfolding pop_contents [OF p] by (rule in_diffD)
  with p show ?thesis by (rule pop_least)
qed

lemma nonempty_pops: "x \<in># contents q \<Longrightarrow> \<exists>e q'. pop q = Some (e, q') \<and> rank e \<le> rank x"
  by (metis empty_iff option.exhaust_sel peek_None_iff pop_None_iff pop_least prod.exhaust_sel
      set_mset_empty)

end

definition heap_push :: "schedule_entry \<Rightarrow> schedule_entry list \<Rightarrow> schedule_entry list" where
  "heap_push e h = e # h"

definition greater_entry :: "schedule_entry \<Rightarrow> schedule_entry \<Rightarrow> schedule_entry" where
  "greater_entry m x = (if entry_cmp m x = Less then x else m)"

definition heap_peek :: "schedule_entry list \<Rightarrow> schedule_entry option" where
  "heap_peek h = (case h of [] \<Rightarrow> None | e # es \<Rightarrow> Some (foldl greater_entry e es))"

definition heap_pop :: "schedule_entry list \<Rightarrow> (schedule_entry \<times> schedule_entry list) option" where
  "heap_pop h = (case heap_peek h of None \<Rightarrow> None | Some e \<Rightarrow> Some (e, remove1 e h))"

lemma foldl_greater_entry:
  "foldl greater_entry e es \<in> insert e (set es) \<and>
   (\<forall>x\<in>insert e (set es). prio_of (foldl greater_entry e es) \<le> prio_of x)"
proof (induction es arbitrary: e)
  case (Cons a es)
  let ?g = "greater_entry e a"
  have g: "?g \<in> {e, a}" "prio_of ?g \<le> prio_of e" "prio_of ?g \<le> prio_of a"
    by (auto simp: greater_entry_def entry_cmp_Less_iff)
  with Cons.IH [of ?g] show ?case
    by (auto intro: order_trans)
qed simp

interpretation heap: min_queue "[]" heap_push heap_peek heap_pop mset prio_of
proof unfold_locales
  show "(heap_peek q = None) = (mset q = {#})" for q
    by (simp add: heap_peek_def split: list.split)
  show "heap_peek q = Some e \<Longrightarrow> e \<in># mset q" for q e
    using foldl_greater_entry by (force simp: heap_peek_def split: list.splits)
  show "heap_peek q = Some e \<Longrightarrow> x \<in># mset q \<Longrightarrow> prio_of e \<le> prio_of x" for q e x
    using foldl_greater_entry by (force simp: heap_peek_def split: list.splits)
qed (auto simp: heap_push_def heap_pop_def split: option.splits)

lemma heap_peek_min: "heap_peek h = Some e \<Longrightarrow> x \<in> set h \<Longrightarrow> due e \<le> due x"
  using heap.peek_least [of h e x] by (auto dest: prio_le_due)

lemma heap_peek_None [simp]: "heap_peek h = None \<longleftrightarrow> h = []"
  using heap.peek_None_iff [of h] by simp

lemma heap_peek_Nil [simp]: "heap_peek [] = None"
  by simp

lemma heap_peek_in: "heap_peek h = Some e \<Longrightarrow> e \<in> set h"
  using heap.peek_in [of h e] by simp

subsection \<open>The tasks\<close>

text \<open>
  Where the task in \<open>next_due\<close> is: about to look at the heap, waiting for a notification because the
  heap was empty, holding the entry it looked at, in the \<open>select!\<close> with the sleep that ends at a
  time, or about to take the lock again and pop.
\<close>

datatype pc = Looking | Parked | Peeked schedule_entry | Sleeping f64 | Popping

text \<open>
  \<open>scheduled\<close> and \<open>delivered\<close> record the history: every call of \<open>schedule\<close>, and every result of
  \<open>next_due\<close> with the time it was returned at. The code has no such fields.
\<close>

record sched =
  heap :: "schedule_entry list"
  counter :: u64
  spawned :: "(str \<times> f64) list"
  notifying :: nat
  permit :: bool
  clock :: f64
  waiter :: pc
  scheduled :: "(str \<times> f64) list"
  delivered :: "(str \<times> f64 \<times> f64) list"

definition sched_new :: sched where
  "sched_new =
     \<lparr>heap = [], counter = 0, spawned = [], notifying = 0, permit = False, clock = 0,
      waiter = Looking, scheduled = [], delivered = []\<rparr>"

text \<open>\<open>schedule\<close> spawns a task; the task pushes under the lock, and notifies after releasing it.\<close>

definition do_schedule :: "str \<Rightarrow> f64 \<Rightarrow> sched \<Rightarrow> sched" where
  "do_schedule k d s = s\<lparr>spawned := (k, d) # spawned s, scheduled := (k, d) # scheduled s\<rparr>"

definition do_push :: "str \<times> f64 \<Rightarrow> sched \<Rightarrow> sched" where
  "do_push kd s =
     (let n = counter s + 1 in
      s\<lparr>spawned := remove1 kd (spawned s),
        counter := n,
        heap := heap_push \<lparr>due = snd kd, seq = n, ekey = fst kd\<rparr> (heap s),
        notifying := Suc (notifying s)\<rparr>)"

definition do_notify :: "sched \<Rightarrow> sched" where
  "do_notify s = s\<lparr>notifying := notifying s - 1, permit := True\<rparr>"

text \<open>The stretches of \<open>next_due\<close>.\<close>

definition do_look :: "sched \<Rightarrow> sched" where
  "do_look s = (case heap_peek (heap s) of
      None \<Rightarrow> s\<lparr>waiter := Parked\<rparr>
    | Some e \<Rightarrow> s\<lparr>waiter := Peeked e\<rparr>)"

definition do_wake :: "sched \<Rightarrow> sched" where
  "do_wake s = s\<lparr>permit := False, waiter := Looking\<rparr>"

definition do_decide :: "schedule_entry \<Rightarrow> sched \<Rightarrow> sched" where
  "do_decide e s =
     (let now = clock s in
      if now < due e then s\<lparr>waiter := Sleeping (now + (due e - now))\<rparr>
      else s\<lparr>waiter := Popping\<rparr>)"

definition do_pop :: "sched \<Rightarrow> sched" where
  "do_pop s =
     (case heap_peek (heap s) of
        Some first \<Rightarrow>
          if due first \<le> clock s then
            (case heap_pop (heap s) of
               Some (e, h) \<Rightarrow>
                 s\<lparr>heap := h, waiter := Looking,
                   delivered := (ekey e, due e, clock s) # delivered s\<rparr>
             | None \<Rightarrow> s\<lparr>waiter := Looking\<rparr>)
          else s\<lparr>waiter := Looking\<rparr>
      | None \<Rightarrow> s\<lparr>waiter := Looking\<rparr>)"

text \<open>
  The steps that need nothing from outside: those of the waiting task, and the notification of a
  task that has pushed.
\<close>

inductive inner_step :: "sched \<Rightarrow> sched \<Rightarrow> bool" where
  look: "waiter s = Looking \<Longrightarrow> inner_step s (do_look s)"
| wake_parked: "waiter s = Parked \<Longrightarrow> permit s \<Longrightarrow> inner_step s (do_wake s)"
| decide: "waiter s = Peeked e \<Longrightarrow> inner_step s (do_decide e s)"
| timer: "waiter s = Sleeping t \<Longrightarrow> t \<le> clock s \<Longrightarrow> inner_step s (s\<lparr>waiter := Popping\<rparr>)"
| wake_sleep: "waiter s = Sleeping t \<Longrightarrow> permit s \<Longrightarrow> inner_step s (do_wake s)"
| pop_top: "waiter s = Popping \<Longrightarrow> inner_step s (do_pop s)"
| notify: "0 < notifying s \<Longrightarrow> inner_step s (do_notify s)"

inductive sched_step :: "sched \<Rightarrow> sched \<Rightarrow> bool" where
  inner: "inner_step s t \<Longrightarrow> sched_step s t"
| schedule: "sched_step s (do_schedule k d s)"
| push_spawned: "kd \<in> set (spawned s) \<Longrightarrow> sched_step s (do_push kd s)"
| tick: "0 \<le> dt \<Longrightarrow> sched_step s (s\<lparr>clock := clock s + dt\<rparr>)"

inductive_cases inner_stepE: "inner_step s t"
inductive_cases sched_stepE: "sched_step s t"

subsection \<open>The invariant\<close>

text \<open>
  A notification is on its way when the permit is stored or a pushing task has yet to notify. The
  waiting task sleeps, or is about to, no longer than until the least due time in the heap, unless a
  notification is on its way. Every scheduled key is spawned, in the heap or delivered, and nothing
  is delivered early.
\<close>

definition alerted :: "sched \<Rightarrow> bool" where
  "alerted s \<longleftrightarrow> permit s \<or> 0 < notifying s"

fun wait_bound :: "pc \<Rightarrow> schedule_entry list \<Rightarrow> bool" where
  "wait_bound Looking h = True"
| "wait_bound Parked h = (h = [])"
| "wait_bound (Peeked e) h = (\<forall>x\<in>set h. due e \<le> due x)"
| "wait_bound (Sleeping t) h = (\<forall>x\<in>set h. t \<le> due x)"
| "wait_bound Popping h = True"

definition entry_item :: "schedule_entry \<Rightarrow> str \<times> f64" where
  "entry_item e = (ekey e, due e)"

definition delivered_item :: "str \<times> f64 \<times> f64 \<Rightarrow> str \<times> f64" where
  "delivered_item x = (fst x, fst (snd x))"

definition conserved :: "sched \<Rightarrow> bool" where
  "conserved s \<longleftrightarrow>
     mset (scheduled s) =
       mset (spawned s) + image_mset entry_item (mset (heap s))
       + image_mset delivered_item (mset (delivered s))"

definition on_time :: "sched \<Rightarrow> bool" where
  "on_time s \<longleftrightarrow> (\<forall>(k, d, t) \<in> set (delivered s). d \<le> t \<and> t \<le> clock s)"

definition sched_inv :: "sched \<Rightarrow> bool" where
  "sched_inv s \<longleftrightarrow> (wait_bound (waiter s) (heap s) \<or> alerted s) \<and> conserved s \<and> on_time s"

lemma sched_inv_new: "sched_inv sched_new"
  by (simp add: sched_inv_def sched_new_def conserved_def on_time_def)

lemma heap_popE:
  assumes "heap_pop h = Some (e, h')"
  shows "heap_peek h = Some e" "mset h = add_mset e (mset h')" "set h' \<subseteq> set h"
    "\<forall>x\<in>set h. due e \<le> due x"
proof -
  show p: "heap_peek h = Some e" by (rule heap.pop_peek [OF assms])
  show m: "mset h = add_mset e (mset h')" using heap.pop_conserves [OF assms] by simp
  show "set h' \<subseteq> set h" using m by (metis set_mset_mset set_mset_add_mset_insert subset_insertI)
  show "\<forall>x\<in>set h. due e \<le> due x" using p heap_peek_min by blast
qed

lemma do_pop_cases:
  obtains (deliver) e h where "heap_pop (heap s) = Some (e, h)" "due e \<le> clock s"
      "do_pop s = s\<lparr>heap := h, waiter := Looking,
         delivered := (ekey e, due e, clock s) # delivered s\<rparr>"
  | (retry) "\<forall>x\<in>set (heap s). clock s < due x" "do_pop s = s\<lparr>waiter := Looking\<rparr>"
proof (cases "heap_pop (heap s)")
  case None
  then have "heap s = []" using heap.pop_None_iff [of "heap s"] by simp
  then show ?thesis by (intro retry) (auto simp: do_pop_def)
next
  case (Some p)
  obtain e h where p: "heap_pop (heap s) = Some (e, h)" using Some by (cases p) auto
  note facts = heap_popE [OF p]
  show ?thesis
  proof (cases "due e \<le> clock s")
    case True
    with p facts show ?thesis by (intro deliver) (auto simp: do_pop_def)
  next
    case False
    with facts show ?thesis by (intro retry) (auto simp: do_pop_def)
  qed
qed

lemma do_pop_inv [inv_intros]: "sched_inv s \<Longrightarrow> sched_inv (do_pop s)"
proof (cases rule: do_pop_cases [of s])
  case (deliver e h)
  moreover assume "sched_inv s"
  ultimately show ?thesis
    using heap_popE [OF deliver(1)]
    by (auto simp: sched_inv_def conserved_def on_time_def entry_item_def delivered_item_def)
next
  case retry
  moreover assume "sched_inv s"
  ultimately show ?thesis by (auto simp: sched_inv_def conserved_def on_time_def)
qed

lemma inner_step_inv [inv_intros]: "inner_step s t \<Longrightarrow> sched_inv s \<Longrightarrow> sched_inv t"
proof (induction rule: inner_step.induct)
  case (look s)
  then show ?case
    by (auto simp: do_look_def sched_inv_def conserved_def on_time_def heap_peek_min
        split: option.split)
next
  case (decide s e)
  then show ?case
    by (auto simp: do_decide_def Let_def sched_inv_def conserved_def on_time_def alerted_def)
next
  case (pop_top s)
  then show ?case by (simp add: do_pop_inv)
qed (auto simp: do_wake_def do_notify_def sched_inv_def conserved_def on_time_def alerted_def)

lemma sched_step_inv: "sched_inv s \<Longrightarrow> sched_step s t \<Longrightarrow> sched_inv t"
proof (erule sched_stepE, goal_cases)
  case 1
  then show ?case by (simp add: inner_step_inv)
next
  case (3 kd)
  then show ?case
    by (auto simp: do_push_def Let_def sched_inv_def conserved_def on_time_def alerted_def
        heap_push_def entry_item_def)
qed (auto simp: do_schedule_def sched_inv_def conserved_def on_time_def alerted_def)

definition sched_start :: "sched \<Rightarrow> bool" where
  "sched_start s \<longleftrightarrow> s = sched_new"

interpretation sched: transition_system sched_start sched_step sched_inv
  by unfold_locales (auto simp: sched_start_def sched_inv_new intro: sched_step_inv)

lemma reach_inner:
  "reachable sched_start sched_step s \<Longrightarrow> inner_step s t \<Longrightarrow> reachable sched_start sched_step t"
  by (erule reachable_step) (rule sched_step.inner)

subsection \<open>No lost wake-up\<close>

text \<open>
  A state delivers when inner steps alone, with no new call of \<open>schedule\<close> and without the clock
  moving, lead to the next delivery.
\<close>

definition overdue :: "sched \<Rightarrow> bool" where
  "overdue s \<longleftrightarrow> (\<exists>x\<in>set (heap s). due x \<le> clock s)"

definition delivers :: "sched \<Rightarrow> bool" where
  "delivers s \<longleftrightarrow>
     (\<exists>t. inner_step\<^sup>*\<^sup>* s t \<and> length (delivered t) = Suc (length (delivered s)) \<and> clock t = clock s)"

lemma inner_frame [simp]:
  "delivered (do_decide e s) = delivered s" "clock (do_decide e s) = clock s"
  "heap (do_decide e s) = heap s"
  "delivered (do_wake s) = delivered s" "clock (do_wake s) = clock s" "heap (do_wake s) = heap s"
  "waiter (do_wake s) = Looking"
  "delivered (do_notify s) = delivered s" "clock (do_notify s) = clock s"
  "heap (do_notify s) = heap s" "waiter (do_notify s) = waiter s" "permit (do_notify s)"
  by (simp_all add: do_decide_def do_wake_def do_notify_def Let_def)

lemma delivers_step:
  "inner_step s s' \<Longrightarrow> delivered s' = delivered s \<Longrightarrow> clock s' = clock s \<Longrightarrow> delivers s' \<Longrightarrow> delivers s"
  unfolding delivers_def by (metis converse_rtranclp_into_rtranclp)

lemma popping_delivers:
  assumes "waiter s = Popping" and "overdue s"
  shows "delivers s"
proof (cases rule: do_pop_cases [of s])
  case (deliver e h)
  with inner_step.pop_top [OF assms(1)] show ?thesis
    unfolding delivers_def by (intro exI [of _ "do_pop s"]) auto
next
  case retry
  with assms(2) show ?thesis by (auto simp: overdue_def)
qed

lemma looking_delivers:
  assumes "waiter s = Looking" and over: "overdue s"
  shows "delivers s"
proof -
  from over have "heap s \<noteq> []" by (auto simp: overdue_def)
  then obtain e where e: "heap_peek (heap s) = Some e"
    by (cases "heap_peek (heap s)") auto
  have d: "due e \<le> clock s"
    using over heap_peek_min [OF e] by (force simp: overdue_def)
  let ?s1 = "do_look s"
  let ?s2 = "do_decide e ?s1"
  have s1: "?s1 = s\<lparr>waiter := Peeked e\<rparr>" using e by (simp add: do_look_def)
  have s2: "?s2 = s\<lparr>waiter := Popping\<rparr>" using d by (simp add: do_decide_def s1)
  have "delivers ?s2"
    using over by (intro popping_delivers) (auto simp: s2 overdue_def)
  then have "delivers ?s1"
    by (rule delivers_step [rotated 3]) (auto simp: s1 intro: inner_step.decide)
  then show ?thesis
    by (rule delivers_step [OF inner_step.look [OF assms(1)], rotated 2]) (auto simp: s1)
qed

lemma wake_delivers:
  assumes "waiter s = Parked \<or> (\<exists>t. waiter s = Sleeping t)" and "permit s" and "overdue s"
  shows "delivers s"
proof -
  have "inner_step s (do_wake s)" using assms(1,2) by (auto intro: inner_step.intros)
  then show ?thesis
    by (rule delivers_step) (use assms(3) in \<open>auto simp: overdue_def intro!: looking_delivers\<close>)
qed

lemma alerted_delivers:
  assumes w: "waiter s = Parked \<or> (\<exists>t. waiter s = Sleeping t)" and "alerted s" and over: "overdue s"
  shows "delivers s"
proof (cases "permit s")
  case True
  with w over show ?thesis by (intro wake_delivers)
next
  case False
  with \<open>alerted s\<close> have "0 < notifying s" by (simp add: alerted_def)
  then have "inner_step s (do_notify s)" by (rule inner_step.notify)
  moreover have "delivers (do_notify s)"
    using w over by (intro wake_delivers) (auto simp: do_notify_def overdue_def)
  ultimately show ?thesis by (auto intro: delivers_step simp: do_notify_def)
qed

lemma overdue_delivers:
  assumes inv: "sched_inv s" and over: "overdue s"
  shows "delivers s"
proof -
  obtain x where x: "x \<in> set (heap s)" "due x \<le> clock s" using over by (auto simp: overdue_def)
  have b: "wait_bound (waiter s) (heap s) \<or> alerted s" using inv by (simp add: sched_inv_def)
  show ?thesis
  proof (cases "waiter s")
    case Looking
    then show ?thesis using over by (rule looking_delivers)
  next
    case Parked
    with b x over show ?thesis by (auto intro: alerted_delivers)
  next
    case Popping
    then show ?thesis using over by (rule popping_delivers)
  next
    case (Sleeping t)
    show ?thesis
    proof (cases "t \<le> clock s")
      case True
      from inner_step.timer [OF Sleeping True] show ?thesis
        by (rule delivers_step) (use over in \<open>auto simp: overdue_def intro!: popping_delivers\<close>)
    next
      case False
      with b x Sleeping have "alerted s" by auto
      with Sleeping over show ?thesis by (auto intro: alerted_delivers)
    qed
  next
    case (Peeked e)
    show ?thesis
    proof (cases "due e \<le> clock s")
      case True
      from inner_step.decide [OF Peeked] show ?thesis
        by (rule delivers_step)
          (use over True in \<open>auto simp: do_decide_def overdue_def intro!: popping_delivers\<close>)
    next
      case False
      with b x Peeked have "alerted s" by auto
      with over False have "delivers (do_decide e s)"
        by (intro alerted_delivers) (auto simp: do_decide_def alerted_def overdue_def)
      with inner_step.decide [OF Peeked] False show ?thesis
        by (auto intro: delivers_step simp: do_decide_def)
    qed
  qed
qed

subsection \<open>What the scheduler promises\<close>

definition demo_sched :: sched where
  "demo_sched = do_push (''srv-1'', 0) (do_schedule ''srv-1'' 0 (do_look sched_new))"

lemma demo_sched_reachable: "reachable sched_start sched_step demo_sched"
proof -
  have "reachable sched_start sched_step sched_new" by (rule reachable_start) (simp add: sched_start_def)
  moreover have "inner_step sched_new (do_look sched_new)" by (rule inner_step.look) (simp add: sched_new_def)
  ultimately have "reachable sched_start sched_step (do_look sched_new)" by (rule reach_inner)
  then have "reachable sched_start sched_step (do_schedule ''srv-1'' 0 (do_look sched_new))"
    by (rule reachable_step) (rule sched_step.schedule)
  then show ?thesis
    unfolding demo_sched_def
    by (rule reachable_step) (rule sched_step.push_spawned, simp add: do_schedule_def)
qed

lemma demo_sched_overdue: "overdue demo_sched"
  by (simp add: overdue_def demo_sched_def do_push_def heap_push_def do_schedule_def do_look_def
      sched_new_def Let_def)

text \<open>
  C12: No lost wake-up. In every state the tasks can reach in any interleaving, when an entry of the
  heap is due then the steps of the waiting task, and of notifications under way, deliver an entry
  without any further call of \<open>schedule\<close> and without the clock moving on.
\<close>

theorem due_entry_is_delivered:
  assumes "reachable sched_start sched_step s" and "overdue s"
  shows "\<exists>t. inner_step\<^sup>*\<^sup>* s t \<and> length (delivered t) = Suc (length (delivered s)) \<and> clock t = clock s"
  using overdue_delivers [OF sched.reachable_inv [OF assms(1)] assms(2)] by (simp add: delivers_def)

theorem due_entry_is_delivered_witness:
  "waiter demo_sched = Parked \<and>
   (\<exists>t. inner_step\<^sup>*\<^sup>* demo_sched t \<and> length (delivered t) = Suc (length (delivered demo_sched)) \<and>
     clock t = clock demo_sched)"
  using due_entry_is_delivered [OF demo_sched_reachable demo_sched_overdue]
  by (simp add: demo_sched_def do_push_def do_schedule_def do_look_def sched_new_def Let_def)

text \<open>
  C16: Nothing is lost and nothing is delivered twice: what was scheduled is, with multiplicity, what
  waits to be pushed, what is in the heap and what was delivered.
\<close>

theorem scheduled_is_conserved:
  assumes "reachable sched_start sched_step s"
  shows "mset (scheduled s) =
    mset (spawned s) + image_mset (\<lambda>e. (ekey e, due e)) (mset (heap s))
    + image_mset (\<lambda>(k, d, t). (k, d)) (mset (delivered s))"
proof -
  have e: "entry_item = (\<lambda>e. (ekey e, due e))" "delivered_item = (\<lambda>(k, d, t). (k, d))"
    by (auto simp: entry_item_def delivered_item_def)
  show ?thesis
    using sched.reachable_inv [OF assms] by (simp add: sched_inv_def conserved_def e)
qed

theorem scheduled_is_conserved_witness:
  "mset (scheduled demo_sched) = {#(''srv-1'', 0)#} \<and>
   mset (scheduled demo_sched) =
    mset (spawned demo_sched) + image_mset (\<lambda>e. (ekey e, due e)) (mset (heap demo_sched))
    + image_mset (\<lambda>(k, d, t). (k, d)) (mset (delivered demo_sched))"
  using scheduled_is_conserved [OF demo_sched_reachable]
  by (simp add: demo_sched_def do_push_def do_schedule_def do_look_def sched_new_def Let_def)

text \<open>
  Deliveries are in order: what \<open>next_due\<close> takes from the heap is due, no entry of the heap is due
  earlier, and among those due at the same time it was pushed first, as far as the counter tells.
\<close>

theorem delivers_least_due_entry:
  assumes "delivered (do_pop s) = x # delivered s"
  shows "\<exists>e. e \<in> set (heap s) \<and> x = (ekey e, due e, clock s) \<and> due e \<le> clock s \<and>
    mset (heap (do_pop s)) = mset (heap s) - {#e#} \<and>
    (\<forall>y\<in>set (heap s). due e < due y \<or> due e = due y \<and> seq e \<le> seq y)"
proof (cases rule: do_pop_cases [of s])
  case (deliver e h)
  have least: "\<forall>y\<in>set (heap s). prio_of e \<le> prio_of y"
    using heap.pop_least [OF deliver(1)] by simp
  show ?thesis
    using deliver assms least heap_peek_in [OF heap_popE(1) [OF deliver(1)]] heap.pop_contents [OF deliver(1)]
    by (intro exI [of _ e]) (auto simp: prio_of_def)
next
  case retry
  then show ?thesis using assms by simp
qed

theorem delivers_least_due_entry_witness:
  "\<exists>e. e \<in> set (heap demo_sched) \<and> (''srv-1'', 0, 0) = (ekey e, due e, clock demo_sched)"
proof -
  have "delivered (do_pop demo_sched) = (''srv-1'', 0, 0) # delivered demo_sched"
    by (simp add: do_pop_def heap_peek_def heap_pop_def demo_sched_def do_push_def heap_push_def do_schedule_def
        do_look_def sched_new_def Let_def)
  from delivers_least_due_entry [OF this] show ?thesis by blast
qed

text \<open>Nothing is delivered before it is due.\<close>

theorem delivered_on_time:
  assumes "reachable sched_start sched_step s" and "(k, d, t) \<in> set (delivered s)"
  shows "d \<le> t \<and> t \<le> clock s"
  using sched.reachable_inv [OF assms(1)] assms(2) by (auto simp: sched_inv_def on_time_def)

theorem delivered_on_time_witness:
  "delivered (do_pop (do_decide \<lparr>due = 0, seq = 1, ekey = ''srv-1''\<rparr> (do_look (do_wake (do_notify demo_sched)))))
     = [(''srv-1'', 0, 0)] \<and> (0 :: real) \<le> 0"
proof -
  let ?e = "\<lparr>due = 0, seq = 1, ekey = ''srv-1''\<rparr> :: schedule_entry"
  let ?s1 = "do_notify demo_sched"
  let ?s2 = "do_wake ?s1"
  let ?s3 = "do_look ?s2"
  let ?s4 = "do_decide ?e ?s3"
  note ev = demo_sched_def do_push_def heap_push_def do_schedule_def do_look_def sched_new_def Let_def
    do_notify_def do_wake_def do_decide_def heap_peek_def
  have "reachable sched_start sched_step ?s1"
    by (rule reach_inner [OF demo_sched_reachable], rule inner_step.notify) (simp add: ev)
  then have "reachable sched_start sched_step ?s2"
    by (rule reach_inner, intro inner_step.wake_parked) (simp_all add: ev)
  then have "reachable sched_start sched_step ?s3"
    by (rule reach_inner, intro inner_step.look) (simp add: ev)
  then have "reachable sched_start sched_step ?s4"
    by (rule reach_inner, intro inner_step.decide) (simp add: ev)
  then have r: "reachable sched_start sched_step (do_pop ?s4)"
    by (rule reach_inner, intro inner_step.pop_top) (simp add: ev)
  have d: "delivered (do_pop ?s4) = [(''srv-1'', 0, 0)]"
    by (simp add: do_pop_def heap_pop_def ev)
  show ?thesis using d delivered_on_time [OF r, of "''srv-1''" 0 0] by simp
qed

end
