(* ===== verification/Poller.thy ===== *)
theory Poller
  imports Worker Scheduler
begin

text \<open>
  The tasks of \<open>run\<close> in \<open>src/src/collector.rs\<close> together: the catalog refresh, the trigger file, the
  force-ping queue, the scheduler (\<open>Scheduler\<close>) with the task that dispatches due keys, the bounded
  channel of work, and the workers. A step is one stretch of code under a lock or between two \<open>await\<close>s,
  so that the steps are all interleavings. A worker whose status timeout is no \<open>Duration\<close> panics in its poll
  and never finishes it. The delivery of rows is a pipeline behind it (\<open>Delivery\<close>).
\<close>

text \<open>
  Where the dispatching task is: in \<open>next_due\<close>, about to compare a due key with its state, or waiting
  for room in the channel. Where a worker is: holding a key, about to postpone an internal host, or
  polling with a snapshot.
\<close>

datatype dispatcher = Waiting | Got str f64 | Sending str

datatype worker = Taken str | Skipping str | Polling str work_snapshot

fun worker_key :: "worker \<Rightarrow> str" where
  "worker_key (Taken k) = k"
| "worker_key (Skipping k) = k"
| "worker_key (Polling k snap) = k"

record poller =
  p_states :: states
  p_sched :: sched
  p_dispatch :: dispatcher
  p_queue :: "str list"
  p_workers :: "worker list"
  p_rows :: "json list"
  p_fetched :: "(str \<times> str) set"

definition poller_new :: poller where
  "poller_new = \<lparr>p_states = [], p_sched = sched_new, p_dispatch = Waiting, p_queue = [], p_workers = [], p_rows = [], p_fetched = {}\<rparr>"

definition schedule_all :: "requests \<Rightarrow> sched \<Rightarrow> sched" where
  "schedule_all reqs sc = fold (\<lambda>(k, d). do_schedule k d) reqs sc"

definition with_requests :: "states \<times> requests \<Rightarrow> poller \<Rightarrow> poller" where
  "with_requests mr s = s\<lparr>p_states := fst mr, p_sched := schedule_all (snd mr) (p_sched s)\<rparr>"

text \<open>What \<open>next_due\<close> has returned, if it has.\<close>

definition handed_over :: "sched \<Rightarrow> sched \<Rightarrow> dispatcher" where
  "handed_over sc sc' =
     (if delivered sc' = delivered sc then Waiting
      else case delivered sc' of (k, d, t) # _ \<Rightarrow> Got k d | [] \<Rightarrow> Waiting)"

definition begin_work :: "str \<Rightarrow> poller \<Rightarrow> poller" where
  "begin_work k s =
     (let ws = remove1 (Taken k) (p_workers s) in
      case work_begin (p_states s) k of
        Gone \<Rightarrow> s\<lparr>p_workers := ws\<rparr>
      | Skip_internal \<Rightarrow> s\<lparr>p_workers := Skipping k # ws\<rparr>
      | Poll snap \<Rightarrow> s\<lparr>p_workers := Polling k snap # ws\<rparr>)"

text \<open>The steps of the tasks that carry a key from the schedule through a poll, and of the clock.\<close>

inductive work_step :: "externals \<Rightarrow> collector_settings \<Rightarrow> poller \<Rightarrow> poller \<Rightarrow> bool" for X C where
  push: "kd \<in> set (spawned (p_sched s)) \<Longrightarrow> work_step X C s (s\<lparr>p_sched := do_push kd (p_sched s)\<rparr>)"
| notified: "0 < notifying (p_sched s) \<Longrightarrow> work_step X C s (s\<lparr>p_sched := do_notify (p_sched s)\<rparr>)"
| pass: "0 \<le> dt \<Longrightarrow> work_step X C s (s\<lparr>p_sched := (p_sched s)\<lparr>clock := clock (p_sched s) + dt\<rparr>\<rparr>)"
| wait: "p_dispatch s = Waiting \<Longrightarrow> inner_step (p_sched s) sc \<Longrightarrow>
    work_step X C s (s\<lparr>p_sched := sc, p_dispatch := handed_over (p_sched s) sc\<rparr>)"
| check: "p_dispatch s = Got k d \<Longrightarrow>
    work_step X C s (s\<lparr>p_dispatch := if still_due (p_states s) k d then Sending k else Waiting\<rparr>)"
| send: "p_dispatch s = Sending k \<Longrightarrow> length (p_queue s) < max_concurrency C * 4 \<Longrightarrow>
    work_step X C s (s\<lparr>p_dispatch := Waiting, p_queue := p_queue s @ [k]\<rparr>)"
| take: "p_queue s = k # q \<Longrightarrow> length (p_workers s) < max_concurrency C \<Longrightarrow>
    work_step X C s (s\<lparr>p_queue := q, p_workers := Taken k # p_workers s\<rparr>)"
| start: "Taken k \<in> set (p_workers s) \<Longrightarrow> work_step X C s (begin_work k s)"
| skip: "Skipping k \<in> set (p_workers s) \<Longrightarrow>
    work_step X C s (with_requests (skip_internal C r now k (p_states s))
      (s\<lparr>p_workers := remove1 (Skipping k) (p_workers s)\<rparr>))"
| finish: "Polling k snap \<in> set (p_workers s) \<Longrightarrow> duration_from_secs (status_timeout_seconds C) \<noteq> None \<Longrightarrow>
    finish_work X C e snap result k (p_states s, p_rows s) = ((m', rows'), reqs, calls) \<Longrightarrow>
    work_step X C s (with_requests (m', reqs)
      (s\<lparr>p_workers := remove1 (Polling k snap) (p_workers s), p_rows := rows'\<rparr>))"
| rows_taken: "p_rows s = v # rows \<Longrightarrow> work_step X C s (s\<lparr>p_rows := rows\<rparr>)"

text \<open>
  The step of the force-ping task that inserts a server it has fetched, under the text it was asked for. The
  history keeps this text, with the identifier of the server it has got.
\<close>

definition force_fetched :: "externals \<Rightarrow> collector_settings \<Rightarrow> refresh_draws \<Rightarrow> f64 \<Rightarrow> str \<Rightarrow> json \<Rightarrow> poller \<Rightarrow> poller" where
  "force_fetched X C d now target srv s =
     (with_requests (force_ping_fetched X C d now target srv (p_states s)) s)
       \<lparr>p_fetched := insert (target, server_key X srv) (p_fetched s)\<rparr>"

text \<open>The tasks that are driven from outside: the catalog, the trigger file and the force-ping queue.\<close>

inductive poller_step :: "externals \<Rightarrow> collector_settings \<Rightarrow> poller \<Rightarrow> poller \<Rightarrow> bool" for X C where
  work: "work_step X C s t \<Longrightarrow> poller_step X C s t"
| refresh: "servers \<noteq> [] \<Longrightarrow> poller_step X C s (with_requests (refresh_states X C draws now servers (p_states s)) s)"
| trigger: "poller_step X C s (with_requests (trigger_targets now targets (p_states s)) s)"
| force: "force_ping_known now target (p_states s) = Some mr \<Longrightarrow> poller_step X C s (with_requests mr s)"
| fetched: "poller_step X C s (force_fetched X C d now target srv s)"

inductive_cases work_stepE: "work_step X C s t"
inductive_cases poller_stepE: "poller_step X C s t"

text \<open>Where fetched servers have been inserted, and that each was the one that was asked for.\<close>

definition fetched_keys :: "poller \<Rightarrow> str set" where
  "fetched_keys s = fst ` p_fetched s"

definition named_truly :: "poller \<Rightarrow> bool" where
  "named_truly s \<longleftrightarrow> (\<forall>(target, own) \<in> p_fetched s. own = target)"

subsection \<open>No tracked server is forgotten\<close>

definition sched_entries :: "sched \<Rightarrow> (str \<times> f64) set" where
  "sched_entries sc = set (spawned sc) \<union> entry_item ` set (heap sc)"

text \<open>
  A server will be polled: the scheduler holds an entry for the time it is due at, the dispatcher has
  just got that entry, or its key is on the way to a worker or with one.
\<close>

definition will_be_polled :: "poller \<Rightarrow> str \<Rightarrow> f64 \<Rightarrow> bool" where
  "will_be_polled s k d \<longleftrightarrow>
     (k, d) \<in> sched_entries (p_sched s) \<or> p_dispatch s = Got k d \<or> p_dispatch s = Sending k \<or>
     k \<in> set (p_queue s) \<or> k \<in> worker_key ` set (p_workers s)"

text \<open>All servers will be, but for those in \<open>F\<close>; in the end these are the ones that a force ping has fetched.\<close>

definition covered :: "str set \<Rightarrow> poller \<Rightarrow> bool" where
  "covered F s \<longleftrightarrow>
     (\<forall>k st. hm_get (p_states s) k = Some st \<longrightarrow> k \<notin> F \<longrightarrow> will_be_polled s k (next_due st))"

definition inv_but :: "str set \<Rightarrow> poller \<Rightarrow> bool" where
  "inv_but F s \<longleftrightarrow> hm_ok (p_states s) \<and> keys_agree F (p_states s) \<and> covered F s \<and> sched_inv (p_sched s)"

definition poller_inv :: "poller \<Rightarrow> bool" where
  "poller_inv s \<longleftrightarrow> inv_but (fetched_keys s) s"

lemma schedule_all_fields [simp]:
  "clock (schedule_all reqs sc) = clock sc" "heap (schedule_all reqs sc) = heap sc"
  "spawned (schedule_all reqs sc) = rev reqs @ spawned sc"
  unfolding schedule_all_def by (induction reqs arbitrary: sc) (auto simp: do_schedule_def)

lemma sched_entries_schedule_all [simp]:
  "sched_entries (schedule_all reqs sc) = set reqs \<union> sched_entries sc"
  by (auto simp: sched_entries_def)

lemma with_requests_fields [simp]:
  "p_states (with_requests mr s) = fst mr" "p_queue (with_requests mr s) = p_queue s"
  "p_workers (with_requests mr s) = p_workers s" "p_dispatch (with_requests mr s) = p_dispatch s"
  "sched_entries (p_sched (with_requests mr s)) = set (snd mr) \<union> sched_entries (p_sched s)"
  "p_rows (with_requests mr s) = p_rows s" "p_fetched (with_requests mr s) = p_fetched s"
  by (simp_all add: with_requests_def)

lemma force_fetched_fields [simp]:
  "p_queue (force_fetched X C d now target srv s) = p_queue s" "p_workers (force_fetched X C d now target srv s) = p_workers s"
  "p_dispatch (force_fetched X C d now target srv s) = p_dispatch s" "p_rows (force_fetched X C d now target srv s) = p_rows s"
  "p_fetched (force_fetched X C d now target srv s) = insert (target, server_key X srv) (p_fetched s)"
  by (simp_all add: force_fetched_def)

text \<open>
  An update of the states keeps everyone covered when whoever is due at another time than before has
  been asked for.
\<close>

lemma covered_with_requests:
  assumes "covered F s" and "\<And>k st'. hm_get m' k = Some st' \<Longrightarrow> k \<notin> F \<Longrightarrow>
      (\<exists>st. hm_get (p_states s) k = Some st \<and> next_due st' = next_due st) \<or> (k, next_due st') \<in> set reqs"
  shows "covered F (with_requests (m', reqs) s)"
  unfolding covered_def
proof (intro allI impI)
  fix k st'
  assume "hm_get (p_states (with_requests (m', reqs) s)) k = Some st'"
  then have g: "hm_get m' k = Some st'" by simp
  assume "k \<notin> F"
  from assms(2) [OF g this] show "will_be_polled (with_requests (m', reqs) s) k (next_due st')"
  proof
    assume "\<exists>st. hm_get (p_states s) k = Some st \<and> next_due st' = next_due st"
    then obtain st where "hm_get (p_states s) k = Some st" "next_due st' = next_due st" by blast
    then have "will_be_polled s k (next_due st')" using assms(1) \<open>k \<notin> F\<close> by (simp add: covered_def)
    then show ?thesis by (auto simp: will_be_polled_def)
  qed (simp add: will_be_polled_def)
qed

text \<open>The scheduler gives up an entry only by handing it over.\<close>

lemma inner_step_entries:
  assumes "inner_step sc sc'"
  shows "sched_entries sc \<subseteq> sched_entries sc' \<union> {(k, d). handed_over sc sc' = Got k d}"
  using assms
proof (cases rule: inner_step.cases)
  case pop_top
  show ?thesis
  proof (cases rule: do_pop_cases [of sc])
    case (deliver e h)
    then have "mset (heap sc) = add_mset e (mset h)" by (simp add: heap_popE(2))
    then have "set (heap sc) = insert e (set h)" by (metis set_mset_add_mset_insert set_mset_mset)
    with deliver pop_top show ?thesis by (auto simp: sched_entries_def handed_over_def entry_item_def)
  qed (use pop_top in \<open>auto simp: sched_entries_def\<close>)
qed (auto simp: sched_entries_def do_look_def do_wake_def do_decide_def do_notify_def Let_def split: option.splits)

lemma entry_item_push: "sched_entries (do_push kd sc) \<supseteq> sched_entries sc"
proof -
  have "set (spawned sc) \<subseteq> insert kd (set (remove1 kd (spawned sc)))"
    by (rule subsetI) (metis in_set_remove1 insert_iff)
  then show ?thesis
    by (force simp: sched_entries_def do_push_def heap_push_def entry_item_def Let_def)
qed

lemma covered_same_states:
  assumes "covered F s" and "p_states s' = p_states s"
    and "\<And>k st. hm_get (p_states s) k = Some st \<Longrightarrow> will_be_polled s k (next_due st) \<Longrightarrow> will_be_polled s' k (next_due st)"
  shows "covered F s'"
  using assms by (simp add: covered_def)

lemma in_remove1_worker: "k' \<in> worker_key ` set ws \<Longrightarrow> k' \<noteq> worker_key w \<Longrightarrow> k' \<in> worker_key ` set (remove1 w ws)"
  by (metis (no_types, lifting) image_iff in_set_remove1)

text \<open>A worker may drop a key that it has just rescheduled, or whose server is gone.\<close>

lemma covered_worker_done:
  assumes cov: "covered F s" and w: "w \<in> set (p_workers s)"
    and other: "\<And>k. k \<noteq> worker_key w \<Longrightarrow> hm_get m' k = hm_get (p_states s) k"
    and own: "\<And>st. hm_get m' (worker_key w) = Some st \<Longrightarrow> (worker_key w, next_due st) \<in> set reqs"
  shows "covered F (with_requests (m', reqs) (s\<lparr>p_workers := remove1 w (p_workers s), p_rows := rows\<rparr>))"
  unfolding covered_def
proof (intro allI impI)
  let ?s = "with_requests (m', reqs) (s\<lparr>p_workers := remove1 w (p_workers s), p_rows := rows\<rparr>)"
  fix k st
  assume "hm_get (p_states ?s) k = Some st"
  then have g: "hm_get m' k = Some st" by simp
  assume kF: "k \<notin> F"
  show "will_be_polled ?s k (next_due st)"
  proof (cases "k = worker_key w")
    case True
    then show ?thesis using own g by (auto simp: will_be_polled_def)
  next
    case False
    then have "will_be_polled s k (next_due st)" using cov g other [OF False] kF by (simp add: covered_def)
    moreover have "k \<in> worker_key ` set (remove1 w (p_workers s))" if "k \<in> worker_key ` set (p_workers s)"
      using that False by (rule in_remove1_worker)
    ultimately show ?thesis unfolding will_be_polled_def by (simp, blast)
  qed
qed

lemma skip_internal_spec:
  assumes "skip_internal C r now k m = (m', reqs)"
  shows "k' \<noteq> k \<Longrightarrow> hm_get m' k' = hm_get m k'" "hm_get m' k = Some st \<Longrightarrow> (k, next_due st) \<in> set reqs"
    "hm_ok m \<Longrightarrow> hm_ok m'" "keys_agree F m \<Longrightarrow> keys_agree F m'"
  using assms by (auto simp: skip_internal_def Let_def keys_agree_def split: option.splits if_splits)

lemma finish_work_spec:
  assumes "finish_work X C e snap result k (m, rows) = ((m', rows'), reqs, calls)"
  shows "k' \<noteq> k \<Longrightarrow> hm_get m' k' = hm_get m k'" "hm_get m' k = Some st \<Longrightarrow> (k, next_due st) \<in> set reqs"
    "hm_ok m \<Longrightarrow> hm_ok m'" "keys_agree F m \<Longrightarrow> keys_agree F m'"
proof -
  have "keys_agree F (hm_insert k st' m)" if "keys_agree F m" "hm_get m k = Some st"
    "finish_state X C e snap result st = (st', p, c)" for st st' p c
    using that(1,2) finish_state_due(1) [OF that(3)] by (simp add: keys_agree_def)
  then show "k' \<noteq> k \<Longrightarrow> hm_get m' k' = hm_get m k'" "hm_get m' k = Some st \<Longrightarrow> (k, next_due st) \<in> set reqs"
    "hm_ok m \<Longrightarrow> hm_ok m'" "keys_agree F m \<Longrightarrow> keys_agree F m'"
    using assms by (auto simp: finish_work_def split: option.splits prod.splits)
qed

lemma sched_inv_steps [inv_intros]:
  "sched_inv sc \<Longrightarrow> sched_inv (schedule_all reqs sc)"
  "sched_inv sc \<Longrightarrow> kd \<in> set (spawned sc) \<Longrightarrow> sched_inv (do_push kd sc)"
  "sched_inv sc \<Longrightarrow> 0 < notifying sc \<Longrightarrow> sched_inv (do_notify sc)"
  "sched_inv sc \<Longrightarrow> 0 \<le> dt \<Longrightarrow> sched_inv (sc\<lparr>clock := clock sc + dt\<rparr>)"
proof -
  have "sched_inv (do_schedule (fst kd) (snd kd) sc)" if "sched_inv sc" for kd sc
    using that by (rule sched_step_inv) (rule sched_step.schedule)
  then show "sched_inv sc \<Longrightarrow> sched_inv (schedule_all reqs sc)"
    unfolding schedule_all_def by (induction reqs arbitrary: sc) (auto simp: case_prod_beta')
qed (auto intro: sched_step_inv sched_step.intros inner_step.intros)

lemma poller_inv_requests:
  assumes "inv_but F s" and "hm_ok m'" and "keys_agree F m'"
    and "\<And>k st'. hm_get m' k = Some st' \<Longrightarrow> k \<notin> F \<Longrightarrow>
      (\<exists>st. hm_get (p_states s) k = Some st \<and> next_due st' = next_due st) \<or> (k, next_due st') \<in> set reqs"
  shows "inv_but F (with_requests (m', reqs) s)"
  using assms covered_with_requests [of F s m' reqs] by (simp add: inv_but_def with_requests_def inv_intros)

lemma poller_inv_same_states:
  assumes "inv_but F s" and "p_states s' = p_states s" and "sched_inv (p_sched s')"
    and "\<And>k st. hm_get (p_states s) k = Some st \<Longrightarrow> will_be_polled s k (next_due st) \<Longrightarrow> will_be_polled s' k (next_due st)"
  shows "inv_but F s'"
  using assms covered_same_states [of F s s'] by (simp add: inv_but_def)

lemma poller_inv_worker_done:
  assumes "inv_but F s" and "w \<in> set (p_workers s)" and "hm_ok m'" and "keys_agree F m'"
    and "\<And>k. k \<noteq> worker_key w \<Longrightarrow> hm_get m' k = hm_get (p_states s) k"
    and "\<And>st. hm_get m' (worker_key w) = Some st \<Longrightarrow> (worker_key w, next_due st) \<in> set reqs"
  shows "inv_but F (with_requests (m', reqs) (s\<lparr>p_workers := remove1 w (p_workers s), p_rows := rows\<rparr>))"
  using assms covered_worker_done [of F s w m' reqs rows] by (simp add: inv_but_def with_requests_def inv_intros)

lemma trigger_due:
  assumes "trigger_targets now targets m = (m', reqs)" and "keys_agree F m" and "hm_get m' k = Some st'" and "k \<notin> F"
  shows "(\<exists>st. hm_get m k = Some st \<and> next_due st' = next_due st) \<or> (k, next_due st') \<in> set reqs"
  using trigger_targets_spec(1,3) [OF assms(1), of k] assms(2-)
  by (cases "hm_get m k") (auto simp: keys_agree_def split: if_splits)

lemma force_due:
  assumes "force_ping_known now target m = Some (m', reqs)"
  shows "hm_ok m \<Longrightarrow> hm_ok m'" "keys_agree F m \<Longrightarrow> keys_agree F m'"
    "keys_agree F m \<Longrightarrow> hm_get m' k = Some st' \<Longrightarrow> k \<notin> F \<Longrightarrow>
      (\<exists>st. hm_get m k = Some st \<and> next_due st' = next_due st) \<or> (k, next_due st') \<in> set reqs"
  using assms by (auto simp: force_ping_known_def keys_agree_def split: option.splits if_splits)

lemma work_step_inv: "inv_but F s \<Longrightarrow> work_step X C s t \<Longrightarrow> inv_but F t"
proof (erule work_stepE, goal_cases)
  case (1 kd)
  show ?case
    by (rule poller_inv_same_states [OF 1(1)])
      (use 1 entry_item_push [of "p_sched s" kd] in \<open>auto simp: will_be_polled_def inv_but_def inv_intros\<close>)
next
  case 2
  show ?case
    by (rule poller_inv_same_states [OF 2(1)])
      (use 2 in \<open>auto simp: will_be_polled_def sched_entries_def inv_but_def inv_intros\<close>, simp_all add: do_notify_def)
next
  case (3 dt)
  show ?case
    by (rule poller_inv_same_states [OF 3(1)])
      (use 3 in \<open>auto simp: will_be_polled_def sched_entries_def inv_but_def inv_intros\<close>)
next
  case (4 sc)
  show ?case
    by (rule poller_inv_same_states [OF 4(1)])
      (use 4 inner_step_entries [of "p_sched s" sc] in \<open>auto simp: will_be_polled_def inv_but_def intro: inner_step_inv\<close>)
next
  case (5 k d)
  show ?case
    by (rule poller_inv_same_states [OF 5(1)])
      (use 5 in \<open>auto simp: will_be_polled_def still_due_def inv_but_def\<close>)
next
  case (6 k)
  show ?case
    by (rule poller_inv_same_states [OF 6(1)]) (use 6 in \<open>auto simp: will_be_polled_def inv_but_def\<close>)
next
  case (7 k q)
  show ?case
    by (rule poller_inv_same_states [OF 7(1)]) (use 7 in \<open>auto simp: will_be_polled_def inv_but_def\<close>)
next
  case (8 k)
  show ?case
  proof (rule poller_inv_same_states [OF 8(1)])
    fix k' st
    assume g: "hm_get (p_states s) k' = Some st" and w: "will_be_polled s k' (next_due st)"
    show "will_be_polled t k' (next_due st)"
      using w g 8(2) in_remove1_worker [of k' "p_workers s" "Taken k"]
      by (cases "k' = k")
        (auto simp: will_be_polled_def begin_work_def work_begin_def Let_def split: work_plan.split option.split)
  qed (use 8 in \<open>auto simp: begin_work_def Let_def inv_but_def split: work_plan.split\<close>)
next
  case (9 k r now)
  obtain m' reqs where r: "skip_internal C r now k (p_states s) = (m', reqs)" by fastforce
  note f = skip_internal_spec [OF r]
  have "inv_but F (with_requests (m', reqs) (s\<lparr>p_workers := remove1 (Skipping k) (p_workers s), p_rows := p_rows s\<rparr>))"
    by (rule poller_inv_worker_done [OF 9(1)]) (use 9 f in \<open>auto simp: inv_but_def\<close>)
  then show ?case using 9 r by simp
next
  case (10 k snap e result m' rows' reqs calls)
  note f = finish_work_spec [OF 10(4)]
  show ?case
    unfolding 10(2) by (rule poller_inv_worker_done [OF 10(1)]) (use 10 f in \<open>auto simp: inv_but_def\<close>)
next
  case (11 v rows)
  show ?case
    by (rule poller_inv_same_states [OF 11(1)]) (use 11 in \<open>auto simp: will_be_polled_def inv_but_def\<close>)
qed

lemma work_step_fetched: "work_step X C s t \<Longrightarrow> p_fetched t = p_fetched s"
  by (erule work_stepE) (auto simp: begin_work_def Let_def split: work_plan.split)

text \<open>A fetched server adds itself to the exceptions.\<close>

lemma force_fetched_inv:
  assumes "inv_but F p"
  shows "inv_but (insert target F) (force_fetched X C d now target srv p)"
proof -
  obtain m' reqs where r: "force_ping_fetched X C d now target srv (p_states p) = (m', reqs)" by fastforce
  then obtain st where m': "m' = hm_insert target st (p_states p)" by (auto simp: force_ping_fetched_def Let_def)
  have p: "inv_but (insert target F) p"
    using assms by (auto simp: inv_but_def keys_agree_def covered_def)
  have "inv_but (insert target F) (with_requests (m', reqs) p)"
    by (rule poller_inv_requests [OF p]) (use p in \<open>auto simp: m' inv_but_def keys_agree_def\<close>)
  then show ?thesis
    by (simp add: force_fetched_def r inv_but_def covered_def will_be_polled_def)
qed

lemma poller_step_fetched: "poller_step X C s t \<Longrightarrow> p_fetched s \<subseteq> p_fetched t"
  by (erule poller_stepE) (auto dest: work_step_fetched)

lemma named_truly_before: "poller_step X C s t \<Longrightarrow> named_truly t \<Longrightarrow> named_truly s"
  using poller_step_fetched [of X C s t] by (auto simp: named_truly_def)

lemma known_step_inv:
  "inv_but F s \<Longrightarrow> poller_step X C s t \<Longrightarrow> (\<And>d now target srv. t \<noteq> force_fetched X C d now target srv s) \<Longrightarrow> inv_but F t"
proof (erule poller_stepE, goal_cases)
  case 1
  then show ?case by (blast intro: work_step_inv)
next
  case (2 servers draws now)
  obtain m' reqs where r: "refresh_states X C draws now servers (p_states s) = (m', reqs)" by fastforce
  have ok: "hm_ok (p_states s)" "keys_agree F (p_states s)" using 2 by (simp_all add: inv_but_def)
  have "inv_but F (with_requests (m', reqs) s)"
    by (rule poller_inv_requests [OF 2(1) refresh_states_ok(1) [OF r ok(1)] refresh_states_ok(2) [OF r ok]])
      (rule refresh_states_due [OF r ok(1)])
  then show ?case using 2 r by simp
next
  case (3 now targets)
  obtain m' reqs where r: "trigger_targets now targets (p_states s) = (m', reqs)" by fastforce
  have ok: "hm_ok (p_states s)" "keys_agree F (p_states s)" using 3 by (simp_all add: inv_but_def)
  have "inv_but F (with_requests (m', reqs) s)"
    by (rule poller_inv_requests [OF 3(1) trigger_targets_spec(2) [OF r ok(1)] trigger_targets_keys_agree [OF r ok(2)]])
      (rule trigger_due [OF r ok(2)])
  then show ?case using 3 r by simp
next
  case (4 now target mr)
  obtain m' reqs where mr: "mr = (m', reqs)" by (cases mr)
  have ok: "hm_ok (p_states s)" "keys_agree F (p_states s)" using 4 by (simp_all add: inv_but_def)
  note f = force_due [OF 4(4) [unfolded mr]]
  have "inv_but F (with_requests (m', reqs) s)"
    by (rule poller_inv_requests [OF 4(1) f(1) [OF ok(1)] f(2) [OF ok(2)]]) (rule f(3) [OF ok(2)])
  then show ?case using 4 mr by simp
qed blast

lemma poller_step_inv:
  assumes "poller_inv s" and "poller_step X C s t"
  shows "poller_inv t"
proof (cases "\<exists>d now target srv. t = force_fetched X C d now target srv s")
  case True
  then show ?thesis
    using assms(1) force_fetched_inv [of "fetched_keys s" s] by (auto simp: poller_inv_def fetched_keys_def)
next
  case False
  then have "p_fetched t = p_fetched s"
    using assms(2) by (auto elim!: poller_stepE dest: work_step_fetched)
  then show ?thesis
    using known_step_inv [OF _ assms(2)] assms(1) False by (auto simp: poller_inv_def fetched_keys_def)
qed

definition poller_start :: "poller \<Rightarrow> bool" where
  "poller_start s \<longleftrightarrow> s = poller_new"

lemma poller_inv_new: "poller_inv poller_new"
  by (simp add: poller_inv_def inv_but_def poller_new_def covered_def hm_ok_def keys_agree_def sched_inv_new)

interpretation poller: transition_system poller_start "poller_step X C" poller_inv for X C
  by unfold_locales (auto simp: poller_start_def poller_inv_new intro: poller_step_inv)

definition demo_poller :: poller where
  "demo_poller =
     with_requests (refresh_states demo_externals demo_settings (\<lambda>_. demo_draws) 100 [demo_catalog] (p_states poller_new)) poller_new"

text \<open>Steps that find room in the channel of rows, and steps that leave it and the states as they are.\<close>

definition roomy_step :: "externals \<Rightarrow> collector_settings \<Rightarrow> poller \<Rightarrow> poller \<Rightarrow> bool" where
  "roomy_step X C s t \<longleftrightarrow> poller_step X C s t \<and> length (p_rows s) < result_queue_maxsize C"

definition quiet_step :: "externals \<Rightarrow> collector_settings \<Rightarrow> poller \<Rightarrow> poller \<Rightarrow> bool" where
  "quiet_step X C s t \<longleftrightarrow> work_step X C s t \<and> p_rows t = p_rows s \<and> p_states t = p_states s"

lemma roomy_reachable: "reachable poller_start (roomy_step X C) s \<Longrightarrow> reachable poller_start (poller_step X C) s"
  by (erule reachable_mono) (simp add: roomy_step_def)

lemma quiet_steps: "(quiet_step X C)\<^sup>*\<^sup>* s t \<Longrightarrow> (work_step X C)\<^sup>*\<^sup>* s t"
  by (erule mono_rtranclp [rule_format, rotated]) (simp add: quiet_step_def)

lemma quiet_reachable:
  assumes "(quiet_step X C)\<^sup>*\<^sup>* s t" and "reachable poller_start (roomy_step X C) s"
    and "length (p_rows s) < result_queue_maxsize C"
  shows "reachable poller_start (roomy_step X C) t \<and> p_rows t = p_rows s"
  using assms(1)
proof (induction rule: rtranclp_induct)
  case (step t u)
  then show ?case
    using assms(3) by (auto simp: quiet_step_def roomy_step_def intro: reachable_step poller_step.work)
qed (simp add: assms(2))

lemma demo_sizes [simp]: "max_concurrency demo_settings = 25" "result_queue_maxsize demo_settings = 5000"
  by (simp_all add: demo_settings_def load_collector_def demo_readers_def chain_def)

lemma demo_durations:
  "duration_from_secs (status_timeout_seconds demo_settings) \<noteq> None"
  "duration_from_secs (ingest_flush_seconds demo_settings) \<noteq> None"
  by (simp_all add: demo_settings_def load_collector_def demo_readers_def chain_def duration_from_secs_def)

lemma demo_poller_roomy: "reachable poller_start (roomy_step demo_externals demo_settings) demo_poller"
proof -
  have "reachable poller_start (roomy_step demo_externals demo_settings) poller_new"
    by (rule reachable_start) (simp add: poller_start_def)
  moreover have "poller_step demo_externals demo_settings poller_new demo_poller"
    unfolding demo_poller_def by (rule poller_step.refresh) simp
  ultimately have "roomy_step demo_externals demo_settings poller_new demo_poller"
    by (simp add: roomy_step_def poller_new_def)
  with \<open>reachable poller_start (roomy_step demo_externals demo_settings) poller_new\<close> show ?thesis
    by (rule reachable_step)
qed

lemmas demo_poller_reachable = demo_poller_roomy [THEN roomy_reachable]

definition demo_tracked :: server_state where
  "demo_tracked = build_state demo_externals (\<lambda>lo hi. lo) (\<lambda>lo hi. lo) 0 demo_catalog 100
     (startup_spread_seconds demo_settings) (bedrock_probe_interval_seconds demo_settings)
     (plugin_fallback_stale_seconds demo_settings)"

lemma demo_tracked_fields [simp]:
  "next_due demo_tracked = 100" "has_emitted_state demo_tracked = False" "plugin_managed demo_tracked = False"
  by (simp_all add: demo_tracked_def build_state_def demo_catalog_def is_plugin_managed_def Let_def split: prod.splits)

lemma demo_poller_fields [simp]:
  "hm_get (p_states demo_poller) ''srv-1'' = Some demo_tracked"
  "p_sched demo_poller = do_schedule ''srv-1'' 100 sched_new" "p_dispatch demo_poller = Waiting"
  "p_queue demo_poller = []" "p_workers demo_poller = []" "p_rows demo_poller = []" "p_fetched demo_poller = {}"
proof -
  have k: "server_key demo_externals demo_catalog = ''srv-1''" by (simp add: server_key_def demo_catalog_def)
  show "hm_get (p_states demo_poller) ''srv-1'' = Some demo_tracked"
    "p_sched demo_poller = do_schedule ''srv-1'' 100 sched_new" "p_dispatch demo_poller = Waiting"
    "p_queue demo_poller = []" "p_workers demo_poller = []" "p_rows demo_poller = []" "p_fetched demo_poller = {}"
    by (simp_all add: demo_poller_def demo_tracked_def with_requests_def poller_new_def refresh_states_def
        refresh_server_def k demo_draws_def schedule_all_def Let_def hm_get_retain)
qed

text \<open>
  C4: No tracked server is forgotten, but for one that a force ping has fetched. In every state the tasks can
  reach, in any interleaving and whatever polls, refreshes, triggers and force pings bring, a tracked server that
  no force ping has inserted is kept under its own identifier, and it has an entry in the scheduler for the very
  time it is due at, or that entry has just been handed over, or its key is on the way to a worker or with one.
\<close>

theorem tracked_server_will_be_polled:
  assumes "reachable poller_start (poller_step X C) s" and "hm_get (p_states s) k = Some st"
    and "k \<notin> fst ` p_fetched s"
  shows "key st = k \<and>
    ((k, next_due st) \<in> set (spawned (p_sched s)) \<or>
     (\<exists>e\<in>set (heap (p_sched s)). ekey e = k \<and> due e = next_due st) \<or>
     p_dispatch s = Got k (next_due st) \<or> p_dispatch s = Sending k \<or> k \<in> set (p_queue s) \<or>
     (\<exists>w\<in>set (p_workers s). worker_key w = k))"
proof -
  have "poller_inv s" by (rule poller.reachable_inv [OF assms(1)])
  then have "keys_agree (fst ` p_fetched s) (p_states s)" "will_be_polled s k (next_due st)"
    using assms(2,3) by (simp_all add: poller_inv_def inv_but_def covered_def fetched_keys_def)
  then show ?thesis
    using assms(2,3) unfolding will_be_polled_def sched_entries_def entry_item_def keys_agree_def by auto
qed

theorem tracked_server_will_be_polled_witness:
  "hm_get (p_states demo_poller) ''srv-1'' = Some demo_tracked \<and> key demo_tracked = ''srv-1'' \<and>
   (''srv-1'', next_due demo_tracked) \<in> set (spawned (p_sched demo_poller))"
  using tracked_server_will_be_polled [OF demo_poller_reachable demo_poller_fields(1)] demo_poller_fields(7)
  by (simp add: do_schedule_def sched_new_def)

subsection \<open>The scheduler serves the dispatcher\<close>

lemma inner_step_delivers:
  assumes "inner_step sc sc'" and "delivered sc' \<noteq> delivered sc"
  obtains k d where "handed_over sc sc' = Got k d" "d \<le> clock sc"
  using assms
proof (cases rule: inner_step.cases)
  case pop_top
  show ?thesis
    by (cases rule: do_pop_cases [of sc]) (use pop_top assms(2) that in \<open>auto simp: handed_over_def\<close>)
qed (auto simp: do_look_def split: option.splits)

lemma inner_step_clock: "inner_step sc sc' \<Longrightarrow> clock sc' = clock sc"
proof (erule inner_stepE, goal_cases)
  case 6
  then show ?case by (cases rule: do_pop_cases [of sc]) auto
qed (auto simp: do_look_def split: option.splits)

text \<open>A run of the scheduler that delivers is a run of the poller that hands an entry over.\<close>

lemma delivery_reaches_dispatcher:
  assumes "inner_step\<^sup>*\<^sup>* sc sc'" and "delivered sc' \<noteq> delivered sc" and "p_sched s = sc" and "p_dispatch s = Waiting"
  shows "\<exists>t k d. (work_step X C)\<^sup>*\<^sup>* s t \<and> p_dispatch t = Got k d \<and> d \<le> clock (p_sched t) \<and>
    clock (p_sched t) = clock sc \<and> p_states t = p_states s"
  using assms
proof (induction arbitrary: s rule: converse_rtranclp_induct)
  case (step sc sc1)
  let ?s1 = "s\<lparr>p_sched := sc1, p_dispatch := handed_over sc sc1\<rparr>"
  have w: "work_step X C s ?s1"
    using work_step.wait [of s sc1 X C] step.hyps(1) step.prems by simp
  show ?case
  proof (cases "delivered sc1 = delivered sc")
    case True
    then have "handed_over sc sc1 = Waiting" by (simp add: handed_over_def)
    with True step.IH [of ?s1] step.prems inner_step_clock [OF step.hyps(1)] obtain t k d where
      t: "(work_step X C)\<^sup>*\<^sup>* ?s1 t" "p_dispatch t = Got k d" "d \<le> clock (p_sched t)"
        "clock (p_sched t) = clock sc" "p_states t = p_states s" by auto
    show ?thesis
      by (intro exI conjI) (rule converse_rtranclp_into_rtranclp [OF w t(1)], fact+)
  next
    case False
    obtain k d where "handed_over sc sc1 = Got k d" "d \<le> clock sc"
      by (rule inner_step_delivers [OF step.hyps(1) False])
    with w inner_step_clock [OF step.hyps(1)] show ?thesis by (intro exI [of _ ?s1]) auto
  qed
qed simp

text \<open>
  C15: An overdue entry does not wait for anyone. Whenever the dispatcher is in \<open>next_due\<close> and an entry of
  the heap is due, the tasks can go on, without the clock moving and without any state changing, until
  a due key is handed to the dispatcher.
\<close>

theorem overdue_key_is_dispatched:
  assumes "reachable poller_start (poller_step X C) s" and "p_dispatch s = Waiting"
    and "e \<in> set (heap (p_sched s))" and "due e \<le> clock (p_sched s)"
  shows "\<exists>t k d. (work_step X C)\<^sup>*\<^sup>* s t \<and> p_dispatch t = Got k d \<and> d \<le> clock (p_sched t) \<and>
    clock (p_sched t) = clock (p_sched s) \<and> p_states t = p_states s"
proof -
  have "sched_inv (p_sched s)" using poller.reachable_inv [OF assms(1)] by (simp add: poller_inv_def inv_but_def)
  moreover have "overdue (p_sched s)" using assms(3,4) by (auto simp: overdue_def)
  ultimately have "delivers (p_sched s)" by (rule overdue_delivers)
  then obtain sc' where "inner_step\<^sup>*\<^sup>* (p_sched s) sc'" "delivered sc' \<noteq> delivered (p_sched s)"
    unfolding delivers_def by (metis n_not_Suc_n)
  from delivery_reaches_dispatcher [OF this refl assms(2)] show ?thesis .
qed

text \<open>The same a hundred seconds later, when the server is due.\<close>

definition demo_overdue :: poller where
  "demo_overdue =
     (let s = demo_poller\<lparr>p_sched := do_push (''srv-1'', 100) (p_sched demo_poller)\<rparr>
      in s\<lparr>p_sched := (p_sched s)\<lparr>clock := clock (p_sched s) + 100\<rparr>\<rparr>)"

lemma demo_overdue_roomy: "reachable poller_start (roomy_step demo_externals demo_settings) demo_overdue"
proof -
  let ?s = "demo_poller\<lparr>p_sched := do_push (''srv-1'', 100) (p_sched demo_poller)\<rparr>"
  have "work_step demo_externals demo_settings demo_poller ?s"
    by (rule work_step.push) (simp add: do_schedule_def)
  then have "quiet_step demo_externals demo_settings demo_poller ?s" by (simp add: quiet_step_def)
  moreover have "work_step demo_externals demo_settings ?s demo_overdue"
    unfolding demo_overdue_def Let_def by (rule work_step.pass) simp
  then have "quiet_step demo_externals demo_settings ?s demo_overdue"
    by (simp add: quiet_step_def demo_overdue_def Let_def)
  ultimately have "(quiet_step demo_externals demo_settings)\<^sup>*\<^sup>* demo_poller demo_overdue" by simp
  from quiet_reachable [OF this demo_poller_roomy] show ?thesis by simp
qed

lemmas demo_overdue_reachable = demo_overdue_roomy [THEN roomy_reachable]

definition demo_entry :: schedule_entry where
  "demo_entry = \<lparr>due = 100, seq = 1, ekey = ''srv-1''\<rparr>"

lemma demo_overdue_fields [simp]:
  "heap (p_sched demo_overdue) = [demo_entry]" "waiter (p_sched demo_overdue) = Looking"
  "clock (p_sched demo_overdue) = 100" "p_dispatch demo_overdue = Waiting" "p_queue demo_overdue = []"
  "p_workers demo_overdue = []" "p_rows demo_overdue = []" "p_states demo_overdue = p_states demo_poller"
  "p_fetched demo_overdue = {}"
  by (simp_all add: demo_overdue_def demo_entry_def do_push_def heap_push_def do_schedule_def sched_new_def Let_def)

theorem overdue_key_is_dispatched_witness:
  "\<exists>t k d. (work_step demo_externals demo_settings)\<^sup>*\<^sup>* demo_overdue t \<and> p_dispatch t = Got k d \<and> d \<le> 100"
  using overdue_key_is_dispatched [OF demo_overdue_reachable, of demo_entry]
  by (auto simp: demo_entry_def)

lemma begin_work_rows: "p_rows (begin_work k s) = p_rows s" "p_states (begin_work k s) = p_states s"
  by (simp_all add: begin_work_def Let_def split: work_plan.split)

text \<open>The steps from the dispatcher to a worker.\<close>

lemma dispatched_steps:
  assumes "p_dispatch s = Got k (next_due st)" and "hm_get (p_states s) k = Some st"
    and "p_queue s = []" and "length (p_workers s) < max_concurrency C"
  shows "(quiet_step X C)\<^sup>*\<^sup>* s
    (begin_work k (s\<lparr>p_dispatch := Waiting, p_queue := [], p_workers := Taken k # p_workers s\<rparr>))"
proof -
  let ?s1 = "s\<lparr>p_dispatch := Sending k\<rparr>"
  let ?s2 = "s\<lparr>p_dispatch := Waiting, p_queue := [k]\<rparr>"
  let ?s3 = "s\<lparr>p_dispatch := Waiting, p_queue := [], p_workers := Taken k # p_workers s\<rparr>"
  have "quiet_step X C s ?s1"
    using work_step.check [of s k "next_due st" X C] assms(1,2) by (simp add: still_due_def quiet_step_def)
  moreover have "quiet_step X C ?s1 ?s2"
    using work_step.send [of ?s1 k C X] assms(3,4) by (simp add: quiet_step_def)
  moreover have "quiet_step X C ?s2 ?s3"
    using work_step.take [of ?s2 k "[]" C X] assms(3,4) by (simp add: quiet_step_def)
  moreover have "quiet_step X C ?s3 (begin_work k ?s3)"
    using work_step.start [of k ?s3 X C] by (simp add: quiet_step_def begin_work_rows)
  ultimately show ?thesis
    by (meson converse_rtranclp_into_rtranclp rtranclp.rtrancl_refl)
qed

lemma begin_work_now:
  assumes "hm_get (p_states s) k = Some st"
  shows "begin_work k (s\<lparr>p_dispatch := Waiting, p_queue := [], p_workers := Taken k # p_workers s\<rparr>) =
    s\<lparr>p_dispatch := Waiting, p_queue := [], p_workers :=
      (if plugin_managed st \<and> is_internal_only_host (host st) then Skipping k
       else Polling k (snapshot_of st)) # p_workers s\<rparr>"
  using assms by (simp add: begin_work_def work_begin_def snapshot_of_def Let_def)

text \<open>
  A due server is polled. When the dispatcher has got the entry of a tracked server for the time it
  is due at, and the queue is empty and a worker idle, the tasks can go on until that worker polls the
  server with what its state says, or postpones it because its host is internal.
\<close>

theorem dispatched_server_is_polled:
  assumes "p_dispatch s = Got k (next_due st)" and "hm_get (p_states s) k = Some st"
    and "p_queue s = []" and "length (p_workers s) < max_concurrency C"
  shows "\<exists>t. (work_step X C)\<^sup>*\<^sup>* s t \<and> p_states t = p_states s \<and>
    (if plugin_managed st \<and> is_internal_only_host (host st) then Skipping k \<in> set (p_workers t)
     else Polling k (snapshot_of st) \<in> set (p_workers t))"
  using quiet_steps [OF dispatched_steps [OF assms, of X]]
  by (intro exI [of _ "begin_work k (s\<lparr>p_dispatch := Waiting, p_queue := [], p_workers := Taken k # p_workers s\<rparr>)"])
    (simp add: begin_work_now [OF assms(2)])

theorem dispatched_server_is_polled_witness:
  "\<exists>t. (work_step demo_externals demo_settings)\<^sup>*\<^sup>* (demo_overdue\<lparr>p_dispatch := Got ''srv-1'' 100\<rparr>) t \<and>
     Polling ''srv-1'' (snapshot_of demo_tracked) \<in> set (p_workers t)"
  using dispatched_server_is_polled [of "demo_overdue\<lparr>p_dispatch := Got ''srv-1'' 100\<rparr>" "''srv-1''" demo_tracked demo_settings demo_externals]
  by auto

text \<open>A single entry that is due is handed over in three steps.\<close>

lemma single_entry_handed_over:
  assumes "p_dispatch s = Waiting" and "waiter (p_sched s) = Looking" and "heap (p_sched s) = [e]"
    and "due e \<le> clock (p_sched s)"
  shows "(quiet_step X C)\<^sup>*\<^sup>* s (s\<lparr>p_sched := do_pop ((p_sched s)\<lparr>waiter := Popping\<rparr>), p_dispatch := Got (ekey e) (due e)\<rparr>)"
proof -
  let ?sc = "p_sched s"
  have e: "heap_peek [e] = Some e" "heap_pop [e] = Some (e, [])" by (simp_all add: heap_peek_def heap_pop_def)
  have l: "do_look ?sc = ?sc\<lparr>waiter := Peeked e\<rparr>" using assms(3) e by (simp add: do_look_def)
  have d: "do_decide e (?sc\<lparr>waiter := Peeked e\<rparr>) = ?sc\<lparr>waiter := Popping\<rparr>" using assms(4) by (simp add: do_decide_def)
  let ?s1 = "s\<lparr>p_sched := ?sc\<lparr>waiter := Peeked e\<rparr>, p_dispatch := Waiting\<rparr>"
  let ?s2 = "s\<lparr>p_sched := ?sc\<lparr>waiter := Popping\<rparr>, p_dispatch := Waiting\<rparr>"
  have "quiet_step X C s ?s1"
    using work_step.wait [OF assms(1) inner_step.look [OF assms(2)], of X C] assms(1) by (simp add: l handed_over_def quiet_step_def)
  moreover have "quiet_step X C ?s1 ?s2"
    using work_step.wait [of ?s1 _ X C, OF _ inner_step.decide [of _ e]] assms(1) by (simp add: d handed_over_def quiet_step_def)
  moreover have "quiet_step X C ?s2 (s\<lparr>p_sched := do_pop (?sc\<lparr>waiter := Popping\<rparr>), p_dispatch := Got (ekey e) (due e)\<rparr>)"
    using work_step.wait [of ?s2 _ X C, OF _ inner_step.pop_top] assms e
    by (simp add: do_pop_def handed_over_def quiet_step_def)
  ultimately show ?thesis by (meson converse_rtranclp_into_rtranclp rtranclp.rtrancl_refl)
qed

subsection \<open>A fetched server\<close>

text \<open>A tracked server that nothing leads to.\<close>

definition stranded :: "str \<Rightarrow> f64 \<Rightarrow> poller \<Rightarrow> bool" where
  "stranded k d s \<longleftrightarrow>
     (\<exists>st. hm_get (p_states s) k = Some st \<and> next_due st = d) \<and> (k, d) \<notin> sched_entries (p_sched s) \<and>
     p_dispatch s \<noteq> Got k d \<and> p_dispatch s \<noteq> Sending k \<and> k \<notin> set (p_queue s) \<and> k \<notin> worker_key ` set (p_workers s)"

lemma entry_item_push_subset: "kd \<in> set (spawned sc) \<Longrightarrow> sched_entries (do_push kd sc) \<subseteq> sched_entries sc"
  by (auto simp: sched_entries_def do_push_def heap_push_def entry_item_def Let_def dest: set_remove1_subset [THEN subsetD])

lemma inner_step_keeps_out:
  assumes "inner_step sc sc'"
  shows "sched_entries sc' \<subseteq> sched_entries sc" "handed_over sc sc' = Got k d \<Longrightarrow> (k, d) \<in> sched_entries sc"
    "handed_over sc sc' \<noteq> Sending k"
proof -
  have "sched_entries sc' \<subseteq> sched_entries sc \<and> (\<forall>k d. handed_over sc sc' = Got k d \<longrightarrow> (k, d) \<in> sched_entries sc)"
    using assms
  proof (cases rule: inner_step.cases)
    case pop_top
    show ?thesis
    proof (cases rule: do_pop_cases [of sc])
      case (deliver e h)
      with pop_top heap_popE(3) [OF deliver(1)] heap_peek_in [OF heap_popE(1) [OF deliver(1)]] show ?thesis
        by (auto simp: sched_entries_def handed_over_def entry_item_def)
    qed (use pop_top in \<open>auto simp: sched_entries_def handed_over_def\<close>)
  qed (auto simp: sched_entries_def handed_over_def do_look_def do_wake_def do_decide_def do_notify_def Let_def split: option.splits)
  then show "sched_entries sc' \<subseteq> sched_entries sc" "handed_over sc sc' = Got k d \<Longrightarrow> (k, d) \<in> sched_entries sc" by blast+
  show "handed_over sc sc' \<noteq> Sending k" by (auto simp: handed_over_def split: list.split)
qed

lemma worker_requests:
  "skip_internal C r now k m = (m', reqs) \<Longrightarrow> fst ` set reqs \<subseteq> {k}"
  "finish_work X C e snap result k (m, rows) = ((m', rows'), reqs, calls) \<Longrightarrow> fst ` set reqs \<subseteq> {k}"
  by (auto simp: skip_internal_def finish_work_def Let_def split: option.splits prod.splits)

lemma stranded_requests:
  assumes "stranded k d s" and "hm_get m' k = hm_get (p_states s) k" and "fst ` set reqs \<subseteq> {k'}" and "k' \<noteq> k"
  shows "stranded k d (with_requests (m', reqs) (s\<lparr>p_workers := remove1 w (p_workers s), p_rows := rows\<rparr>))"
proof -
  have "(k, d) \<notin> set reqs" using assms(3,4) by force
  with assms(1,2) show ?thesis
    unfolding stranded_def by (auto dest: set_remove1_subset [THEN subsetD])
qed

lemma stranded_step: "stranded k d s \<Longrightarrow> work_step X C s t \<Longrightarrow> stranded k d t"
proof (erule work_stepE, goal_cases)
  case (1 kd)
  then show ?case using entry_item_push_subset [of kd "p_sched s"] by (auto simp: stranded_def)
next
  case (4 sc)
  then show ?case using inner_step_keeps_out [of "p_sched s" sc] by (auto simp: stranded_def)
next
  case (8 k')
  then have "k' \<noteq> k" by (force simp: stranded_def)
  with 8 show ?case
    by (auto simp: stranded_def begin_work_def Let_def split: work_plan.split dest: set_remove1_subset [THEN subsetD])
next
  case (9 k' r now)
  then have ne: "k' \<noteq> k" by (force simp: stranded_def)
  obtain m' reqs where r: "skip_internal C r now k' (p_states s) = (m', reqs)" by fastforce
  have "stranded k d (with_requests (m', reqs) (s\<lparr>p_workers := remove1 (Skipping k') (p_workers s), p_rows := p_rows s\<rparr>))"
    by (rule stranded_requests [OF 9(1) skip_internal_spec(1) [OF r] worker_requests(1) [OF r] ne]) (use ne in simp)
  then show ?case using 9 r by simp
next
  case (10 k' snap e result m' rows' reqs calls)
  then have ne: "k' \<noteq> k" by (force simp: stranded_def)
  show ?case
    unfolding 10(2)
    by (rule stranded_requests [OF 10(1) finish_work_spec(1) [OF 10(4)] worker_requests(2) [OF 10(4)] ne]) (use ne in simp)
qed (auto simp: stranded_def sched_entries_def do_notify_def still_due_def)

lemma stranded_steps: "(work_step X C)\<^sup>*\<^sup>* s t \<Longrightarrow> stranded k d s \<Longrightarrow> stranded k d t"
  by (induction rule: rtranclp_induct) (auto intro: stranded_step)

text \<open>
  C37: A server that a force ping has fetched is not pinged. Its entry is for now, its state is due at a
  random time after now: the dispatcher drops the entry, and no number of steps of the scheduler, the
  dispatcher and the workers brings the server into the queue or to a worker. Only a catalog refresh that
  moves it into fallback mode, a trigger or another force ping can.
\<close>

theorem fetched_server_is_stranded:
  assumes "rd_due d 0 (max (f64_of_u64 (startup_spread_seconds C)) 1) \<noteq> 0"
    and "\<forall>t. \<not> will_be_polled s target t"
    and "(work_step X C)\<^sup>*\<^sup>* (force_fetched X C d now target srv s) t"
  shows "\<exists>st. hm_get (p_states t) target = Some st \<and> next_due st \<noteq> now \<and>
    target \<notin> set (p_queue t) \<and> target \<notin> worker_key ` set (p_workers t)"
proof -
  let ?s = "force_fetched X C d now target srv s"
  let ?due = "now + rd_due d 0 (max (f64_of_u64 (startup_spread_seconds C)) 1)"
  have "next_due (build_state X (rd_due d) (rd_probe d) (rd_utc d) srv now (startup_spread_seconds C)
      (bedrock_probe_interval_seconds C) (plugin_fallback_stale_seconds C)) = ?due"
    by (simp add: build_state_def Let_def split: prod.splits)
  then have "stranded target ?due ?s"
    using assms(1,2) by (auto simp: stranded_def force_fetched_def force_ping_fetched_def will_be_polled_def)
  from stranded_steps [OF assms(3) this] assms(1) show ?thesis by (auto simp: stranded_def)
qed

theorem fetched_server_is_stranded_witness:
  "\<exists>st. hm_get (p_states (force_fetched demo_externals demo_settings
        (demo_draws\<lparr>rd_due := (\<lambda>lo hi. hi / 2)\<rparr>) 100 ''srv-1'' demo_catalog poller_new)) ''srv-1'' = Some st \<and> next_due st \<noteq> 100"
proof -
  let ?d = "demo_draws\<lparr>rd_due := (\<lambda>lo hi. hi / 2)\<rparr>"
  have "rd_due ?d 0 (max (f64_of_u64 (startup_spread_seconds demo_settings)) 1) \<noteq> 0" by simp
  moreover have "\<forall>t. \<not> will_be_polled poller_new ''srv-1'' t"
    by (simp add: will_be_polled_def poller_new_def sched_entries_def sched_new_def)
  ultimately show ?thesis using fetched_server_is_stranded [OF _ _ rtranclp.rtrancl_refl] by blast
qed

end
