(* ===== verification/Wal.thy ===== *)
theory Wal
  imports Json Wire "HOL-Library.AList" "HOL-Library.Char_ord" "HOL-Library.List_Lexorder"
begin

text \<open>
  \<open>src/src/wal.rs\<close>: the disk buffer for batches that could not be delivered. The directory is the
  association list \<open>files\<close> from file names to contents; a path is the name of a file in it.

  Every call of the operating system that the code checks for an error consumes one entry of
  \<open>os\<close>, the answers to the coming calls: \<open>Done\<close>, or \<open>Fails n\<close>, where \<open>n\<close> is the number of bytes a
  failing write still put on disk. The empty list stands for an operating system that fails no more.
  The wall clock is a function of the number of readings. Sizes in bytes are natural numbers: the
  additions of the code stay far below \<open>2 ^ 64\<close>. The Prometheus gauges are left out.
\<close>

definition SENTINEL :: u8 where
  "SENTINEL = 0x0A"

datatype io_error = OsError | InvalidData

datatype outcome = Done | Fails nat

record segment_writer =
  seg_path :: str
  seg_size :: nat

record wal =
  files :: "(str \<times> u8 list) list"
  os :: "outcome list"
  clock_ms :: "nat \<Rightarrow> nat"
  readings :: nat
  info_enabled :: bool
  max_bytes :: nat
  segment_max_bytes :: nat
  current_segment :: "segment_writer option"
  total_bytes :: nat

type_synonym 'a io = "wal \<Rightarrow> (io_error + 'a) \<times> wal"

text \<open>The \<open>?\<close> operator: stop at the first error, keeping the state reached.\<close>

definition return_io :: "'a \<Rightarrow> 'a io" where
  "return_io x w = (Inr x, w)"

definition bind_io :: "'a io \<Rightarrow> ('a \<Rightarrow> 'b io) \<Rightarrow> 'b io" where
  "bind_io m f w = (case m w of (Inl e, w') \<Rightarrow> (Inl e, w') | (Inr x, w') \<Rightarrow> f x w')"

subsection \<open>The operating system\<close>

definition os_call :: "wal \<Rightarrow> outcome \<times> wal" where
  "os_call w = (case os w of [] \<Rightarrow> (Done, w) | x # xs \<Rightarrow> (x, w\<lparr>os := xs\<rparr>))"

definition fs_metadata_len :: "str \<Rightarrow> nat io" where
  "fs_metadata_len name w =
     (let (res, w1) = os_call w in
      case (res, map_of (files w1) name) of
        (Done, Some bs) \<Rightarrow> (Inr (length bs), w1)
      | _ \<Rightarrow> (Inl OsError, w1))"

definition fs_remove_file :: "str \<Rightarrow> unit io" where
  "fs_remove_file name w =
     (let (res, w1) = os_call w in
      case (res, map_of (files w1) name) of
        (Done, Some bs) \<Rightarrow> (Inr (), w1\<lparr>files := AList.delete name (files w1)\<rparr>)
      | _ \<Rightarrow> (Inl OsError, w1))"

text \<open>\<open>OpenOptions::new().create(true).append(true).open(path)\<close>\<close>

definition fs_open_append :: "str \<Rightarrow> unit io" where
  "fs_open_append name w =
     (let (res, w1) = os_call w in
      case res of
        Done \<Rightarrow>
          (Inr (), if map_of (files w1) name = None
                   then w1\<lparr>files := AList.update name [] (files w1)\<rparr> else w1)
      | Fails _ \<Rightarrow> (Inl OsError, w1))"

text \<open>\<open>write_all\<close> on a file opened for appending.\<close>

definition append_file :: "str \<Rightarrow> u8 list \<Rightarrow> (str \<times> u8 list) list \<Rightarrow> (str \<times> u8 list) list" where
  "append_file name bs fs = AList.update name (unwrap_or [] (map_of fs name) @ bs) fs"

definition fs_write_all :: "str \<Rightarrow> u8 list \<Rightarrow> unit io" where
  "fs_write_all name bs w =
     (let (res, w1) = os_call w in
      case res of
        Done \<Rightarrow> (Inr (), w1\<lparr>files := append_file name bs (files w1)\<rparr>)
      | Fails n \<Rightarrow> (Inl OsError, w1\<lparr>files := append_file name (take n bs) (files w1)\<rparr>))"

text \<open>A call that changes nothing the model shows: \<open>create_dir_all\<close> and \<open>sync_data\<close>.\<close>

definition fs_call :: "unit io" where
  "fs_call w =
     (let (res, w1) = os_call w in
      case res of Done \<Rightarrow> (Inr (), w1) | Fails _ \<Rightarrow> (Inl OsError, w1))"

text \<open>\<open>Path::extension\<close> is what follows the last dot, unless the dot opens the name.\<close>

definition is_wal_file :: "str \<Rightarrow> bool" where
  "is_wal_file name =
     (case rsplit_once (CHR ''.'') name of
        Some (stem, ext) \<Rightarrow> stem \<noteq> [] \<and> ext = ''wal''
      | None \<Rightarrow> False)"

definition wal_names :: "(str \<times> u8 list) list \<Rightarrow> str list" where
  "wal_names fs = sort (filter is_wal_file (map fst fs))"

definition sorted_segments :: "str list io" where
  "sorted_segments w =
     (let (res, w1) = os_call w in
      case res of Done \<Rightarrow> (Inr (wal_names (files w1)), w1) | Fails _ \<Rightarrow> (Inl OsError, w1))"

subsection \<open>Opening the buffer\<close>

fun sum_lengths :: "str list \<Rightarrow> nat \<Rightarrow> nat io" where
  "sum_lengths [] acc = return_io acc"
| "sum_lengths (n # ns) acc = bind_io (fs_metadata_len n) (\<lambda>len. sum_lengths ns (acc + len))"

text \<open>
  The state given is the directory as found. \<open>create_dir_all\<close> can fail like the rest, and so can the second
  listing, which is made for the log message and only when messages of its level are logged.
\<close>

definition list_for_log :: "unit io" where
  "list_for_log w =
     (if info_enabled w then bind_io sorted_segments (\<lambda>_. return_io ()) w else (Inr (), w))"

definition wal_open :: "nat \<Rightarrow> nat \<Rightarrow> unit io" where
  "wal_open mx seg_mx =
     bind_io fs_call (\<lambda>_.
     bind_io sorted_segments (\<lambda>segs.
     bind_io (sum_lengths segs 0) (\<lambda>total.
     bind_io list_for_log (\<lambda>_ w.
       (Inr (), w\<lparr>max_bytes := mx, segment_max_bytes := seg_mx,
                  current_segment := None, total_bytes := total\<rparr>)))))"

subsection \<open>Writing\<close>

definition current_path :: "wal \<Rightarrow> str option" where
  "current_path w = map_option seg_path (current_segment w)"

text \<open>The oldest segment that is not the current one.\<close>

definition oldest_completed :: "wal \<Rightarrow> str list \<Rightarrow> str option" where
  "oldest_completed w segs = List.find (\<lambda>n. Some n \<noteq> current_path w) segs"

definition segment_name :: "nat \<Rightarrow> str" where
  "segment_name ts = ''buffer-'' @ show_nat ts @ ''.wal''"

definition rotate_segment :: "unit io" where
  "rotate_segment w =
     (let w1 = w\<lparr>current_segment := None, readings := Suc (readings w)\<rparr>;
          path = segment_name (clock_ms w (readings w))
      in bind_io (fs_open_append path)
           (\<lambda>_ w2. (Inr (), w2\<lparr>current_segment := Some \<lparr>seg_path = path, seg_size = 0\<rparr>\<rparr>)) w1)"

definition metadata_or_0 :: "str \<Rightarrow> nat io" where
  "metadata_or_0 name w =
     (case fs_metadata_len name w of (Inr n, w1) \<Rightarrow> (Inr n, w1) | (Inl _, w1) \<Rightarrow> (Inr 0, w1))"

definition evict_oldest :: "bool io" where
  "evict_oldest =
     bind_io sorted_segments (\<lambda>segs w.
       case oldest_completed w segs of
         None \<Rightarrow> (Inr False, w)
       | Some path \<Rightarrow>
           bind_io (metadata_or_0 path) (\<lambda>size.
           bind_io (fs_remove_file path) (\<lambda>_ w'.
             (Inr True, w'\<lparr>total_bytes := total_bytes w' - size\<rparr>))) w)"

lemma length_delete_less: "map_of fs k = Some v \<Longrightarrow> length (AList.delete k fs) < length fs"
proof -
  assume "map_of fs k = Some v"
  then have "(k, v) \<in> set fs" by (rule map_of_SomeD)
  then show ?thesis
    by (auto simp: AList.delete_eq intro!: length_filter_less)
qed

lemma os_call_files [simp]: "os_call w = (res, w1) \<Longrightarrow> files w1 = files w"
  by (auto simp: os_call_def split: list.splits)

lemma metadata_or_0_files: "metadata_or_0 p w = (r, w1) \<Longrightarrow> files w1 = files w"
  by (auto simp: metadata_or_0_def fs_metadata_len_def
      split: prod.splits sum.splits outcome.splits option.splits if_splits)

lemma fs_remove_file_files:
  "fs_remove_file p w = (Inr u, w1) \<Longrightarrow> length (files w1) < length (files w)"
  by (auto simp: fs_remove_file_def length_delete_less
      split: prod.splits outcome.splits option.splits)

lemma sorted_segments_files: "sorted_segments w = (r, w1) \<Longrightarrow> files w1 = files w"
  by (auto simp: sorted_segments_def split: prod.splits outcome.splits)

lemma evict_oldest_shrinks:
  "evict_oldest w = (Inr True, w') \<Longrightarrow> length (files w') < length (files w)"
  unfolding evict_oldest_def bind_io_def
  by (auto split: prod.splits sum.splits option.splits
      dest!: sorted_segments_files metadata_or_0_files fs_remove_file_files)

text \<open>\<open>while total + record > max { if !evict_oldest()? { break; } }\<close>\<close>

function evict_until :: "nat \<Rightarrow> unit io" where
  "evict_until record_size w =
     (if max_bytes w < total_bytes w + record_size then
        (case evict_oldest w of
           (Inl e, w1) \<Rightarrow> (Inl e, w1)
         | (Inr True, w1) \<Rightarrow> evict_until record_size w1
         | (Inr False, w1) \<Rightarrow> (Inr (), w1))
      else (Inr (), w))"
  by pat_completeness auto
termination
  by (relation "measure (\<lambda>(r, w). length (files w))") (auto dest: sym evict_oldest_shrinks)

declare evict_until.simps [simp del]

definition rotate_if_full :: "nat \<Rightarrow> unit io" where
  "rotate_if_full record_size w =
     (let needs_rotate = (case current_segment w of
            Some s \<Rightarrow> segment_max_bytes w < seg_size s + record_size
          | None \<Rightarrow> True)
      in if needs_rotate then rotate_segment w else (Inr (), w))"

text \<open>
  The three writes of a record. The \<open>unwrap\<close> of the current segment cannot fail after
  \<^const>\<open>rotate_if_full\<close>; its error branch is there because HOL functions are total.
\<close>

definition append_record :: "u8 list \<Rightarrow> nat \<Rightarrow> unit io" where
  "append_record json_bytes record_size w =
     (case current_segment w of
        None \<Rightarrow> (Inl OsError, w)
      | Some seg \<Rightarrow>
          bind_io (fs_write_all (seg_path seg) (be_bytes 4 (unat (of_nat (length json_bytes) :: u32))))
          (\<lambda>_. bind_io (fs_write_all (seg_path seg) json_bytes)
          (\<lambda>_. bind_io (fs_write_all (seg_path seg) [SENTINEL])
          (\<lambda>_ w'. (Inr (), w'\<lparr>
             current_segment := Some (seg\<lparr>seg_size := seg_size seg + record_size\<rparr>),
             total_bytes := total_bytes w' + record_size\<rparr>)))) w)"

definition write_item :: "externals \<Rightarrow> json \<Rightarrow> unit io" where
  "write_item X item =
     (case json_to_vec X item of
        None \<Rightarrow> (\<lambda>w. (Inl InvalidData, w))
      | Some json_bytes \<Rightarrow>
          (let record_size = 4 + length json_bytes + 1 in
           bind_io (evict_until record_size) (\<lambda>_.
           bind_io (rotate_if_full record_size) (\<lambda>_.
           append_record json_bytes record_size))))"

fun write_items :: "externals \<Rightarrow> json list \<Rightarrow> unit io" where
  "write_items X [] = return_io ()"
| "write_items X (item # items) = bind_io (write_item X item) (\<lambda>_. write_items X items)"

definition write_batch :: "externals \<Rightarrow> json list \<Rightarrow> unit io" where
  "write_batch X items =
     (if items = [] then return_io ()
      else bind_io (write_items X items)
        (\<lambda>_ w. case current_segment w of Some _ \<Rightarrow> fs_call w | None \<Rightarrow> (Inr (), w)))"

subsection \<open>Draining\<close>

definition has_pending :: "wal \<Rightarrow> bool \<times> wal" where
  "has_pending w =
     (case sorted_segments w of
        (Inl _, w1) \<Rightarrow> (False, w1)
      | (Inr segs, w1) \<Rightarrow> (oldest_completed w1 segs \<noteq> None, w1))"

text \<open>
  One turn of the loop of \<open>read_segment\<close>: the loop stops (end of file, truncated record, missing
  sentinel, absurd length), skips a record whose sentinel is wrong, or has a payload.
\<close>

datatype frame_result = Stop | Bad_sentinel "u8 list" | Payload "u8 list" "u8 list"

definition read_frame :: "u8 list \<Rightarrow> frame_result" where
  "read_frame bs =
     (if length bs < 4 then Stop
      else
        let payload_len = from_be (take 4 bs); r = drop 4 bs in
        if 16 * 1024 * 1024 < payload_len then Stop
        else if length r < payload_len then Stop
        else case drop payload_len r of
            [] \<Rightarrow> Stop
          | sentinel # rest \<Rightarrow>
              if sentinel \<noteq> SENTINEL then Bad_sentinel rest
              else Payload (take payload_len r) rest)"

lemma read_frame_shorter:
  "read_frame bs = Bad_sentinel rest \<or> read_frame bs = Payload p rest \<Longrightarrow> length rest < length bs"
proof -
  assume "read_frame bs = Bad_sentinel rest \<or> read_frame bs = Payload p rest"
  then obtain n c where "drop n (drop 4 bs) = c # rest"
    by (auto simp: read_frame_def Let_def split: if_splits list.splits)
  then have "length rest < length (drop n (drop 4 bs))" by simp
  then show ?thesis by simp
qed

text \<open>The loop, with the number of items still wanted.\<close>

function read_records :: "externals \<Rightarrow> nat \<Rightarrow> u8 list \<Rightarrow> json list" where
  "read_records X n bs =
     (if n = 0 then []
      else case read_frame bs of
        Stop \<Rightarrow> []
      | Bad_sentinel rest \<Rightarrow> read_records X n rest
      | Payload p rest \<Rightarrow>
          (case json_from_slice X p of
             Some v \<Rightarrow> v # read_records X (n - 1) rest
           | None \<Rightarrow> read_records X n rest))"
  by pat_completeness auto
termination
  by (relation "measure (\<lambda>(X, n, bs). length bs)") (auto intro: read_frame_shorter)

declare read_records.simps [simp del]

text \<open>A read error anywhere in the file is returned; otherwise the whole content is decoded.\<close>

definition read_segment :: "externals \<Rightarrow> str \<Rightarrow> nat \<Rightarrow> json list io" where
  "read_segment X path max_items w =
     (let (res, w1) = os_call w in
      case (res, map_of (files w1) path) of
        (Done, Some bs) \<Rightarrow> (Inr (read_records X max_items bs), w1)
      | _ \<Rightarrow> (Inl OsError, w1))"

definition read_oldest_batch :: "externals \<Rightarrow> nat \<Rightarrow> (str \<times> json list) option io" where
  "read_oldest_batch X max_items =
     bind_io sorted_segments (\<lambda>segs w.
       case oldest_completed w segs of
         None \<Rightarrow> (Inr None, w)
       | Some path \<Rightarrow>
           bind_io (read_segment X path max_items) (\<lambda>items. return_io (Some (path, items))) w)"

definition delete_segment :: "str \<Rightarrow> unit io" where
  "delete_segment path =
     bind_io (metadata_or_0 path) (\<lambda>size.
     bind_io (fs_remove_file path) (\<lambda>_ w.
       (Inr (), w\<lparr>total_bytes := total_bytes w - size\<rparr>)))"

subsection \<open>The record format\<close>

definition frame :: "u8 list \<Rightarrow> u8 list" where
  "frame p = be_bytes 4 (unat (of_nat (length p) :: u32)) @ p @ [SENTINEL]"

definition get_frame :: "u8 list \<Rightarrow> (u8 list \<times> u8 list) option" where
  "get_frame bs = (case read_frame bs of Payload p r \<Rightarrow> Some (p, r) | _ \<Rightarrow> None)"

definition record_fits :: "u8 list \<Rightarrow> bool" where
  "record_fits p \<longleftrightarrow> length p \<le> 16 * 1024 * 1024"

lemma length_frame [simp]: "length (frame p) = 5 + length p"
  by (simp add: frame_def)

lemma unat_u32_length: "record_fits p \<Longrightarrow> unat (of_nat (length p) :: u32) = length p"
  by (intro unat_of_nat_less) (simp add: record_fits_def)

lemma read_frame_frame:
  assumes "record_fits p"
  shows "read_frame (frame p @ rest) = Payload p rest"
  using assms be32.get_put [of "length p" "p @ SENTINEL # rest"]
  by (auto simp: read_frame_def frame_def unat_u32_length Let_def get_be_def record_fits_def)

interpretation frames: byte_codec frame get_frame record_fits
  by unfold_locales (simp add: get_frame_def read_frame_frame)

text \<open>A frame that is cut off stops the reader.\<close>

lemma read_frame_torn:
  assumes fits: "record_fits p" and n: "n < length (frame p)"
  shows "read_frame (take n (frame p)) = Stop"
proof (cases "n < 4")
  case True
  then show ?thesis using n by (simp add: read_frame_def)
next
  case False
  then obtain m where m: "n = 4 + m" using le_Suc_ex by (metis not_less)
  let ?h = "be_bytes 4 (unat (of_nat (length p) :: u32))"
  have t: "take n (frame p) = ?h @ take m (p @ [SENTINEL])"
    by (simp add: m frame_def)
  have h: "from_be ?h = length p"
    using be32.get_put_whole [of "length p"] fits
    by (simp add: get_be_def unat_u32_length record_fits_def)
  have "m \<le> length p" using n m by simp
  then show ?thesis
    using h by (auto simp: t read_frame_def Let_def)
qed

text \<open>
  The items a list of values can be decoded from: each is encoded, fits into a record, and the
  decoder takes the encoding back.
\<close>

definition storable :: "externals \<Rightarrow> json \<Rightarrow> bool" where
  "storable X v \<longleftrightarrow>
     (case json_to_vec X v of
        Some p \<Rightarrow> record_fits p \<and> json_from_slice X p = Some v
      | None \<Rightarrow> False)"

definition encode_item :: "externals \<Rightarrow> json \<Rightarrow> u8 list" where
  "encode_item X v = frame (unwrap_or [] (json_to_vec X v))"

definition encode_items :: "externals \<Rightarrow> json list \<Rightarrow> u8 list" where
  "encode_items X vs = concat (map (encode_item X) vs)"

lemma encode_items_simps [simp]:
  "encode_items X [] = []"
  "encode_items X (v # vs) = encode_item X v @ encode_items X vs"
  "encode_items X (vs @ us) = encode_items X vs @ encode_items X us"
  by (simp_all add: encode_items_def)

lemma read_records_step:
  assumes "storable X v"
  shows "read_records X n (encode_item X v @ rest) = (if n = 0 then [] else v # read_records X (n - 1) rest)"
  using assms
  by (auto simp: storable_def encode_item_def read_records.simps [of X n] read_frame_frame
      split: option.splits)

lemma read_records_encode:
  "\<forall>v\<in>set vs. storable X v \<Longrightarrow>
   read_records X n (encode_items X vs @ rest) = take n vs @ read_records X (n - length vs) rest"
proof (induction vs arbitrary: n)
  case (Cons v vs)
  show ?case
  proof (cases n)
    case 0
    then show ?thesis by (simp add: read_records.simps)
  next
    case (Suc m)
    with Cons show ?thesis by (simp add: read_records_step)
  qed
qed simp

lemma read_records_Nil [simp]: "read_records X n [] = []"
  by (simp add: read_records.simps read_frame_def)

text \<open>How many whole records the first \<open>m\<close> bytes of a segment hold.\<close>

fun whole_records :: "externals \<Rightarrow> nat \<Rightarrow> json list \<Rightarrow> nat" where
  "whole_records X m [] = 0"
| "whole_records X m (v # vs) =
     (let len = length (encode_item X v) in
      if m < len then 0 else Suc (whole_records X (m - len) vs))"

lemma read_records_torn:
  "\<forall>v\<in>set vs. storable X v \<Longrightarrow>
   read_records X n (take m (encode_items X vs)) = take n (take (whole_records X m vs) vs)"
proof (induction vs arbitrary: n m)
  case (Cons v vs)
  have v: "storable X v" using Cons.prems by simp
  show ?case
  proof (cases "m < length (encode_item X v)")
    case True
    then have t: "take m (encode_items X (v # vs)) = take m (encode_item X v)" by simp
    have "read_frame (take m (encode_item X v)) = Stop"
      using v True by (auto simp: storable_def encode_item_def intro!: read_frame_torn
          split: option.splits)
    with True show ?thesis unfolding t by (simp add: read_records.simps)
  next
    case False
    with v Cons show ?thesis
      by (cases n) (auto simp: read_records_step Let_def)
  qed
qed simp

subsection \<open>Calls that succeed\<close>

text \<open>With \<open>os w = []\<close> every call succeeds, and the operations have closed forms.\<close>

lemma os_call_quiet [io_simps]: "os w = [] \<Longrightarrow> os_call w = (Done, w)"
  by (simp add: os_call_def)

lemma fs_quiet [io_simps]:
  "os w = [] \<Longrightarrow> fs_call w = (Inr (), w)"
  "os w = [] \<Longrightarrow> sorted_segments w = (Inr (wal_names (files w)), w)"
  "os w = [] \<Longrightarrow> map_of (files w) n = Some bs \<Longrightarrow> fs_metadata_len n w = (Inr (length bs), w)"
  "os w = [] \<Longrightarrow> map_of (files w) n = Some bs \<Longrightarrow> metadata_or_0 n w = (Inr (length bs), w)"
  "os w = [] \<Longrightarrow> map_of (files w) n = Some bs \<Longrightarrow>
     fs_remove_file n w = (Inr (), w\<lparr>files := AList.delete n (files w)\<rparr>)"
  "os w = [] \<Longrightarrow> fs_write_all n bs w = (Inr (), w\<lparr>files := append_file n bs (files w)\<rparr>)"
  "os w = [] \<Longrightarrow> fs_open_append n w =
     (Inr (), if map_of (files w) n = None then w\<lparr>files := AList.update n [] (files w)\<rparr> else w)"
  by (simp_all add: fs_call_def sorted_segments_def fs_metadata_len_def metadata_or_0_def
      fs_remove_file_def fs_write_all_def fs_open_append_def os_call_quiet)

lemma bind_io_Inr [io_simps]: "m w = (Inr x, w1) \<Longrightarrow> bind_io m f w = f x w1"
  by (simp add: bind_io_def)

lemma return_io_eq [io_simps]: "return_io x w = (Inr x, w)"
  by (simp add: return_io_def)

subsection \<open>Sizes and names\<close>

lemma rsplit_dot_wal: "rsplit_once (CHR ''.'') (x @ ''.wal'') = Some (x, ''wal'')"
  using rsplit_once_append [of "CHR ''.''" "''wal''" x] by simp

lemma is_wal_segment_name [simp]: "is_wal_file (segment_name ts)"
  using rsplit_dot_wal [of "''buffer-'' @ show_nat ts"] by (simp add: is_wal_file_def segment_name_def)

definition disk_bytes :: "(str \<times> u8 list) list \<Rightarrow> nat" where
  "disk_bytes fs = sum_list (map (\<lambda>(n, bs). if is_wal_file n then length bs else 0) fs)"

lemma disk_bytes_simps [simp]:
  "disk_bytes [] = 0"
  "disk_bytes ((n, bs) # fs) = (if is_wal_file n then length bs else 0) + disk_bytes fs"
  by (simp_all add: disk_bytes_def)

lemma disk_bytes_update:
  "is_wal_file n \<Longrightarrow>
   disk_bytes (AList.update n bs fs) + length (unwrap_or [] (map_of fs n)) = disk_bytes fs + length bs"
  by (induction fs) auto

lemma disk_bytes_append_file:
  "is_wal_file n \<Longrightarrow> disk_bytes (append_file n bs fs) = disk_bytes fs + length bs"
  using disk_bytes_update [of n "unwrap_or [] (map_of fs n) @ bs" fs]
  by (simp add: append_file_def)

lemma delete_not_in: "n \<notin> fst ` set fs \<Longrightarrow> AList.delete n fs = fs"
  by (induction fs) auto

lemma disk_bytes_delete:
  "distinct (map fst fs) \<Longrightarrow> map_of fs n = Some bs \<Longrightarrow> is_wal_file n \<Longrightarrow>
   disk_bytes fs = disk_bytes (AList.delete n fs) + length bs"
  by (induction fs) (auto simp: delete_not_in)

lemma in_wal_names: "n \<in> set (wal_names fs) \<longleftrightarrow> is_wal_file n \<and> n \<in> fst ` set fs"
  by (auto simp: wal_names_def)

lemma find_Some_first:
  "List.find P (sorted_xs :: 'a::linorder list) = Some n \<Longrightarrow> sorted sorted_xs \<Longrightarrow>
   P n \<and> n \<in> set sorted_xs \<and> (\<forall>m\<in>set sorted_xs. P m \<longrightarrow> n \<le> m)"
  by (induction sorted_xs) (auto split: if_splits)

lemma oldest_completed_Some:
  assumes "oldest_completed w (wal_names fs) = Some n"
  shows "is_wal_file n" "n \<in> fst ` set fs" "Some n \<noteq> current_path w"
    "\<And>m. is_wal_file m \<Longrightarrow> m \<in> fst ` set fs \<Longrightarrow> Some m \<noteq> current_path w \<Longrightarrow> n \<le> m"
  using find_Some_first [OF assms [unfolded oldest_completed_def]]
  by (auto simp: wal_names_def)

lemma oldest_completed_None:
  "oldest_completed w (wal_names fs) = None \<longleftrightarrow>
   (\<forall>m. is_wal_file m \<longrightarrow> m \<in> fst ` set fs \<longrightarrow> Some m = current_path w)"
  by (auto simp: oldest_completed_def find_None_iff in_wal_names)

text \<open>The bytes of the current segment's file.\<close>

definition current_bytes :: "wal \<Rightarrow> u8 list" where
  "current_bytes w =
     (case current_path w of None \<Rightarrow> [] | Some p \<Rightarrow> unwrap_or [] (map_of (files w) p))"

lemma disk_bytes_0: "\<forall>m\<in>fst ` set fs. \<not> is_wal_file m \<Longrightarrow> disk_bytes fs = 0"
  by (induction fs) auto

lemma disk_bytes_only:
  "distinct (map fst fs) \<Longrightarrow> \<forall>m. is_wal_file m \<longrightarrow> m \<in> fst ` set fs \<longrightarrow> Some m = q \<Longrightarrow>
   disk_bytes fs \<le> length (case q of None \<Rightarrow> [] | Some p \<Rightarrow> unwrap_or [] (map_of fs p))"
proof (induction fs)
  case (Cons x fs)
  obtain n bs where x: "x = (n, bs)" by (cases x)
  show ?case
  proof (cases "q = Some n")
    case True
    then have "\<forall>m\<in>fst ` set fs. \<not> is_wal_file m" using Cons.prems x by auto
    then show ?thesis using x True by (simp add: disk_bytes_0)
  next
    case False
    then have "\<not> is_wal_file n" using Cons.prems x by auto
    moreover have "disk_bytes fs \<le> length (case q of None \<Rightarrow> [] | Some p \<Rightarrow> unwrap_or [] (map_of fs p))"
      using Cons x by simp
    ultimately show ?thesis using x False by (cases q) auto
  qed
qed simp

subsection \<open>The buffer as a log\<close>

text \<open>
  The abstract value of the buffer: the readable records of its segments, in the order of the
  segments' names.
\<close>

definition records_of :: "externals \<Rightarrow> u8 list \<Rightarrow> json list" where
  "records_of X bs = read_records X (length bs) bs"

definition segment_log :: "externals \<Rightarrow> (str \<times> u8 list) list \<Rightarrow> str \<Rightarrow> json list" where
  "segment_log X fs n = records_of X (unwrap_or [] (map_of fs n))"

definition wal_log :: "externals \<Rightarrow> wal \<Rightarrow> json list" where
  "wal_log X w = concat (map (segment_log X (files w)) (wal_names (files w)))"

lemma length_encode_items: "length vs \<le> length (encode_items X vs)"
  by (induction vs) (auto simp: encode_item_def)

lemma records_of_encode:
  "\<forall>v\<in>set vs. storable X v \<Longrightarrow> records_of X (encode_items X vs) = vs"
  using read_records_encode [of vs X "length (encode_items X vs)" "[]"] length_encode_items [of vs X]
  by (simp add: records_of_def)

text \<open>A segment that holds whole records only.\<close>

definition whole :: "externals \<Rightarrow> u8 list \<Rightarrow> bool" where
  "whole X bs \<longleftrightarrow> (\<exists>vs. (\<forall>v\<in>set vs. storable X v) \<and> bs = encode_items X vs)"

lemma whole_Nil [simp]: "whole X []"
  by (auto simp: whole_def intro: exI [of _ "[]"])

lemma whole_append: "whole X bs \<Longrightarrow> storable X v \<Longrightarrow> whole X (bs @ encode_item X v)"
  unfolding whole_def
proof (elim exE conjE)
  fix vs
  assume vs: "\<forall>v\<in>set vs. storable X v" "bs = encode_items X vs" and v: "storable X v"
  show "\<exists>us. (\<forall>v\<in>set us. storable X v) \<and> bs @ encode_item X v = encode_items X us"
    using vs v by (intro exI [of _ "vs @ [v]"]) auto
qed

lemma records_of_append:
  "whole X bs \<Longrightarrow> storable X v \<Longrightarrow> records_of X (bs @ encode_item X v) = records_of X bs @ [v]"
  unfolding whole_def
proof (elim exE conjE)
  fix vs
  assume vs: "\<forall>v\<in>set vs. storable X v" "bs = encode_items X vs" and v: "storable X v"
  have "bs @ encode_item X v = encode_items X (vs @ [v])" using vs by simp
  moreover have "\<forall>u\<in>set (vs @ [v]). storable X u" using vs v by auto
  ultimately show ?thesis using vs records_of_encode by metis
qed

lemma read_records_whole:
  "whole X bs \<Longrightarrow> read_records X n bs = take n (records_of X bs)"
  unfolding whole_def
  using read_records_encode [of _ X n "[]"] by (auto simp: records_of_encode)

subsection \<open>Names after an update\<close>

lemma wal_names_delete: "wal_names (AList.delete n fs) = filter (\<lambda>m. m \<noteq> n) (wal_names fs)"
proof -
  have "map fst (AList.delete n fs) = filter (\<lambda>m. m \<noteq> n) (map fst fs)"
    by (induction fs) auto
  then show ?thesis by (simp add: wal_names_def filter_sort conj_commute)
qed

lemma map_fst_update:
  "map fst (AList.update n bs fs) = (if n \<in> fst ` set fs then map fst fs else map fst fs @ [n])"
  by (induction fs) auto

lemma wal_names_update_old: "n \<in> fst ` set fs \<Longrightarrow> wal_names (AList.update n bs fs) = wal_names fs"
  by (simp add: wal_names_def map_fst_update)

lemma sort_append_max:
  "(\<forall>m\<in>set xs. m < (n :: 'a::linorder)) \<Longrightarrow> sort (xs @ [n]) = sort xs @ [n]"
  by (rule properties_for_sort) (auto simp: sorted_append intro: less_imp_le)

lemma wal_names_update_new:
  "is_wal_file n \<Longrightarrow> n \<notin> fst ` set fs \<Longrightarrow> \<forall>m\<in>set (wal_names fs). m < n \<Longrightarrow>
   wal_names (AList.update n bs fs) = wal_names fs @ [n]"
  by (simp add: wal_names_def map_fst_update sort_append_max)

lemma distinct_update: "distinct (map fst fs) \<Longrightarrow> distinct (map fst (AList.update n bs fs))"
  by (auto simp: map_fst_update)

lemma distinct_delete: "distinct (map fst fs) \<Longrightarrow> distinct (map fst (AList.delete n fs))"
  by (induction fs) (auto simp: AList.delete_eq)

lemma distinct_wal_names: "distinct (map fst fs) \<Longrightarrow> distinct (wal_names fs)"
  by (simp add: wal_names_def)

lemma sorted_wal_names [simp]: "sorted (wal_names fs)"
  by (simp add: wal_names_def)

subsection \<open>The invariant\<close>

text \<open>
  The running total is the number of bytes on disk; every segment holds whole records; the current
  segment exists, its size is that of its file, and its name is the greatest.
\<close>

definition wal_ok :: "externals \<Rightarrow> wal \<Rightarrow> bool" where
  "wal_ok X w \<longleftrightarrow>
     distinct (map fst (files w)) \<and> total_bytes w = disk_bytes (files w) \<and>
     (\<forall>n bs. map_of (files w) n = Some bs \<longrightarrow> is_wal_file n \<longrightarrow> whole X bs) \<and>
     (case current_segment w of
        None \<Rightarrow> True
      | Some sg \<Rightarrow> is_wal_file (seg_path sg) \<and>
          map_option length (map_of (files w) (seg_path sg)) = Some (seg_size sg) \<and>
          (\<forall>m\<in>set (wal_names (files w)). m \<le> seg_path sg))"

definition current_size :: "wal \<Rightarrow> nat" where
  "current_size w = (case current_segment w of None \<Rightarrow> 0 | Some sg \<Rightarrow> seg_size sg)"

lemma total_only_current:
  "wal_ok X w \<Longrightarrow> oldest_completed w (wal_names (files w)) = None \<Longrightarrow> total_bytes w \<le> current_size w"
proof -
  assume ok: "wal_ok X w" and none: "oldest_completed w (wal_names (files w)) = None"
  have "disk_bytes (files w) \<le> length (case current_path w of None \<Rightarrow> [] | Some p \<Rightarrow> unwrap_or [] (map_of (files w) p))"
    using ok none by (intro disk_bytes_only) (simp_all add: wal_ok_def oldest_completed_None)
  with ok show ?thesis
    by (cases "current_segment w") (auto simp: wal_ok_def current_size_def current_path_def)
qed

lemma oldest_completed_first:
  assumes ok: "wal_ok X w" and p: "oldest_completed w (wal_names (files w)) = Some p"
  shows "\<exists>rest. wal_names (files w) = p # rest \<and> p \<notin> set rest"
proof -
  have d: "distinct (wal_names (files w))"
    using ok by (auto simp: wal_ok_def intro: distinct_wal_names)
  have "p \<in> set (wal_names (files w))"
    using oldest_completed_Some(1,2) [OF p] by (simp add: in_wal_names)
  then obtain c rest where c: "wal_names (files w) = c # rest"
    by (cases "wal_names (files w)") auto
  have "c = p"
  proof (rule ccontr)
    assume "c \<noteq> p"
    then have cur: "current_path w = Some c" and p_rest: "p \<in> set rest"
      using p c by (auto simp: oldest_completed_def find_Some_iff split: if_splits)
    then have "p \<le> c" using ok p_rest c by (auto simp: wal_ok_def current_path_def split: option.splits)
    moreover have "c \<le> p" using c p_rest sorted_wal_names [of "files w"] by simp
    ultimately show False using \<open>c \<noteq> p\<close> by simp
  qed
  then show ?thesis using c d by auto
qed

text \<open>What eviction keeps: everything but the oldest segments and the total.\<close>

definition evicted_to :: "externals \<Rightarrow> wal \<Rightarrow> wal \<Rightarrow> bool" where
  "evicted_to X w w' \<longleftrightarrow>
     os w' = os w \<and> clock_ms w' = clock_ms w \<and> readings w' = readings w \<and>
     max_bytes w' = max_bytes w \<and> segment_max_bytes w' = segment_max_bytes w \<and>
     current_segment w' = current_segment w \<and>
     suffix (wal_names (files w')) (wal_names (files w)) \<and> suffix (wal_log X w') (wal_log X w)"

lemma evicted_to_refl [simp]: "evicted_to X w w"
  by (simp add: evicted_to_def)

lemma evicted_to_trans: "evicted_to X w w1 \<Longrightarrow> evicted_to X w1 w2 \<Longrightarrow> evicted_to X w w2"
  unfolding evicted_to_def using suffix_order.trans by auto

lemma map_of_delete: "map_of (AList.delete p fs) n = (if n = p then None else map_of fs n)"
  by (simp add: delete_conv)

text \<open>Removing the oldest completed segment.\<close>

definition drop_oldest :: "str \<Rightarrow> wal \<Rightarrow> wal" where
  "drop_oldest p w =
     w\<lparr>files := AList.delete p (files w),
       total_bytes := total_bytes w - length (unwrap_or [] (map_of (files w) p))\<rparr>"

lemma segment_log_delete: "n \<noteq> p \<Longrightarrow> segment_log X (AList.delete p fs) n = segment_log X fs n"
  by (simp add: segment_log_def map_of_delete)

lemma drop_oldest_log:
  assumes ok: "wal_ok X w" and p: "oldest_completed w (wal_names (files w)) = Some p"
  shows "wal_log X w = segment_log X (files w) p @ wal_log X (drop_oldest p w)"
    and "wal_names (files w) = p # wal_names (files (drop_oldest p w))"
proof -
  obtain rest where rest: "wal_names (files w) = p # rest" "p \<notin> set rest"
    using oldest_completed_first [OF ok p] by blast
  then have f: "filter (\<lambda>m. m \<noteq> p) (wal_names (files w)) = rest"
    by (auto simp: filter_id_conv)
  have "map (segment_log X (AList.delete p (files w))) rest = map (segment_log X (files w)) rest"
    using rest by (intro map_cong refl segment_log_delete) auto
  with rest f show "wal_log X w = segment_log X (files w) p @ wal_log X (drop_oldest p w)"
    "wal_names (files w) = p # wal_names (files (drop_oldest p w))"
    by (simp_all add: wal_log_def drop_oldest_def wal_names_delete cong: map_cong)
qed

lemma drop_oldest_ok:
  assumes ok: "wal_ok X w" and p: "oldest_completed w (wal_names (files w)) = Some p"
  shows "wal_ok X (drop_oldest p w)"
proof -
  note q = oldest_completed_Some(1,2,3) [OF p]
  obtain bs where bs: "map_of (files w) p = Some bs"
    using q(2) by (metis map_of_eq_None_iff not_None_eq)
  have d: "distinct (map fst (files w))" and t: "total_bytes w = disk_bytes (files w)"
    using ok by (simp_all add: wal_ok_def)
  have "disk_bytes (files w) = disk_bytes (AList.delete p (files w)) + length bs"
    using d bs q(1) by (rule disk_bytes_delete)
  then show ?thesis
    using ok q d t bs
    by (auto simp: wal_ok_def drop_oldest_def distinct_delete map_of_delete current_path_def
        wal_names_delete split: option.splits)
qed

lemma drop_oldest_evicted:
  "wal_ok X w \<Longrightarrow> oldest_completed w (wal_names (files w)) = Some p \<Longrightarrow>
   evicted_to X w (drop_oldest p w)"
  using drop_oldest_log [of X w p]
  by (auto simp: evicted_to_def drop_oldest_def suffix_def)

lemma evict_oldest_quiet:
  assumes os: "os w = []"
  shows "evict_oldest w =
    (case oldest_completed w (wal_names (files w)) of
       None \<Rightarrow> (Inr False, w)
     | Some p \<Rightarrow> (Inr True, drop_oldest p w))"
proof (cases "oldest_completed w (wal_names (files w))")
  case None
  then show ?thesis using os by (simp add: evict_oldest_def io_simps)
next
  case (Some p)
  then have "p \<in> fst ` set (files w)" by (rule oldest_completed_Some)
  then obtain bs where "map_of (files w) p = Some bs"
    by (metis map_of_eq_None_iff not_None_eq)
  with Some os show ?thesis
    by (simp add: evict_oldest_def io_simps drop_oldest_def)
qed

lemma evict_until_quiet:
  "os w = [] \<Longrightarrow> wal_ok X w \<Longrightarrow>
   \<exists>w'. evict_until rs w = (Inr (), w') \<and> wal_ok X w' \<and> evicted_to X w w' \<and>
     (total_bytes w' + rs \<le> max_bytes w \<or> total_bytes w' \<le> current_size w') \<and>
     (total_bytes w + rs \<le> max_bytes w \<longrightarrow> w' = w)"
proof (induction rs w rule: evict_until.induct)
  case (1 rs w)
  note os = "1.prems"(1) and ok = "1.prems"(2)
  show ?case
  proof (cases "max_bytes w < total_bytes w + rs")
    case False
    then show ?thesis using ok by (simp add: evict_until.simps [of rs w])
  next
    case over: True
    show ?thesis
    proof (cases "oldest_completed w (wal_names (files w))")
      case None
      then show ?thesis
        using over os ok total_only_current [OF ok None]
        by (simp add: evict_until.simps [of rs w] evict_oldest_quiet)
    next
      case (Some p)
      let ?w1 = "drop_oldest p w"
      have e: "evict_oldest w = (Inr True, ?w1)" using os Some by (simp add: evict_oldest_quiet)
      have ev: "evicted_to X w ?w1" using ok Some by (rule drop_oldest_evicted)
      have os1: "os ?w1 = []" and m1: "max_bytes ?w1 = max_bytes w"
        using os by (simp_all add: drop_oldest_def)
      obtain w' where w': "evict_until rs ?w1 = (Inr (), w')" "wal_ok X w'" "evicted_to X ?w1 w'"
        "total_bytes w' + rs \<le> max_bytes ?w1 \<or> total_bytes w' \<le> current_size w'"
        using "1.IH" [OF over e [symmetric] refl, simplified] os1 drop_oldest_ok [OF ok Some] by blast
      with over e m1 evicted_to_trans [OF ev w'(3)] show ?thesis
        by (auto simp: evict_until.simps [of rs w])
    qed
  qed
qed

subsection \<open>Writing an item\<close>

text \<open>
  The next \<open>k\<close> readings of the clock give names that are greater than every name on disk, and greater
  each time. This is what a clock in milliseconds gives between the years 2001 and 2286, when its
  readings have thirteen digits, to a program that rotates at most once in a millisecond.
\<close>

definition clock_ok :: "nat \<Rightarrow> wal \<Rightarrow> bool" where
  "clock_ok k w \<longleftrightarrow>
     (\<forall>i\<in>{readings w..<readings w + k}.
        (\<forall>m\<in>set (wal_names (files w)). m < segment_name (clock_ms w i)) \<and>
        (\<forall>j\<in>{i<..<readings w + k}. segment_name (clock_ms w i) < segment_name (clock_ms w j)))"

lemma clock_okD:
  "clock_ok k w \<Longrightarrow> 0 < k \<Longrightarrow> \<forall>m\<in>set (wal_names (files w)). m < segment_name (clock_ms w (readings w))"
  by (auto simp: clock_ok_def)

definition fresh_segment :: "wal \<Rightarrow> wal" where
  "fresh_segment w =
     (let path = segment_name (clock_ms w (readings w)) in
      w\<lparr>files := AList.update path [] (files w), readings := Suc (readings w),
        current_segment := Some \<lparr>seg_path = path, seg_size = 0\<rparr>\<rparr>)"

lemma fresh_name:
  assumes "clock_ok k w" and "0 < k"
  shows "segment_name (clock_ms w (readings w)) \<notin> fst ` set (files w)"
proof
  assume "segment_name (clock_ms w (readings w)) \<in> fst ` set (files w)"
  then have "segment_name (clock_ms w (readings w)) \<in> set (wal_names (files w))"
    by (simp add: in_wal_names)
  with clock_okD [OF assms] show False by blast
qed

lemma map_of_not_in: "n \<notin> fst ` set fs \<Longrightarrow> map_of fs n = None"
  by (simp add: map_of_eq_None_iff)

lemma fresh_segment_names:
  "clock_ok k w \<Longrightarrow> 0 < k \<Longrightarrow> wal_names (files (fresh_segment w)) =
     wal_names (files w) @ [segment_name (clock_ms w (readings w))]"
  using fresh_name [of k w] clock_okD [of k w] by (simp add: fresh_segment_def Let_def wal_names_update_new)

lemma rotate_segment_quiet:
  "os w = [] \<Longrightarrow> clock_ok k w \<Longrightarrow> 0 < k \<Longrightarrow> rotate_segment w = (Inr (), fresh_segment w)"
  using map_of_not_in [OF fresh_name [of k w]]
  by (simp add: rotate_segment_def fresh_segment_def Let_def bind_io_def io_simps)

lemma fresh_segment_clock: "clock_ok (Suc k) w \<Longrightarrow> clock_ok k (fresh_segment w)"
  unfolding clock_ok_def [of _ "fresh_segment w"]
  by (auto simp: fresh_segment_names, auto simp: fresh_segment_def clock_ok_def Let_def)

lemma map_of_update: "map_of (AList.update n bs fs) m = (if m = n then Some bs else map_of fs m)"
  by (simp add: update_conv)

lemma fresh_segment_ok: "clock_ok k w \<Longrightarrow> 0 < k \<Longrightarrow> wal_ok X w \<Longrightarrow> wal_ok X (fresh_segment w)"
  using disk_bytes_update [of "segment_name (clock_ms w (readings w))" "[]" "files w"]
    map_of_not_in [OF fresh_name [of k w]] fresh_segment_names [of k w] clock_okD [of k w]
  by (auto simp: wal_ok_def fresh_segment_def Let_def distinct_update map_of_update
      less_imp_le split: if_splits)

lemma fresh_segment_log: "clock_ok k w \<Longrightarrow> 0 < k \<Longrightarrow> wal_log X (fresh_segment w) = wal_log X w"
proof -
  assume c: "clock_ok k w" and k: "0 < k"
  let ?n = "segment_name (clock_ms w (readings w))"
  have "segment_log X (AList.update ?n [] (files w)) = segment_log X (files w)"
    using map_of_not_in [OF fresh_name [OF c k]] by (auto simp: segment_log_def map_of_update)
  moreover have "segment_log X (files w) ?n = []"
    using map_of_not_in [OF fresh_name [OF c k]] by (simp add: segment_log_def records_of_def)
  ultimately show ?thesis
    using fresh_segment_names [OF c k] by (simp add: wal_log_def) (simp add: fresh_segment_def Let_def)
qed

definition with_record :: "externals \<Rightarrow> json \<Rightarrow> segment_writer \<Rightarrow> wal \<Rightarrow> wal" where
  "with_record X v sg w =
     w\<lparr>files := append_file (seg_path sg) (encode_item X v) (files w),
       current_segment := Some (sg\<lparr>seg_size := seg_size sg + length (encode_item X v)\<rparr>),
       total_bytes := total_bytes w + length (encode_item X v)\<rparr>"

lemma append_file_append:
  "append_file n bs (append_file n as fs) = append_file n (as @ bs) fs"
  by (simp add: append_file_def map_of_update)

lemma append_record_quiet:
  "os w = [] \<Longrightarrow> current_segment w = Some sg \<Longrightarrow> json_to_vec X v = Some p \<Longrightarrow>
   append_record p (4 + length p + 1) w = (Inr (), with_record X v sg w)"
  by (simp add: append_record_def with_record_def encode_item_def io_simps append_file_append frame_def)

lemma current_file:
  assumes "wal_ok X w" and "current_segment w = Some sg"
  obtains bs where "map_of (files w) (seg_path sg) = Some bs" "length bs = seg_size sg"
    "whole X bs" "is_wal_file (seg_path sg)" "seg_path sg \<in> fst ` set (files w)"
proof -
  obtain bs where bs: "map_of (files w) (seg_path sg) = Some bs" "length bs = seg_size sg"
    using assms by (auto simp: wal_ok_def)
  then have "seg_path sg \<in> fst ` set (files w)" by (metis map_of_eq_None_iff option.distinct(1))
  then show ?thesis using that assms bs by (simp add: wal_ok_def)
qed

lemma with_record_names:
  assumes "wal_ok X w" "current_segment w = Some sg"
  shows "wal_names (files (with_record X v sg w)) = wal_names (files w)"
  by (rule current_file [OF assms]) (simp add: with_record_def append_file_def wal_names_update_old)

lemma with_record_ok:
  assumes ok: "wal_ok X w" and sg: "current_segment w = Some sg" and v: "storable X v"
  shows "wal_ok X (with_record X v sg w)"
proof -
  obtain bs where bs: "map_of (files w) (seg_path sg) = Some bs" "length bs = seg_size sg"
    "whole X bs" and n: "is_wal_file (seg_path sg)"
    using current_file [OF ok sg] by metis
  note names = with_record_names [OF ok sg, of v]
  have "disk_bytes (append_file (seg_path sg) (encode_item X v) (files w)) =
      disk_bytes (files w) + length (encode_item X v)"
    using n by (rule disk_bytes_append_file)
  moreover have "whole X (bs @ encode_item X v)" using bs v by (intro whole_append)
  ultimately show ?thesis
    using ok sg n bs names
    by (auto simp: wal_ok_def with_record_def append_file_def distinct_update map_of_update)
qed

text \<open>The current segment is the last one.\<close>

lemma current_last:
  assumes ok: "wal_ok X w" and sg: "current_segment w = Some sg"
  obtains ns where "wal_names (files w) = ns @ [seg_path sg]" "seg_path sg \<notin> set ns"
proof -
  have mem: "seg_path sg \<in> set (wal_names (files w))"
    by (rule current_file [OF ok sg]) (simp add: in_wal_names)
  then obtain ns c where c: "wal_names (files w) = ns @ [c]"
    by (cases "wal_names (files w)" rule: rev_cases) auto
  have "seg_path sg \<le> c" using mem c sorted_wal_names [of "files w"] by (auto simp: sorted_append)
  moreover have "c \<le> seg_path sg" using ok sg c by (simp add: wal_ok_def)
  moreover have "distinct (wal_names (files w))" using ok by (simp add: wal_ok_def distinct_wal_names)
  ultimately show ?thesis using that c by simp
qed

lemma with_record_log:
  assumes ok: "wal_ok X w" and sg: "current_segment w = Some sg" and v: "storable X v"
  shows "wal_log X (with_record X v sg w) = wal_log X w @ [v]"
proof -
  obtain bs where bs: "map_of (files w) (seg_path sg) = Some bs" "whole X bs"
    using current_file [OF ok sg] by metis
  obtain ns where ns: "wal_names (files w) = ns @ [seg_path sg]" "seg_path sg \<notin> set ns"
    using current_last [OF ok sg] .
  let ?fs = "files (with_record X v sg w)"
  have "segment_log X ?fs n = segment_log X (files w) n" if "n \<in> set ns" for n
    using that ns by (auto simp: segment_log_def with_record_def append_file_def map_of_update)
  then have "map (segment_log X ?fs) ns = map (segment_log X (files w)) ns" by simp
  moreover have "segment_log X ?fs (seg_path sg) = segment_log X (files w) (seg_path sg) @ [v]"
    using bs v by (simp add: segment_log_def with_record_def append_file_def map_of_update records_of_append)
  ultimately show ?thesis
    using with_record_names [OF ok sg, of v] ns by (simp add: wal_log_def cong: map_cong)
qed

text \<open>What a client of the buffer sees of a state; only the log changes when items are written.\<close>

definition same_limits :: "wal \<Rightarrow> wal \<Rightarrow> bool" where
  "same_limits w w' \<longleftrightarrow> max_bytes w' = max_bytes w \<and> segment_max_bytes w' = segment_max_bytes w"

definition wal_ready :: "externals \<Rightarrow> nat \<Rightarrow> wal \<Rightarrow> bool" where
  "wal_ready X k w \<longleftrightarrow> os w = [] \<and> wal_ok X w \<and> clock_ok k w"

lemma clock_ok_mono: "clock_ok k w \<Longrightarrow> l \<le> k \<Longrightarrow> clock_ok l w"
  by (auto simp: clock_ok_def)

definition within_budget :: "wal \<Rightarrow> bool" where
  "within_budget w \<longleftrightarrow> current_size w \<le> segment_max_bytes w \<and> total_bytes w \<le> max_bytes w"

definition record_bytes :: "externals \<Rightarrow> json \<Rightarrow> nat" where
  "record_bytes X v = length (encode_item X v)"

lemma clock_ok_evicted: "clock_ok k w \<Longrightarrow> evicted_to X w w' \<Longrightarrow> clock_ok k w'"
proof -
  assume c: "clock_ok k w" and e: "evicted_to X w w'"
  have "set (wal_names (files w')) \<subseteq> set (wal_names (files w))"
    using e by (auto simp: evicted_to_def suffix_def)
  with c e show ?thesis by (auto simp: clock_ok_def evicted_to_def)
qed

lemma rotate_if_full_quiet:
  assumes r: "wal_ready X (Suc k) w"
  obtains w' sg where "rotate_if_full rs w = (Inr (), w')" "wal_ready X k w'" "current_segment w' = Some sg"
    "wal_log X w' = wal_log X w" "total_bytes w' = total_bytes w" "same_limits w w'"
    "rs \<le> segment_max_bytes w \<longrightarrow> seg_size sg + rs \<le> segment_max_bytes w"
proof (cases "\<exists>sg. current_segment w = Some sg \<and> seg_size sg + rs \<le> segment_max_bytes w")
  case True
  then show ?thesis using r that by (force simp: rotate_if_full_def same_limits_def wal_ready_def intro: clock_ok_mono)
next
  case False
  then have "rotate_if_full rs w = (Inr (), fresh_segment w)"
    using r rotate_segment_quiet [of w "Suc k"]
    by (auto simp: rotate_if_full_def wal_ready_def split: option.splits)
  moreover have "wal_ready X k (fresh_segment w)"
    using r by (auto simp: wal_ready_def fresh_segment_ok [of "Suc k"] fresh_segment_clock)
      (simp add: fresh_segment_def Let_def)
  ultimately show ?thesis
    using r that [of "fresh_segment w"] fresh_segment_log [of "Suc k" w X]
    by (simp add: wal_ready_def) (simp add: fresh_segment_def Let_def same_limits_def)
qed

lemma write_item_quiet:
  assumes r: "wal_ready X (Suc k) w" and v: "storable X v"
  obtains w' where "write_item X v w = (Inr (), w')" "wal_ready X k w'" "same_limits w w'"
    "suffix (wal_log X w') (wal_log X w @ [v])"
    "record_bytes X v \<le> segment_max_bytes w \<and> 2 * segment_max_bytes w \<le> max_bytes w \<and>
       within_budget w \<longrightarrow> within_budget w'"
    "total_bytes w + record_bytes X v \<le> max_bytes w \<longrightarrow>
       wal_log X w' = wal_log X w @ [v] \<and> total_bytes w' = total_bytes w + record_bytes X v"
proof -
  obtain p where p: "json_to_vec X v = Some p" using v by (auto simp: storable_def split: option.splits)
  let ?rs = "4 + length p + 1"
  have rs: "record_bytes X v = ?rs" by (simp add: record_bytes_def encode_item_def p)
  obtain w1 where w1: "evict_until ?rs w = (Inr (), w1)" "wal_ok X w1" "evicted_to X w w1"
    "total_bytes w1 + ?rs \<le> max_bytes w \<or> total_bytes w1 \<le> current_size w1"
    "total_bytes w + ?rs \<le> max_bytes w \<longrightarrow> w1 = w"
    using evict_until_quiet [of w X ?rs] r unfolding wal_ready_def by blast
  have r1: "wal_ready X (Suc k) w1" and l1: "same_limits w w1" and c1: "current_size w1 = current_size w"
    using r w1 clock_ok_evicted [of "Suc k" w X w1]
    by (auto simp: wal_ready_def evicted_to_def same_limits_def current_size_def)
  obtain w2 sg where w2: "rotate_if_full ?rs w1 = (Inr (), w2)" "wal_ready X k w2"
    "current_segment w2 = Some sg" "wal_log X w2 = wal_log X w1" "total_bytes w2 = total_bytes w1"
    "same_limits w1 w2" "?rs \<le> segment_max_bytes w1 \<longrightarrow> seg_size sg + ?rs \<le> segment_max_bytes w1"
    by (rule rotate_if_full_quiet [OF r1, of ?rs]) blast
  let ?w3 = "with_record X v sg w2"
  have "write_item X v w = (Inr (), ?w3)"
    using w1(1) w2(1) append_record_quiet [of w2 sg X v p] w2(2,3) p
    by (simp add: write_item_def bind_io_def wal_ready_def Let_def)
  moreover have "wal_ready X k ?w3"
    using w2 v with_record_ok [of X w2 sg v] with_record_names [of X w2 sg v]
    by (auto simp: wal_ready_def clock_ok_def) (auto simp: with_record_def)
  moreover have l3: "same_limits w ?w3" using l1 w2(6) by (simp add: same_limits_def with_record_def)
  moreover have log3: "wal_log X ?w3 = wal_log X w1 @ [v]"
    using w2 v with_record_log [of X w2 sg v] by (simp add: wal_ready_def)
  moreover have "suffix (wal_log X ?w3) (wal_log X w @ [v])"
    using w1(3) log3 by (simp add: evicted_to_def)
  moreover have t3: "total_bytes ?w3 = total_bytes w1 + ?rs"
    using w2(5) rs by (simp add: with_record_def record_bytes_def)
  moreover have c3: "current_size ?w3 = seg_size sg + ?rs"
    using rs by (simp add: with_record_def current_size_def record_bytes_def)
  moreover have "?rs \<le> segment_max_bytes w \<and> 2 * segment_max_bytes w \<le> max_bytes w \<and>
      within_budget w \<longrightarrow> within_budget ?w3"
    using t3 c3 l1 l3 c1 w1(4) w2(7) unfolding within_budget_def same_limits_def by auto
  ultimately show ?thesis using that [of ?w3] w1(5) rs by auto
qed

subsection \<open>Writing a batch\<close>

lemma suffix_append_trans: "suffix as (bs @ cs) \<Longrightarrow> suffix bs ds \<Longrightarrow> suffix as (ds @ cs)"
  by (meson suffix_order.trans same_suffix_suffix suffix_appendI suffix_def)

lemma write_items_quiet:
  assumes "wal_ready X (length vs + k) w" "\<forall>v\<in>set vs. storable X v"
  obtains w' where "write_items X vs w = (Inr (), w')" "wal_ready X k w'" "same_limits w w'"
    "suffix (wal_log X w') (wal_log X w @ vs)"
    "(\<forall>v\<in>set vs. record_bytes X v \<le> segment_max_bytes w) \<and>
       2 * segment_max_bytes w \<le> max_bytes w \<and> within_budget w \<longrightarrow> within_budget w'"
    "total_bytes w + (\<Sum>v\<leftarrow>vs. record_bytes X v) \<le> max_bytes w \<longrightarrow>
       wal_log X w' = wal_log X w @ vs \<and>
       total_bytes w' = total_bytes w + (\<Sum>v\<leftarrow>vs. record_bytes X v)"
  using assms
proof (induction vs arbitrary: w thesis)
  case Nil
  show ?case
    by (rule Nil(1) [of w]) (use Nil in \<open>simp_all add: return_io_def same_limits_def\<close>)
next
  case (Cons v vs)
  have v: "storable X v" and vs: "\<forall>v\<in>set vs. storable X v" using Cons.prems(3) by auto
  have r: "wal_ready X (Suc (length vs + k)) w" using Cons.prems(2) by simp
  obtain w1 where w1: "write_item X v w = (Inr (), w1)" "wal_ready X (length vs + k) w1" "same_limits w w1"
    "suffix (wal_log X w1) (wal_log X w @ [v])"
    "record_bytes X v \<le> segment_max_bytes w \<and> 2 * segment_max_bytes w \<le> max_bytes w \<and>
       within_budget w \<longrightarrow> within_budget w1"
    "total_bytes w + record_bytes X v \<le> max_bytes w \<longrightarrow>
       wal_log X w1 = wal_log X w @ [v] \<and> total_bytes w1 = total_bytes w + record_bytes X v"
    using write_item_quiet [OF r v] .
  obtain w2 where w2: "write_items X vs w1 = (Inr (), w2)" "wal_ready X k w2" "same_limits w1 w2"
    "suffix (wal_log X w2) (wal_log X w1 @ vs)"
    "(\<forall>v\<in>set vs. record_bytes X v \<le> segment_max_bytes w1) \<and>
       2 * segment_max_bytes w1 \<le> max_bytes w1 \<and> within_budget w1 \<longrightarrow> within_budget w2"
    "total_bytes w1 + (\<Sum>v\<leftarrow>vs. record_bytes X v) \<le> max_bytes w1 \<longrightarrow>
       wal_log X w2 = wal_log X w1 @ vs \<and>
       total_bytes w2 = total_bytes w1 + (\<Sum>v\<leftarrow>vs. record_bytes X v)"
    using Cons.IH [OF _ w1(2) vs] by blast
  show ?case
  proof (rule Cons.prems(1) [of w2])
    show "suffix (wal_log X w2) (wal_log X w @ v # vs)"
      using w2(4) w1(4) suffix_append_trans [of "wal_log X w2" "wal_log X w1" vs "wal_log X w @ [v]"]
      by simp
  qed (use w1 w2 in \<open>auto simp: bind_io_def same_limits_def\<close>)
qed

theorem write_batch_quiet:
  assumes r: "wal_ready X (length vs + k) w" and vs: "\<forall>v\<in>set vs. storable X v"
  obtains w' where "write_batch X vs w = (Inr (), w')" "wal_ready X k w'" "same_limits w w'"
    "suffix (wal_log X w') (wal_log X w @ vs)"
    "(\<forall>v\<in>set vs. record_bytes X v \<le> segment_max_bytes w) \<and>
       2 * segment_max_bytes w \<le> max_bytes w \<and> within_budget w \<longrightarrow> within_budget w'"
    "total_bytes w + (\<Sum>v\<leftarrow>vs. record_bytes X v) \<le> max_bytes w \<longrightarrow>
       wal_log X w' = wal_log X w @ vs \<and>
       total_bytes w' = total_bytes w + (\<Sum>v\<leftarrow>vs. record_bytes X v)"
proof (cases "vs = []")
  case True
  then show ?thesis using r that [of w] by (simp add: write_batch_def return_io_def same_limits_def)
next
  case False
  obtain w' where w': "write_items X vs w = (Inr (), w')" "wal_ready X k w'" "same_limits w w'"
    "suffix (wal_log X w') (wal_log X w @ vs)"
    "(\<forall>v\<in>set vs. record_bytes X v \<le> segment_max_bytes w) \<and>
       2 * segment_max_bytes w \<le> max_bytes w \<and> within_budget w \<longrightarrow> within_budget w'"
    "total_bytes w + (\<Sum>v\<leftarrow>vs. record_bytes X v) \<le> max_bytes w \<longrightarrow>
       wal_log X w' = wal_log X w @ vs \<and>
       total_bytes w' = total_bytes w + (\<Sum>v\<leftarrow>vs. record_bytes X v)"
    using write_items_quiet [OF r vs] .
  have "write_batch X vs w = (Inr (), w')"
    using False w'(1,2)
    by (auto simp: write_batch_def bind_io_def wal_ready_def io_simps split: option.splits)
  then show ?thesis using that w' by blast
qed

subsection \<open>Draining\<close>

lemma read_oldest_batch_quiet:
  assumes os: "os w = []" and ok: "wal_ok X w"
  shows "read_oldest_batch X n w =
    (Inr (map_option (\<lambda>p. (p, take n (segment_log X (files w) p)))
            (oldest_completed w (wal_names (files w)))), w)"
proof (cases "oldest_completed w (wal_names (files w))")
  case None
  then show ?thesis using os by (simp add: read_oldest_batch_def io_simps)
next
  case (Some p)
  note p = oldest_completed_Some(1,2) [OF Some]
  then obtain bs where bs: "map_of (files w) p = Some bs" by (metis map_of_eq_None_iff not_None_eq)
  then have "whole X bs" using ok p by (simp add: wal_ok_def)
  then show ?thesis
    using os Some bs
    by (simp add: read_oldest_batch_def io_simps read_segment_def segment_log_def read_records_whole bind_io_def)
qed

lemma delete_segment_quiet:
  assumes os: "os w = []" and p: "oldest_completed w (wal_names (files w)) = Some p"
  shows "delete_segment p w = (Inr (), drop_oldest p w)"
proof -
  obtain bs where "map_of (files w) p = Some bs"
    using oldest_completed_Some(2) [OF p] by (metis map_of_eq_None_iff not_None_eq)
  then show ?thesis using os by (simp add: delete_segment_def io_simps drop_oldest_def)
qed

lemma has_pending_quiet:
  "os w = [] \<Longrightarrow> has_pending w = (oldest_completed w (wal_names (files w)) \<noteq> None, w)"
  by (simp add: has_pending_def io_simps)

subsection \<open>Names in the order of time\<close>

lemma list_less_append_left: "(xs :: 'a::linorder list) < ys \<Longrightarrow> zs @ xs < zs @ ys"
  by (simp add: list_less_def lexord_append_leftI)

lemma list_less_append_right:
  "(xs :: 'a::linorder list) < ys \<Longrightarrow> length xs = length ys \<Longrightarrow> xs @ us < ys @ vs"
  by (simp add: list_less_def lexord_sufI)

lemma digit_char_less: "d < e \<Longrightarrow> e < 10 \<Longrightarrow> digit_char d < digit_char e"
  by (simp add: less_char_def of_char_digit_char)

lemma show_nat_less:
  "a < b \<Longrightarrow> length (show_nat a) = length (show_nat b) \<Longrightarrow> show_nat a < show_nat b"
proof (induction a arbitrary: b rule: show_nat.induct)
  case (1 a)
  show ?case
  proof (cases "a < 10")
    case True
    then have "length (show_nat b) = 1" using 1 by (simp add: show_nat.simps [of a])
    then have "b < 10" by (simp add: show_nat.simps [of b] split: if_splits)
    then show ?thesis using True 1 by (simp add: show_nat.simps [of a] show_nat.simps [of b] digit_char_less)
  next
    case False
    then have b: "\<not> b < 10" using 1 by simp
    have sa: "show_nat a = show_nat (a div 10) @ [digit_char (a mod 10)]"
      and sb: "show_nat b = show_nat (b div 10) @ [digit_char (b mod 10)]"
      using False b by (simp_all add: show_nat.simps [of a] show_nat.simps [of b])
    have len: "length (show_nat (a div 10)) = length (show_nat (b div 10))"
      using 1 sa sb by simp
    show ?thesis
    proof (cases "a div 10 < b div 10")
      case True
      then show ?thesis using 1(1) [OF False True len] len sa sb by (simp add: list_less_append_right)
    next
      case F: False
      have q: "a div 10 = b div 10" using F div_le_mono [of a b 10] 1(2) by simp
      have r: "a mod 10 < b mod 10"
        using q 1(2) mult_div_mod_eq [of 10 a] mult_div_mod_eq [of 10 b] by linarith
      have "digit_char (a mod 10) < digit_char (b mod 10)" using r by (rule digit_char_less) simp
      then show ?thesis unfolding sa sb q by (intro list_less_append_left) simp
    qed
  qed
qed

lemma length_show_nat: "10 ^ k \<le> n \<Longrightarrow> n < 10 ^ Suc k \<Longrightarrow> length (show_nat n) = Suc k"
proof (induction k arbitrary: n)
  case 0
  then show ?case by (simp add: show_nat.simps)
next
  case (Suc k)
  have "10 \<le> (10 :: nat) ^ Suc k" by simp
  with Suc.prems have "\<not> n < 10" by linarith
  moreover have "10 ^ k \<le> n div 10" "n div 10 < 10 ^ Suc k"
    using Suc.prems by (simp_all add: less_mult_imp_div_less less_eq_div_iff_mult_less_eq)
  ultimately show ?case using Suc.IH [of "n div 10"] by (subst show_nat.simps) simp
qed

lemma segment_name_less:
  assumes "10 ^ 12 \<le> a" "a < b" "b < 10 ^ 13"
  shows "segment_name a < segment_name b"
proof -
  have "length (show_nat a) = 13" "length (show_nat b) = 13"
    using assms length_show_nat [of 12 a] length_show_nat [of 12 b] by simp_all
  with show_nat_less [OF assms(2)] show ?thesis
    unfolding segment_name_def by (intro list_less_append_left list_less_append_right) simp_all
qed

subsection \<open>Calls that fail\<close>

text \<open>
  What every operation keeps, whatever the operating system answers: a file that is neither the
  current segment nor one of the names still to come is as it was or removed as a whole, and the
  current segment is only appended to.
\<close>

definition coming_names :: "wal \<Rightarrow> str set" where
  "coming_names w = (\<lambda>i. segment_name (clock_ms w i)) ` {readings w..}"

definition file_kept :: "wal \<Rightarrow> wal \<Rightarrow> str \<Rightarrow> bool" where
  "file_kept w w' n \<longleftrightarrow>
     map_of (files w') n = map_of (files w) n \<or>
     map_of (files w') n = None \<and> current_path w' \<noteq> Some n \<or>
     current_path w = Some n \<and> (\<exists>t. map_of (files w') n = Some (unwrap_or [] (map_of (files w) n) @ t))"

definition kept :: "wal \<Rightarrow> wal \<Rightarrow> bool" where
  "kept w w' \<longleftrightarrow>
     clock_ms w' = clock_ms w \<and> readings w \<le> readings w' \<and>
     (\<forall>q. current_path w' = Some q \<longrightarrow> current_path w = Some q \<or> q \<in> coming_names w) \<and>
     (\<forall>n. n \<notin> coming_names w \<longrightarrow> file_kept w w' n)"

lemma kept_refl [simp, intro]: "kept w w"
  by (simp add: kept_def file_kept_def)

lemma coming_names_mono:
  "clock_ms w' = clock_ms w \<Longrightarrow> readings w \<le> readings w' \<Longrightarrow> coming_names w' \<subseteq> coming_names w"
  by (auto simp: coming_names_def)

lemma file_kept_trans:
  assumes "file_kept w w1 n" "file_kept w1 w2 n"
    and "current_path w1 = Some n \<Longrightarrow> current_path w = Some n"
    and "current_path w2 = Some n \<Longrightarrow> current_path w1 = Some n"
  shows "file_kept w w2 n"
proof (cases "map_of (files w2) n = map_of (files w1) n")
  case True
  then show ?thesis using assms by (auto simp: file_kept_def)
next
  case False
  show ?thesis
  proof (cases "current_path w1 = Some n")
    case True
    then show ?thesis using assms False by (auto simp: file_kept_def append_assoc)
  next
    case F: False
    then show ?thesis using assms False by (auto simp: file_kept_def)
  qed
qed

lemma kept_trans [trans]:
  assumes a: "kept w w1" and b: "kept w1 w2"
  shows "kept w w2"
proof -
  have sub: "coming_names w1 \<subseteq> coming_names w"
    using a by (intro coming_names_mono) (simp_all add: kept_def)
  have "file_kept w w2 n" if n: "n \<notin> coming_names w" for n
  proof (rule file_kept_trans)
    show "file_kept w w1 n" using a n by (simp add: kept_def)
    show "file_kept w1 w2 n" using b n sub by (auto simp: kept_def)
    show "current_path w = Some n" if "current_path w1 = Some n"
      using a n that by (auto simp: kept_def)
    show "current_path w1 = Some n" if "current_path w2 = Some n"
      using b n sub that by (auto simp: kept_def)
  qed
  moreover have "current_path w = Some q \<or> q \<in> coming_names w" if "current_path w2 = Some q" for q
    using a b sub that unfolding kept_def by blast
  ultimately show ?thesis using a b by (simp add: kept_def)
qed

lemma kept_fields:
  "files w' = files w \<Longrightarrow> clock_ms w' = clock_ms w \<Longrightarrow> readings w' = readings w \<Longrightarrow>
   current_path w' = current_path w \<Longrightarrow> kept w w'"
  by (simp add: kept_def file_kept_def)

lemma current_path_eq: "current_segment w' = current_segment w \<Longrightarrow> current_path w' = current_path w"
  by (simp add: current_path_def)

lemma current_path_update [simp]:
  "current_path (w\<lparr>files := fs\<rparr>) = current_path w"
  "current_path (w\<lparr>total_bytes := t\<rparr>) = current_path w"
  "current_path (w\<lparr>os := xs\<rparr>) = current_path w"
  by (simp_all add: current_path_def)

lemma coming_names_update [simp]:
  "coming_names (w\<lparr>files := fs\<rparr>) = coming_names w"
  "coming_names (w\<lparr>total_bytes := t\<rparr>) = coming_names w"
  by (simp_all add: coming_names_def)

lemma kept_delete:
  assumes "current_path w \<noteq> Some p"
  shows "kept w (w\<lparr>files := AList.delete p (files w)\<rparr>)"
proof -
  have "file_kept w (w\<lparr>files := AList.delete p (files w)\<rparr>) m" for m
    using assms by (cases "m = p") (simp_all add: file_kept_def map_of_delete)
  then show ?thesis by (simp add: kept_def)
qed

lemma kept_append:
  assumes "current_path w = Some n"
  shows "kept w (w\<lparr>files := append_file n bs (files w)\<rparr>)"
proof -
  have "file_kept w (w\<lparr>files := append_file n bs (files w)\<rparr>) m" for m
    using assms by (cases "m = n") (auto simp: file_kept_def append_file_def map_of_update)
  then show ?thesis by (simp add: kept_def)
qed

lemma kept_os_call:
  "os_call w = (r, w') \<Longrightarrow> kept w w' \<and> current_segment w' = current_segment w"
  by (cases "os w") (auto simp: os_call_def kept_fields)

lemma find_Some_sat: "List.find P xs = Some x \<Longrightarrow> P x"
  by (induction xs) (auto split: if_splits)

lemma oldest_completed_ne: "oldest_completed w segs = Some p \<Longrightarrow> current_path w \<noteq> Some p"
  unfolding oldest_completed_def by (drule find_Some_sat) (rule not_sym)

definition keeps :: "'a io \<Rightarrow> bool" where
  "keeps m \<longleftrightarrow> (\<forall>w r w'. m w = (r, w') \<longrightarrow> kept w w')"

lemma keepsD: "keeps m \<Longrightarrow> m w = (r, w') \<Longrightarrow> kept w w'"
  by (simp add: keeps_def)

lemma kept_bind:
  assumes "bind_io m f w = (r, w')" and "\<And>x w1. m w = (x, w1) \<Longrightarrow> kept w w1"
    and "\<And>x w1. m w = (Inr x, w1) \<Longrightarrow> f x w1 = (r, w') \<Longrightarrow> kept w1 w'"
  shows "kept w w'"
  using assms(1) assms(2,3) unfolding bind_io_def
  by (auto split: prod.splits sum.splits) (blast intro: kept_trans)

lemma keeps_bind [intro]: "keeps m \<Longrightarrow> (\<And>x. keeps (f x)) \<Longrightarrow> keeps (bind_io m f)"
  unfolding keeps_def by (blast intro: kept_bind)

lemma keeps_return [intro]: "keeps (return_io x)"
  by (simp add: keeps_def return_io_def)

lemma kept_reads:
  "fs_call w = (r1, w') \<Longrightarrow> kept w w' \<and> current_segment w' = current_segment w"
  "sorted_segments w = (r2, w') \<Longrightarrow> kept w w' \<and> current_segment w' = current_segment w"
  "metadata_or_0 n w = (r3, w') \<Longrightarrow> kept w w' \<and> current_segment w' = current_segment w"
  by (auto simp: fs_call_def sorted_segments_def metadata_or_0_def fs_metadata_len_def
      dest!: kept_os_call split: prod.splits outcome.splits option.splits sum.splits)

lemma kept_remove:
  assumes "fs_remove_file p w = (r, w')" and "current_path w \<noteq> Some p"
  shows "kept w w'"
proof -
  obtain x w1 where w1: "os_call w = (x, w1)" by (cases "os_call w")
  note k = kept_os_call [OF w1]
  then have "current_path w1 \<noteq> Some p" using assms by (simp add: current_path_def)
  from kept_delete [OF this] k have "kept w (w1\<lparr>files := AList.delete p (files w1)\<rparr>)"
    by (blast intro: kept_trans)
  then show ?thesis using assms(1) w1 k
    by (auto simp: fs_remove_file_def split: outcome.splits option.splits)
qed

lemma kept_write:
  assumes "fs_write_all n bs w = (r, w')" and "current_path w = Some n"
  shows "kept w w' \<and> current_segment w' = current_segment w"
proof -
  obtain x w1 where w1: "os_call w = (x, w1)" by (cases "os_call w")
  note k = kept_os_call [OF w1]
  then have "current_path w1 = Some n" using assms by (simp add: current_path_def)
  from kept_append [OF this] k have "kept w (w1\<lparr>files := append_file n cs (files w1)\<rparr>)" for cs
    by (blast intro: kept_trans)
  then show ?thesis using assms(1) w1 k
    by (auto simp: fs_write_all_def split: outcome.splits)
qed

lemma keeps_evict_oldest: "keeps evict_oldest"
  unfolding keeps_def evict_oldest_def
proof (intro allI impI, erule kept_bind)
  show "kept w w1" if "sorted_segments w = (x, w1)" for x w w1
    using kept_reads(2) [OF that] by simp
next
  fix w r w' segs w1
  assume s: "sorted_segments w = (Inr segs, w1)"
    and e: "(case oldest_completed w1 segs of None \<Rightarrow> (Inr False, w1)
        | Some path \<Rightarrow> bind_io (metadata_or_0 path) (\<lambda>size. bind_io (fs_remove_file path)
            (\<lambda>_ w'. (Inr True, w'\<lparr>total_bytes := total_bytes w' - size\<rparr>))) w1) = (r, w')"
  show "kept w1 w'"
  proof (cases "oldest_completed w1 segs")
    case None
    then show ?thesis using e by simp
  next
    case (Some p)
    then have p: "current_path w1 \<noteq> Some p" by (rule oldest_completed_ne)
    from e Some show ?thesis
    proof (simp, elim kept_bind)
      show "kept w1 w2" if "metadata_or_0 p w1 = (x, w2)" for x w2
        using kept_reads(3) [OF that] by simp
      fix x w2 y w3 assume m: "metadata_or_0 p w1 = (Inr x, w2)"
      have "current_path w2 \<noteq> Some p"
        using kept_reads(3) [OF m] p by (simp add: current_path_def)
      then show "fs_remove_file p w2 = (y, w3) \<Longrightarrow> kept w2 w3" by (rule kept_remove [rotated])
    qed (auto intro: kept_fields)
  qed
qed

lemma kept_evict_until: "evict_until rs w = (r, w') \<Longrightarrow> kept w w'"
proof (induction rs w arbitrary: r w' rule: evict_until.induct)
  case (1 rs w)
  obtain x w1 where e: "evict_oldest w = (x, w1)" by (cases "evict_oldest w")
  have k: "kept w w1" using keepsD [OF keeps_evict_oldest e] .
  show ?case
  proof (cases "max_bytes w < total_bytes w + rs \<and> x = Inr True")
    case True
    then have "evict_until rs w1 = (r, w')" using "1.prems" e by (subst (asm) evict_until.simps) simp
    then have "kept w1 w'" using "1.IH" [OF _ e [symmetric], simplified] True by blast
    with k show ?thesis by (rule kept_trans)
  next
    case False
    then have "w' = w \<or> w' = w1"
      using "1.prems" e by (subst (asm) evict_until.simps) (auto split: if_splits sum.splits bool.splits)
    with k show ?thesis by auto
  qed
qed

lemma kept_rotated:
  assumes "clock_ms w' = clock_ms w" "readings w' = Suc (readings w)"
    and "path = segment_name (clock_ms w (readings w))"
    and "files w' = files w \<or> files w' = AList.update path [] (files w)"
    and "current_path w' = None \<or> current_path w' = Some path"
  shows "kept w w'"
proof -
  have c: "path \<in> coming_names w" using assms(3) by (auto simp: coming_names_def)
  then have "file_kept w w' n" if "n \<notin> coming_names w" for n
    using assms that by (auto simp: file_kept_def map_of_update)
  then show ?thesis using assms c by (auto simp: kept_def)
qed

lemma kept_rotate_segment: "rotate_segment w = (r, w') \<Longrightarrow> kept w w'"
proof -
  assume a: "rotate_segment w = (r, w')"
  let ?path = "segment_name (clock_ms w (readings w))"
  have "clock_ms w' = clock_ms w \<and> readings w' = Suc (readings w) \<and>
      (files w' = files w \<or> files w' = AList.update ?path [] (files w)) \<and>
      (current_path w' = None \<or> current_path w' = Some ?path)"
  proof (cases "os w")
    case Nil
    then show ?thesis using a
      by (cases "map_of (files w) ?path")
        (auto simp: rotate_segment_def Let_def bind_io_def fs_open_append_def os_call_def current_path_def)
  next
    case (Cons x xs)
    then show ?thesis using a
      by (cases x; cases "map_of (files w) ?path")
        (auto simp: rotate_segment_def Let_def bind_io_def fs_open_append_def os_call_def current_path_def)
  qed
  then show ?thesis by (intro kept_rotated) auto
qed

lemma keeps_rotate_if_full: "keeps (rotate_if_full rs)"
  by (auto simp: keeps_def rotate_if_full_def dest: kept_rotate_segment split: if_splits option.splits)

lemma kept_write_bind:
  assumes "bind_io (fs_write_all (seg_path sg) cs) f u = (r, w')" "current_segment u = Some sg"
    and "\<And>u1. f () u1 = (r, w') \<Longrightarrow> current_segment u1 = Some sg \<Longrightarrow> kept u1 w'"
  shows "kept u w'"
proof (rule kept_bind [OF assms(1)])
  have c: "current_path u = Some (seg_path sg)" using assms(2) by (simp add: current_path_def)
  show "kept u u1" if "fs_write_all (seg_path sg) cs u = (x, u1)" for x u1
    using kept_write [OF that c] by simp
  show "kept u1 w'" if "fs_write_all (seg_path sg) cs u = (Inr x, u1)" "f x u1 = (r, w')" for x u1
    using kept_write [OF that(1) c] that(2) assms(2,3) by simp
qed

lemma keeps_append_record: "keeps (append_record bs rs)"
  unfolding keeps_def
proof (intro allI impI)
  fix w r w'
  assume a: "append_record bs rs w = (r, w')"
  show "kept w w'"
  proof (cases "current_segment w")
    case None
    then show ?thesis using a by (simp add: append_record_def)
  next
    case (Some sg)
    note b = a [unfolded append_record_def Some option.case]
    show ?thesis
      apply (rule kept_write_bind [OF b Some])
      apply (erule kept_write_bind, assumption)
      apply (erule kept_write_bind, assumption)
      apply (auto simp: current_path_def intro!: kept_fields)
      done
  qed
qed

lemma keeps_write_item: "keeps (write_item X v)"
proof (cases "json_to_vec X v")
  case None
  then show ?thesis by (simp add: write_item_def keeps_def)
next
  case (Some p)
  have "keeps (evict_until rs)" for rs by (auto simp: keeps_def intro: kept_evict_until)
  then show ?thesis
    unfolding write_item_def Some
    by (auto simp: Let_def intro!: keeps_bind keeps_rotate_if_full keeps_append_record)
qed

lemma keeps_write_items: "keeps (write_items X vs)"
  by (induction vs) (auto intro: keeps_write_item)

lemma kept_write_batch: "write_batch X vs w = (r, w') \<Longrightarrow> kept w w'"
proof -
  assume a: "write_batch X vs w = (r, w')"
  show ?thesis
  proof (cases "vs = []")
    case True
    then show ?thesis using a by (simp add: write_batch_def return_io_def)
  next
    case False
    show ?thesis
    proof (rule kept_bind)
      show "bind_io (write_items X vs)
          (\<lambda>_ w. case current_segment w of Some _ \<Rightarrow> fs_call w | None \<Rightarrow> (Inr (), w)) w = (r, w')"
        using a False by (simp add: write_batch_def)
      show "kept w w1" if "write_items X vs w = (x, w1)" for x w1
        using keepsD [OF keeps_write_items that] .
    qed (auto dest: kept_reads split: option.splits)
  qed
qed

subsection \<open>Recovery\<close>

lemma sum_lengths_quiet:
  "os w = [] \<Longrightarrow> \<forall>n\<in>set ns. n \<in> fst ` set (files w) \<Longrightarrow>
   sum_lengths ns acc w = (Inr (acc + (\<Sum>n\<leftarrow>ns. length (unwrap_or [] (map_of (files w) n)))), w)"
proof (induction ns arbitrary: acc)
  case (Cons n ns)
  then obtain bs where "map_of (files w) n = Some bs"
    by (metis list.set_intros(1) map_of_eq_None_iff not_None_eq)
  with Cons show ?case by (simp add: bind_io_def io_simps)
qed (simp add: return_io_def)

lemma sum_lengths_names:
  "distinct (map fst fs) \<Longrightarrow>
   (\<Sum>n\<leftarrow>wal_names fs. length (unwrap_or [] (map_of fs n))) = disk_bytes fs"
proof -
  assume d: "distinct (map fst fs)"
  have "(\<Sum>n\<leftarrow>wal_names fs. length (unwrap_or [] (map_of fs n))) =
      (\<Sum>n\<leftarrow>filter is_wal_file (map fst fs). length (unwrap_or [] (map_of fs n)))"
    by (metis (no_types) mset_map mset_sort sum_mset_sum_list wal_names_def)
  also have "\<dots> = disk_bytes fs"
    using d
  proof (induction fs)
    case (Cons x fs)
    obtain n bs where x: "x = (n, bs)" by (cases x)
    have "(\<Sum>m\<leftarrow>filter is_wal_file (map fst fs). length (unwrap_or [] (if m = n then Some bs else map_of fs m))) =
        (\<Sum>m\<leftarrow>filter is_wal_file (map fst fs). length (unwrap_or [] (map_of fs m)))"
      using Cons.prems x by (intro arg_cong [where f = sum_list] map_cong refl) auto
    with Cons x show ?case by simp
  qed simp
  finally show ?thesis .
qed

lemma wal_open_quiet:
  assumes "os w = []" "distinct (map fst (files w))"
  shows "wal_open mx seg_mx w = (Inr (), w\<lparr>max_bytes := mx, segment_max_bytes := seg_mx,
           current_segment := None, total_bytes := disk_bytes (files w)\<rparr>)"
proof -
  have "\<forall>n\<in>set (wal_names (files w)). n \<in> fst ` set (files w)" by (simp add: in_wal_names)
  then show ?thesis
    using assms
    by (simp add: wal_open_def list_for_log_def return_io_def bind_io_def io_simps sum_lengths_quiet sum_lengths_names)
qed

subsection \<open>A buffer to try things on\<close>

definition demo_wal :: wal where
  "demo_wal =
     \<lparr>files = [], os = [], clock_ms = (\<lambda>i. 1700000000000 + i), readings = 0, info_enabled = True, max_bytes = 100,
      segment_max_bytes = 40, current_segment = None, total_bytes = 0\<rparr>"

definition demo_item :: "str \<Rightarrow> json" where
  "demo_item s = JStr s"

lemma demo_storable: "length s \<le> 1000 \<Longrightarrow> storable demo_externals (demo_item s)"
  by (simp add: storable_def demo_item_def demo_externals_def demo_to_vec_def demo_roundtrip record_fits_def)

lemma demo_record_bytes: "record_bytes demo_externals (demo_item s) = 7 + length s"
  by (simp add: record_bytes_def encode_item_def demo_item_def demo_externals_def demo_to_vec_def)

lemma demo_clock:
  "clock_ms w = clock_ms demo_wal \<Longrightarrow> wal_names (files w) = [] \<Longrightarrow> readings w + k < 1000000 \<Longrightarrow> clock_ok k w"
  by (auto simp: clock_ok_def demo_wal_def intro!: segment_name_less)

lemma demo_ready: "k < 1000000 \<Longrightarrow> wal_ready demo_externals k demo_wal"
  by (simp add: wal_ready_def demo_clock) (simp add: demo_wal_def wal_ok_def wal_names_def demo_clock)

lemma demo_vecs [simp]:
  "json_to_vec demo_externals (demo_item ''one'') = Some [0x22, 0x6f, 0x6e, 0x65, 0x22]"
  "json_to_vec demo_externals (demo_item ''two'') = Some [0x22, 0x74, 0x77, 0x6f, 0x22]"
  by (simp_all add: demo_externals_def demo_to_vec_def demo_item_def as_bytes_def)

lemma be_bytes_5: "be_bytes 4 5 = [0, 0, 0, 5]"
proof -
  have four: "4 = Suc (Suc (Suc (Suc 0)))" by simp
  show ?thesis unfolding four by simp
qed

lemmas demo_eval =
  write_batch_def write_item_def bind_io_def return_io_def Let_def evict_until.simps rotate_if_full_def
  rotate_segment_def fs_open_append_def os_call_def append_record_def fs_write_all_def append_file_def
  demo_wal_def fs_call_def be_bytes_5

abbreviation demo_new :: str where
  "demo_new \<equiv> segment_name 1700000000000"

lemma demo_clean:
  "write_batch demo_externals [demo_item ''one''] demo_wal =
     (Inr (), demo_wal\<lparr>files := [(demo_new, [0, 0, 0, 5, 0x22, 0x6f, 0x6e, 0x65, 0x22, 0x0A])], readings := 1,
        current_segment := Some \<lparr>seg_path = demo_new, seg_size = 10\<rparr>, total_bytes := 10\<rparr>)"
  by (simp add: demo_eval SENTINEL_def)

subsection \<open>What the buffer promises\<close>

text \<open>
  C8: Writing a batch to a healthy disk succeeds, and what the buffer then holds is the end of what
  it held before followed by the batch: records leave it oldest first and whole segments at a time,
  and when the batch fits the budget nothing leaves it.
\<close>

theorem write_batch_appends:
  assumes "wal_ready X (length vs + k) w" and "\<forall>v\<in>set vs. storable X v"
  shows "\<exists>w'. write_batch X vs w = (Inr (), w') \<and> wal_ready X k w' \<and>
    suffix (wal_log X w') (wal_log X w @ vs) \<and>
    (total_bytes w + (\<Sum>v\<leftarrow>vs. record_bytes X v) \<le> max_bytes w \<longrightarrow> wal_log X w' = wal_log X w @ vs)"
  by (rule write_batch_quiet [OF assms]) blast

lemma demo_items: "\<forall>v\<in>set [demo_item ''one'', demo_item ''two'']. storable demo_externals v"
  by (simp add: demo_storable)

lemma demo_log: "wal_log X demo_wal = []"
  by (simp add: wal_log_def demo_wal_def wal_names_def)

theorem write_batch_appends_witness:
  "\<exists>w'. write_batch demo_externals [demo_item ''one'', demo_item ''two''] demo_wal = (Inr (), w') \<and>
     wal_log demo_externals w' = [demo_item ''one'', demo_item ''two'']"
proof -
  have r: "wal_ready demo_externals (length [demo_item ''one'', demo_item ''two''] + 0) demo_wal"
    by (simp add: demo_ready)
  from write_batch_appends [OF r demo_items] show ?thesis
    by (auto simp: demo_log demo_record_bytes) (simp add: demo_wal_def)
qed

text \<open>
  C19: A batch keeps the disk budget: on a disk none of whose calls fails, when no record is larger than a segment
  and the budget allows for two segments, a buffer within its budget is within it after any batch of storable
  rows; the running total is then the bytes that are really on disk, and the budget bounds them.
\<close>

theorem write_batch_within_budget:
  assumes "wal_ready X (length vs) w" and "\<forall>v\<in>set vs. storable X v"
    and "\<forall>v\<in>set vs. record_bytes X v \<le> segment_max_bytes w"
    and "2 * segment_max_bytes w \<le> max_bytes w" and "within_budget w"
  shows "\<exists>w'. write_batch X vs w = (Inr (), w') \<and> within_budget w' \<and>
    disk_bytes (files w') = total_bytes w' \<and> disk_bytes (files w') \<le> max_bytes w"
proof -
  have r: "wal_ready X (length vs + 0) w" using assms(1) by simp
  show ?thesis
    by (rule write_batch_quiet [OF r assms(2)])
      (use assms in \<open>auto simp: within_budget_def same_limits_def wal_ready_def wal_ok_def\<close>)
qed

theorem write_batch_within_budget_witness:
  "\<exists>w'. write_batch demo_externals (replicate 20 (demo_item ''twelve chars'')) demo_wal = (Inr (), w') \<and>
     disk_bytes (files w') \<le> 100"
proof -
  have m: "segment_max_bytes demo_wal = 40" "max_bytes demo_wal = 100" by (simp_all add: demo_wal_def)
  have "within_budget demo_wal" by (simp add: within_budget_def demo_wal_def current_size_def)
  then show ?thesis
    using write_batch_within_budget [of demo_externals "replicate 20 (demo_item ''twelve chars'')" demo_wal]
    by (auto simp: m demo_ready demo_storable demo_record_bytes)
qed

lemma drain_quiet:
  assumes "wal_ready X k w" and "oldest_completed w (wal_names (files w)) = Some p"
  shows "wal_log X w = segment_log X (files w) p @ wal_log X (drop_oldest p w)"
    "read_oldest_batch X n w = (Inr (Some (p, take n (segment_log X (files w) p))), w)"
    "delete_segment p w = (Inr (), drop_oldest p w)"
    "wal_ready X k (drop_oldest p w)"
proof -
  have ok: "wal_ok X w" and os: "os w = []" using assms(1) by (simp_all add: wal_ready_def)
  show "wal_log X w = segment_log X (files w) p @ wal_log X (drop_oldest p w)"
    using ok assms(2) by (rule drop_oldest_log)
  show "read_oldest_batch X n w = (Inr (Some (p, take n (segment_log X (files w) p))), w)"
    using read_oldest_batch_quiet [OF os ok] assms(2) by simp
  show "delete_segment p w = (Inr (), drop_oldest p w)" using os assms(2) by (rule delete_segment_quiet)
  have ev: "evicted_to X w (drop_oldest p w)" using ok assms(2) by (rule drop_oldest_evicted)
  show "wal_ready X k (drop_oldest p w)"
    using assms clock_ok_evicted [OF _ ev] drop_oldest_ok [OF ok assms(2)]
    by (auto simp: wal_ready_def) (simp add: drop_oldest_def)
qed

text \<open>
  C21: Draining is first in, first out: the batch read is the first \<open>n\<close> records of the oldest segment
  that is not being written, and deleting that segment removes exactly its records from the front
  of the log.
\<close>

theorem drain_oldest:
  assumes "wal_ready X k w" and "oldest_completed w (wal_names (files w)) = Some p"
  shows "\<exists>vs w'. wal_log X w = vs @ wal_log X w' \<and>
    read_oldest_batch X n w = (Inr (Some (p, take n vs)), w) \<and>
    delete_segment p w = (Inr (), w') \<and> wal_ready X k w'"
  using drain_quiet [OF assms] by blast

definition demo_name :: str where
  "demo_name = segment_name 1600000000000"

definition demo_bytes :: "u8 list" where
  "demo_bytes = encode_items demo_externals [demo_item ''one'', demo_item ''two'']"

lemma demo_bytes_facts:
  "length demo_bytes = 20" "whole demo_externals demo_bytes"
  "records_of demo_externals demo_bytes = [demo_item ''one'', demo_item ''two'']"
proof -
  show "length demo_bytes = 20"
    using demo_record_bytes [of "''one''"] demo_record_bytes [of "''two''"]
    by (simp add: demo_bytes_def record_bytes_def)
  show "whole demo_externals demo_bytes"
    unfolding whole_def demo_bytes_def using demo_items by blast
  show "records_of demo_externals demo_bytes = [demo_item ''one'', demo_item ''two'']"
    unfolding demo_bytes_def using demo_items by (rule records_of_encode)
qed

lemma demo_name_less: "i < 1000000 \<Longrightarrow> demo_name < segment_name (1700000000000 + i)"
  unfolding demo_name_def by (rule segment_name_less) simp_all

definition demo_used :: wal where
  "demo_used = demo_wal\<lparr>files := [(demo_name, demo_bytes)], total_bytes := 20\<rparr>"

lemma demo_used_fields [simp]:
  "os demo_used = []" "current_segment demo_used = None" "current_path demo_used = None"
  "files demo_used = [(demo_name, demo_bytes)]" "total_bytes demo_used = 20"
  "clock_ms demo_used = clock_ms demo_wal" "readings demo_used = 0"
  "wal_names [(demo_name, demo_bytes)] = [demo_name]" "is_wal_file demo_name"
  by (simp_all add: demo_used_def demo_wal_def current_path_def wal_names_def demo_name_def)

lemma demo_used_ready: "k < 1000000 \<Longrightarrow> wal_ready demo_externals k demo_used"
proof -
  assume k: "k < 1000000"
  have "clock_ok k demo_used"
    using k by (auto simp: clock_ok_def demo_wal_def demo_name_less intro!: segment_name_less)
  then show ?thesis
    by (auto simp: wal_ready_def wal_ok_def demo_bytes_facts split: if_splits)
qed

theorem drain_oldest_witness:
  "\<exists>w'. read_oldest_batch demo_externals 1 demo_used = (Inr (Some (demo_name, [demo_item ''one''])), demo_used) \<and>
     delete_segment demo_name demo_used = (Inr (), w') \<and> wal_log demo_externals w' = []"
proof -
  have p: "oldest_completed demo_used (wal_names (files demo_used)) = Some demo_name"
    by (simp add: oldest_completed_def)
  have l: "wal_log demo_externals demo_used = [demo_item ''one'', demo_item ''two'']"
    by (simp add: wal_log_def segment_log_def demo_bytes_facts)
  obtain vs w' where d: "wal_log demo_externals demo_used = vs @ wal_log demo_externals w'"
    "read_oldest_batch demo_externals 1 demo_used = (Inr (Some (demo_name, take 1 vs)), demo_used)"
    "delete_segment demo_name demo_used = (Inr (), w')"
    using drain_oldest [OF demo_used_ready [of 0] p, of 1] by auto
  have "delete_segment demo_name demo_used = (Inr (), drop_oldest demo_name demo_used)"
    using p by (intro delete_segment_quiet) simp_all
  then have "files w' = []" using d(3) by (auto simp: drop_oldest_def)
  then have w': "wal_log demo_externals w' = []" by (simp add: wal_log_def wal_names_def)
  with d(1) l have "vs = [demo_item ''one'', demo_item ''two'']" by simp
  with d(2,3) w' show ?thesis by simp
qed

text \<open>
  C22: A torn tail loses only the record it cuts: of a segment whose last write stopped anywhere, the
  reader returns exactly the records that are there as a whole.
\<close>

theorem torn_segment_reads_whole_records:
  assumes "\<forall>v\<in>set vs. storable X v"
  shows "read_records X n (take m (encode_items X vs)) = take n (take (whole_records X m vs) vs)"
  using assms by (rule read_records_torn)

theorem torn_segment_reads_whole_records_witness:
  "read_records demo_externals 100
     (take 15 (encode_items demo_externals [demo_item ''one'', demo_item ''two''])) = [demo_item ''one'']"
  using torn_segment_reads_whole_records [OF demo_items, of 100 15]
    demo_record_bytes [of "''one''"] demo_record_bytes [of "''two''"]
  by (simp add: record_bytes_def)

text \<open>
  C23: Whatever calls fail while a batch is written, a completed segment is left as it is or removed
  as a whole, and the segment being written is only appended to. (The names still to come from the
  clock are left out: a clock that repeats itself reopens a segment.)
\<close>

theorem write_batch_spares_segments:
  assumes "write_batch X vs w = (r, w')" and "n \<notin> coming_names w"
  shows "map_of (files w') n = map_of (files w) n \<or> map_of (files w') n = None \<or>
    current_path w = Some n \<and> (\<exists>t. map_of (files w') n = Some (unwrap_or [] (map_of (files w) n) @ t))"
  using kept_write_batch [OF assms(1)] assms(2) by (auto simp: kept_def file_kept_def)

theorem write_batch_spares_segments_witness:
  "\<exists>r w'. write_batch demo_externals [demo_item ''three''] (demo_used\<lparr>os := [Done, Fails 2]\<rparr>) = (r, w') \<and>
     map_of (files w') demo_name \<in>
       {None, Some demo_bytes}"
proof -
  let ?w = "demo_used\<lparr>os := [Done, Fails 2]\<rparr>"
  obtain r w' where w': "write_batch demo_externals [demo_item ''three''] ?w = (r, w')"
    by (cases "write_batch demo_externals [demo_item ''three''] ?w")
  have "demo_name \<noteq> segment_name (1700000000000 + i)" for i
    by (auto simp: demo_name_def segment_name_def dest!: arg_cong [where f = "digits_value 0"]
        simp: digits_value_show_nat)
  then have "demo_name \<notin> coming_names ?w"
    by (auto simp: coming_names_def demo_wal_def)
  from write_batch_spares_segments [OF w' this] w' show ?thesis
    by (auto simp: current_path_def)
qed

text \<open>
  Opening the buffer recovers it: the running total is recomputed from the disk, even where
  failed writes had left it wrong, nothing on disk changes, and every segment left over is pending.
\<close>

theorem wal_open_recovers:
  assumes "os w = []" and "distinct (map fst (files w))"
  shows "\<exists>w'. wal_open mx seg_mx w = (Inr (), w') \<and> files w' = files w \<and>
    total_bytes w' = disk_bytes (files w) \<and> wal_log X w' = wal_log X w \<and>
    has_pending w' = (wal_names (files w) \<noteq> [], w')"
  using wal_open_quiet [OF assms, of mx seg_mx] assms(1)
  by (auto simp: wal_log_def has_pending_quiet oldest_completed_def current_path_def find_None_iff)

theorem wal_open_recovers_witness:
  "\<exists>w'. wal_open 1000 100 (demo_used\<lparr>total_bytes := 7\<rparr>) = (Inr (), w') \<and> total_bytes w' = 20 \<and>
     has_pending w' = (True, w')"
  using wal_open_recovers [of "demo_used\<lparr>total_bytes := 7\<rparr>" 1000 100]
  by (auto simp: demo_bytes_facts)

text \<open>
  The segment being written is never drained: while it is the only one, nothing is pending and
  there is no batch to read, however much it holds.
\<close>

theorem current_segment_not_drained:
  assumes "os w = []" and "current_segment w = Some sg" and "wal_names (files w) = [seg_path sg]"
  shows "has_pending w = (False, w) \<and> read_oldest_batch X n w = (Inr None, w)"
  using assms by (simp_all add: has_pending_quiet read_oldest_batch_def io_simps oldest_completed_def current_path_def)

theorem current_segment_not_drained_witness:
  "\<exists>w'. write_batch demo_externals [demo_item ''one''] demo_wal = (Inr (), w') \<and>
     has_pending w' = (False, w') \<and> read_oldest_batch demo_externals 10 w' = (Inr None, w')"
  using current_segment_not_drained [of "snd (write_batch demo_externals [demo_item ''one''] demo_wal)"
      "\<lparr>seg_path = demo_new, seg_size = 10\<rparr>" demo_externals 10]
  by (simp add: demo_clean wal_names_def) (simp add: demo_wal_def)

text \<open>
  A record of more than 16 MiB is written but cannot be read, and hides the rest of its segment.
\<close>

theorem oversized_record_hides_rest:
  assumes "json_to_vec X v = Some p" and "16 * 1024 * 1024 < length p" and "length p < 2 ^ 32"
  shows "read_records X n (encode_item X v @ rest) = []"
proof -
  have u: "unat (of_nat (length p) :: u32) = length p" using assms(3) by (intro unat_of_nat_less) simp
  have "from_be (be_bytes 4 (length p)) = length p"
    using be32.get_put_whole [of "length p"] assms(3) by (simp add: get_be_def)
  then have "read_frame (encode_item X v @ rest) = Stop"
    using assms by (simp add: encode_item_def read_frame_def frame_def u Let_def)
  then show ?thesis by (simp add: read_records.simps)
qed

theorem oversized_record_hides_rest_witness:
  "read_records demo_externals 5
     (encode_item demo_externals (demo_item (replicate (16 * 1024 * 1024) (CHR ''a''))) @ demo_bytes) = []"
  by (rule oversized_record_hides_rest [where p = "as_bytes (CHR 0x22 # replicate (16 * 1024 * 1024) (CHR ''a'') @ [CHR 0x22])"])
    (simp_all add: demo_externals_def demo_to_vec_def demo_item_def)

subsection \<open>After a write that failed half-way\<close>

text \<open>Batches that need neither an eviction nor a new segment, from any state with a current segment.\<close>

lemma write_item_plain:
  assumes "os w = []" and "current_segment w = Some sg" and "json_to_vec X v = Some p"
    and "total_bytes w + record_bytes X v \<le> max_bytes w" and "seg_size sg + record_bytes X v \<le> segment_max_bytes w"
  shows "write_item X v w = (Inr (), with_record X v sg w)"
proof -
  have r: "record_bytes X v = 4 + length p + 1" by (simp add: record_bytes_def encode_item_def assms(3))
  have "evict_until (4 + length p + 1) w = (Inr (), w)" using assms(4) r by (simp add: evict_until.simps)
  moreover have "rotate_if_full (4 + length p + 1) w = (Inr (), w)" using assms(2,5) r by (simp add: rotate_if_full_def)
  ultimately show ?thesis
    using append_record_quiet [OF assms(1-3)] by (simp add: write_item_def assms(3) bind_io_def Let_def)
qed

lemma write_items_plain:
  assumes "os w = []" and "current_segment w = Some sg" and "map_of (files w) (seg_path sg) = Some bs"
    and "\<forall>v\<in>set vs. json_to_vec X v \<noteq> None"
    and "total_bytes w + (\<Sum>v\<leftarrow>vs. record_bytes X v) \<le> max_bytes w"
    and "seg_size sg + (\<Sum>v\<leftarrow>vs. record_bytes X v) \<le> segment_max_bytes w"
  shows "\<exists>w'. write_items X vs w = (Inr (), w') \<and> os w' = [] \<and> current_segment w' \<noteq> None \<and>
    wal_names (files w') = wal_names (files w) \<and>
    map_of (files w') = (map_of (files w))(seg_path sg \<mapsto> bs @ encode_items X vs)"
  using assms
proof (induction vs arbitrary: w sg bs)
  case Nil
  then show ?case by (simp add: return_io_def fun_upd_idem)
next
  case (Cons v vs)
  obtain p where p: "json_to_vec X v = Some p" using Cons.prems(4) by auto
  let ?w = "with_record X v sg w"
  let ?sg = "sg\<lparr>seg_size := seg_size sg + record_bytes X v\<rparr>"
  have i: "write_item X v w = (Inr (), ?w)"
    by (rule write_item_plain [OF Cons.prems(1,2) p]) (use Cons.prems(5,6) in simp_all)
  have m: "map_of (files ?w) = (map_of (files w))(seg_path sg \<mapsto> bs @ encode_item X v)"
    using Cons.prems(3) by (auto simp: with_record_def append_file_def map_of_update)
  have "seg_path sg \<in> fst ` set (files w)" using Cons.prems(3) by (metis map_of_eq_None_iff option.distinct(1))
  then have n: "wal_names (files ?w) = wal_names (files w)"
    by (simp add: with_record_def append_file_def wal_names_update_old)
  have "\<exists>w'. write_items X vs ?w = (Inr (), w') \<and> os w' = [] \<and> current_segment w' \<noteq> None \<and>
      wal_names (files w') = wal_names (files ?w) \<and>
      map_of (files w') = (map_of (files ?w))(seg_path ?sg \<mapsto> (bs @ encode_item X v) @ encode_items X vs)"
    by (rule Cons.IH)
      (use Cons.prems m in \<open>simp_all add: with_record_def record_bytes_def\<close>)
  then show ?case using i m n by (auto simp: bind_io_def)
qed

text \<open>A record of which only the beginning is there swallows what follows it.\<close>

lemma read_frame_swallows:
  assumes "record_fits p" and "m + length bs \<le> length p"
  shows "read_frame (be_bytes 4 (unat (of_nat (length p) :: u32)) @ take m p @ bs) = Stop"
proof -
  let ?h = "be_bytes 4 (unat (of_nat (length p) :: u32))"
  have h: "from_be ?h = length p"
    using be32.get_put_whole [of "length p"] assms(1) by (simp add: get_be_def unat_u32_length record_fits_def)
  show ?thesis
    using h assms by (simp add: read_frame_def record_fits_def Let_def)
qed

lemma torn_records:
  assumes "whole X bs" and "record_fits p" and "m + length cs \<le> length p"
  shows "records_of X (bs @ be_bytes 4 (unat (of_nat (length p) :: u32)) @ take m p @ cs) = records_of X bs"
proof -
  let ?t = "be_bytes 4 (unat (of_nat (length p) :: u32)) @ take m p @ cs"
  obtain us where us: "\<forall>v\<in>set us. storable X v" "bs = encode_items X us" using assms(1) by (auto simp: whole_def)
  have "read_records X n ?t = []" for n
    using read_frame_swallows [OF assms(2,3)] by (simp add: read_records.simps [of X n])
  then have "read_records X (length (bs @ ?t)) (bs @ ?t) = take (length (bs @ ?t)) us"
    using read_records_encode [OF us(1), of "length (bs @ ?t)" ?t] us(2) by simp
  moreover have "length us \<le> length (bs @ ?t)" using length_encode_items [of us X] us(2) by simp
  ultimately show ?thesis using records_of_encode [OF us(1)] by (simp add: records_of_def us(2))
qed

text \<open>
  C40: After a write that failed half-way, the next batch goes into the same segment behind the torn record: it is
  reported as written, and cannot be read back. This is for any buffer with a current segment that has room for
  both, when the disk takes the first \<open>m\<close> bytes of a payload and then fails once, and the next batch takes no more
  bytes than are missing from that payload: what can be read is then what could be read before both.
\<close>

theorem torn_write_swallows_next_record:
  assumes "wal_ready X k w" and "current_segment w = Some sg"
    and "json_to_vec X torn = Some p" and "record_fits p" and "\<forall>v\<in>set vs. storable X v" and "vs \<noteq> []"
    and "total_bytes w + record_bytes X torn \<le> max_bytes w" and "seg_size sg + record_bytes X torn \<le> segment_max_bytes w"
    and "m + (\<Sum>v\<leftarrow>vs. record_bytes X v) \<le> length p"
  shows "\<exists>w1 w2. write_batch X (torn # rest) (w\<lparr>os := [Done, Fails m]\<rparr>) = (Inl OsError, w1) \<and>
    write_batch X vs w1 = (Inr (), w2) \<and> wal_log X w2 = wal_log X w"
proof -
  have ok: "wal_ok X w" and os: "os w = []" using assms(1) by (simp_all add: wal_ready_def)
  obtain bs where bs: "map_of (files w) (seg_path sg) = Some bs" "whole X bs" "seg_path sg \<in> fst ` set (files w)"
    using current_file [OF ok assms(2)] by metis
  have r: "record_bytes X torn = 4 + length p + 1" by (simp add: record_bytes_def encode_item_def assms(3))
  let ?h = "be_bytes 4 (unat (of_nat (length p) :: u32))"
  let ?w1 = "w\<lparr>files := append_file (seg_path sg) (?h @ take m p) (files w)\<rparr>"
  have "evict_until (4 + length p + 1) (w\<lparr>os := [Done, Fails m]\<rparr>) = (Inr (), w\<lparr>os := [Done, Fails m]\<rparr>)"
    using assms(7) r by (simp add: evict_until.simps)
  moreover have "rotate_if_full (4 + length p + 1) (w\<lparr>os := [Done, Fails m]\<rparr>) = (Inr (), w\<lparr>os := [Done, Fails m]\<rparr>)"
    using assms(2,8) r by (simp add: rotate_if_full_def)
  moreover have "append_record p (4 + length p + 1) (w\<lparr>os := [Done, Fails m]\<rparr>) = (Inl OsError, ?w1)"
    using os by (simp add: append_record_def assms(2) bind_io_def fs_write_all_def os_call_def append_file_append)
  ultimately have first: "write_batch X (torn # rest) (w\<lparr>os := [Done, Fails m]\<rparr>) = (Inl OsError, ?w1)"
    by (simp add: write_batch_def write_item_def assms(3) bind_io_def Let_def)
  have m1: "map_of (files ?w1) = (map_of (files w))(seg_path sg \<mapsto> bs @ ?h @ take m p)"
    using bs(1) by (auto simp: append_file_def map_of_update)
  have n1: "wal_names (files ?w1) = wal_names (files w)"
    using bs(3) by (simp add: append_file_def wal_names_update_old)
  have "\<exists>w2. write_items X vs ?w1 = (Inr (), w2) \<and> os w2 = [] \<and> current_segment w2 \<noteq> None \<and>
      wal_names (files w2) = wal_names (files ?w1) \<and>
      map_of (files w2) = (map_of (files ?w1))(seg_path sg \<mapsto> (bs @ ?h @ take m p) @ encode_items X vs)"
    by (rule write_items_plain)
      (use os m1 assms(2,5-9) r in \<open>auto simp: storable_def split: option.splits\<close>)
  then obtain w2 where w2: "write_items X vs ?w1 = (Inr (), w2)" "os w2 = []" "current_segment w2 \<noteq> None"
    "wal_names (files w2) = wal_names (files w)"
    "map_of (files w2) = (map_of (files w))(seg_path sg \<mapsto> bs @ ?h @ take m p @ encode_items X vs)"
    using n1 m1 by auto
  have second: "write_batch X vs ?w1 = (Inr (), w2)"
    using assms(6) w2(1-3) by (auto simp: write_batch_def bind_io_def io_simps)
  have "length (encode_items X vs) = (\<Sum>v\<leftarrow>vs. record_bytes X v)"
    by (induction vs) (simp_all add: record_bytes_def)
  then have "records_of X (bs @ ?h @ take m p @ encode_items X vs) = records_of X bs"
    using torn_records [OF bs(2) assms(4), of m "encode_items X vs"] assms(9) by simp
  then have "segment_log X (files w2) n = segment_log X (files w) n" for n
    using bs(1) by (simp add: segment_log_def w2(5))
  then have "segment_log X (files w2) = segment_log X (files w)" by blast
  then have "wal_log X w2 = wal_log X w" by (simp only: wal_log_def w2(4))
  with first second show ?thesis by blast
qed

theorem torn_write_swallows_next_record_witness:
  "\<exists>w w1 w2. write_batch demo_externals [demo_item ''one''] demo_wal = (Inr (), w) \<and>
     write_batch demo_externals [demo_item ''twelve chars''] (w\<lparr>os := [Done, Fails 2]\<rparr>) = (Inl OsError, w1) \<and>
     write_batch demo_externals [demo_item ''two''] w1 = (Inr (), w2) \<and> wal_log demo_externals w2 = [demo_item ''one'']"
proof -
  have r: "wal_ready demo_externals (length [demo_item ''one''] + 0) demo_wal" by (simp add: demo_ready)
  have one: "\<forall>v\<in>set [demo_item ''one'']. storable demo_externals v" by (simp add: demo_storable)
  have fits: "total_bytes demo_wal + (\<Sum>v\<leftarrow>[demo_item ''one'']. record_bytes demo_externals v) \<le> max_bytes demo_wal"
    by (simp add: demo_record_bytes) (simp add: demo_wal_def)
  let ?w = "snd (write_batch demo_externals [demo_item ''one''] demo_wal)"
  obtain w where w: "write_batch demo_externals [demo_item ''one''] demo_wal = (Inr (), w)"
    "wal_ready demo_externals 0 w" "wal_log demo_externals w = [demo_item ''one'']"
    using write_batch_quiet [OF r one] fits by (metis demo_log append_Nil)
  have f: "current_segment w = Some \<lparr>seg_path = demo_new, seg_size = 10\<rparr>" "total_bytes w = 10"
    "max_bytes w = 100" "segment_max_bytes w = 40"
    using w(1) by (auto simp: demo_clean) (simp_all add: demo_wal_def)
  have v: "json_to_vec demo_externals (demo_item ''twelve chars'') =
      Some (as_bytes (CHR 0x22 # ''twelve chars'' @ [CHR 0x22]))"
    by (simp add: demo_externals_def demo_to_vec_def demo_item_def)
  have two: "\<forall>v\<in>set [demo_item ''two'']. storable demo_externals v" by (simp add: demo_storable)
  obtain w1 w2 where "write_batch demo_externals (demo_item ''twelve chars'' # []) (w\<lparr>os := [Done, Fails 2]\<rparr>) = (Inl OsError, w1)"
    "write_batch demo_externals [demo_item ''two''] w1 = (Inr (), w2)" "wal_log demo_externals w2 = wal_log demo_externals w"
    using torn_write_swallows_next_record [OF w(2) f(1) v _ two, of 2 "[]"]
    by (auto simp: f demo_record_bytes record_fits_def)
  with w(1,3) show ?thesis by auto
qed

end
