(* ===== verification/Delivery.thy ===== *)
theory Delivery
  imports Wal Grpc_Clients Config
begin

text \<open>
  The delivery half of \<open>src/src/collector.rs\<close>: the task that batches the rows of the workers, sends
  them to the monitoring service, keeps what could not be sent on disk (\<open>Wal\<close>) and drains it later.

  A result of \<^const>\<open>None\<close> stands for the panic on a token the interceptor refuses, which ends the task.
  Whether the service accepts a request is an argument, one for each of the two requests of a flush.
\<close>

subsection \<open>Sending\<close>

type_synonym service = "ingest_point list \<Rightarrow> bool"

definition send_batch ::
  "externals \<Rightarrow> grpc_toolkit \<Rightarrow> api_settings \<Rightarrow> service \<Rightarrow> json list \<Rightarrow> bool option" where
  "send_batch X G cfg accepts batch =
     (case auth_channel G (grpc_target cfg) (unwrap_or [] (api_token cfg)) of
        Channel_error \<Rightarrow> Some False
      | Channel_panic \<Rightarrow> None
      | Channel _ _ \<Rightarrow> Some (accepts (map (value_to_ingest_point X) batch)))"

text \<open>
  After a successful send: one turn of draining. The result is the batch that was drained, if one
  was, and the buffer.
\<close>

definition drain_one ::
  "externals \<Rightarrow> grpc_toolkit \<Rightarrow> api_settings \<Rightarrow> service \<Rightarrow> nat \<Rightarrow> wal \<Rightarrow> (json list list \<times> wal) option" where
  "drain_one X G cfg accepts drain_max w =
     (let (pending, w1) = has_pending w in
      if \<not> pending then Some ([], w1)
      else case read_oldest_batch X drain_max w1 of
        (Inr (Some (path, items)), w2) \<Rightarrow>
          if items \<noteq> [] then
            (case send_batch X G cfg accepts items of
               None \<Rightarrow> None
             | Some drain_ok \<Rightarrow>
                 if drain_ok then Some ([items], snd (delete_segment path w2)) else Some ([], w2))
          else Some ([], snd (delete_segment path w2))
      | (Inr None, w2) \<Rightarrow> Some ([], w2)
      | (Inl e, w2) \<Rightarrow> Some ([], w2))"

text \<open>
  The whole flush: the batches the service has accepted, in order, and the buffer. The batch in memory
  is cleared in every case.
\<close>

definition flush_batch ::
  "externals \<Rightarrow> grpc_toolkit \<Rightarrow> api_settings \<Rightarrow> service \<Rightarrow> service \<Rightarrow> json list \<Rightarrow> nat \<Rightarrow> wal
   \<Rightarrow> (json list list \<times> wal) option" where
  "flush_batch X G cfg accepts accepts_drain batch drain_max w =
     (case send_batch X G cfg accepts batch of
        None \<Rightarrow> None
      | Some ok \<Rightarrow>
          if ok then
            (case drain_one X G cfg accepts_drain drain_max w of
               None \<Rightarrow> None
             | Some (drained, w') \<Rightarrow> Some (batch # drained, w'))
          else Some ([], snd (write_batch X batch w)))"

subsection \<open>The ingest loop\<close>

text \<open>
  The loop turns on a row received, on its deadline, and ends when the channel is closed. Beside the
  rows in memory and the deadline the state holds the disk buffer (\<^const>\<open>None\<close> when it could not be
  opened), and as a history the batches the service has accepted.
\<close>

datatype ingest_event = Received json | Deadline | Closed

record ingest =
  buf :: "json list"
  deadline :: f64
  disk :: "wal option"
  accepted :: "json list list"
  running :: bool

text \<open>What one turn meets: the answers of the service and the clock after a flush.\<close>

record ingest_env =
  ie_accepts :: service
  ie_accepts_drain :: service
  ie_now :: f64

definition ingest_flush ::
  "externals \<Rightarrow> grpc_toolkit \<Rightarrow> api_settings \<Rightarrow> nat \<Rightarrow> ingest_env \<Rightarrow> ingest \<Rightarrow> ingest option" where
  "ingest_flush X G cfg batch_size e s =
     (case disk s of
        Some w \<Rightarrow>
          (case flush_batch X G cfg (ie_accepts e) (ie_accepts_drain e) (buf s) batch_size w of
             None \<Rightarrow> None
           | Some (sent, w') \<Rightarrow> Some (s\<lparr>buf := [], disk := Some w', accepted := accepted s @ sent\<rparr>))
      | None \<Rightarrow>
          (case send_batch X G cfg (ie_accepts e) (buf s) of
             None \<Rightarrow> None
           | Some ok \<Rightarrow> Some (s\<lparr>buf := [], accepted := accepted s @ (if ok then [buf s] else [])\<rparr>)))"

definition ingest_turn ::
  "externals \<Rightarrow> grpc_toolkit \<Rightarrow> api_settings \<Rightarrow> nat \<Rightarrow> f64 \<Rightarrow> ingest_env \<Rightarrow> ingest_event \<Rightarrow> ingest \<Rightarrow> ingest option" where
  "ingest_turn X G cfg batch_size flush_interval e ev s =
     (case ev of
        Received payload \<Rightarrow>
          (let s1 = s\<lparr>buf := buf s @ [payload]\<rparr> in
           if batch_size \<le> length (buf s1) then
             map_option (\<lambda>s2. s2\<lparr>deadline := ie_now e + flush_interval\<rparr>) (ingest_flush X G cfg batch_size e s1)
           else Some s1)
      | Deadline \<Rightarrow>
          map_option (\<lambda>s2. s2\<lparr>deadline := ie_now e + flush_interval\<rparr>)
            (if buf s \<noteq> [] then ingest_flush X G cfg batch_size e s else Some s)
      | Closed \<Rightarrow> Some (s\<lparr>running := False\<rparr>))"

text \<open>Any turns in a row, until the loop ends.\<close>

fun ingest_turns ::
  "externals \<Rightarrow> grpc_toolkit \<Rightarrow> api_settings \<Rightarrow> nat \<Rightarrow> f64 \<Rightarrow> (ingest_env \<times> ingest_event) list \<Rightarrow> ingest
   \<Rightarrow> ingest option" where
  "ingest_turns X G cfg batch_size flush_interval [] s = Some s"
| "ingest_turns X G cfg batch_size flush_interval ((e, ev) # evs) s =
     (if \<not> running s then Some s
      else case ingest_turn X G cfg batch_size flush_interval e ev s of
        None \<Rightarrow> None
      | Some s' \<Rightarrow> ingest_turns X G cfg batch_size flush_interval evs s')"

text \<open>
  The start of the loop: the buffer is opened, and done without when that fails. An interval that is no
  \<open>Duration\<close> is a panic before that, and the task never runs.
\<close>

definition ingest_start :: "collector_settings \<Rightarrow> wal \<Rightarrow> f64 \<Rightarrow> ingest" where
  "ingest_start C w now =
     \<lparr>buf = [], deadline = now + ingest_flush_seconds C,
      disk = (case wal_open (unat (buffer_max_bytes C)) (unat (buffer_segment_max_bytes C)) w of
          (Inr _, w') \<Rightarrow> Some w'
        | (Inl _, _) \<Rightarrow> None),
      accepted = [], running = (duration_from_secs (ingest_flush_seconds C) \<noteq> None)\<rparr>"

lemma ingest_turns_append:
  "ingest_turns X G cfg n fi (evs @ [(e, ev)]) s =
     (case ingest_turns X G cfg n fi evs s of
        None \<Rightarrow> None
      | Some s' \<Rightarrow> if running s' then ingest_turn X G cfg n fi e ev s' else Some s')"
  by (induction evs arbitrary: s) (auto split: option.splits if_splits)

lemma ingest_flush_running: "ingest_flush X G cfg n e s = Some s' \<Longrightarrow> running s' = running s \<and> buf s' = []"
  by (auto simp: ingest_flush_def split: option.splits prod.splits)

lemma ingest_turn_running:
  "ingest_turn X G cfg n fi e ev s = Some s' \<Longrightarrow> ev \<noteq> Closed \<Longrightarrow> running s' = running s"
  by (cases ev) (auto simp: ingest_turn_def Let_def dest: ingest_flush_running split: if_splits)

lemma ingest_turn_buf:
  "ingest_turn X G cfg n fi e ev s = Some s' \<Longrightarrow> length (buf s) < max 1 n \<Longrightarrow> length (buf s') < max 1 n"
  by (cases ev) (auto simp: ingest_turn_def Let_def dest: ingest_flush_running split: if_splits)

definition received :: "(ingest_env \<times> ingest_event) list \<Rightarrow> json list" where
  "received evs = List.map_filter (\<lambda>(e, ev). case ev of Received v \<Rightarrow> Some v | _ \<Rightarrow> None) evs"

subsection \<open>Flushing\<close>

lemma send_batch_outcome:
  "send_batch X G cfg accepts batch = Some ok \<Longrightarrow> ok \<Longrightarrow> accepts (map (value_to_ingest_point X) batch)"
  by (auto simp: send_batch_def split: channel_result.splits)

lemma send_batch_open:
  assumes "auth_channel G (grpc_target cfg) (unwrap_or [] (api_token cfg)) = Channel tg tk"
  shows "send_batch X G cfg accepts batch = Some (accepts (map (value_to_ingest_point X) batch))"
  using assms by (simp add: send_batch_def)

text \<open>
  The buffer whose log is given up to the oldest segment: what a drain of a healthy disk does.
\<close>

lemma drain_one_quiet:
  assumes ready: "wal_ready X k w" and p: "oldest_completed w (wal_names (files w)) = Some p"
    and open': "auth_channel G (grpc_target cfg) (unwrap_or [] (api_token cfg)) = Channel tg tk"
  shows "drain_one X G cfg accepts n w =
       (let vs = take n (segment_log X (files w) p) in
        if vs = [] then Some ([], drop_oldest p w)
        else if accepts (map (value_to_ingest_point X) vs) then Some ([vs], drop_oldest p w)
        else Some ([], w))"
proof -
  have "has_pending w = (True, w)"
    using has_pending_quiet [of w] ready p by (simp add: wal_ready_def)
  with drain_quiet [OF ready p] show ?thesis
    by (simp add: drain_one_def send_batch_open [OF open'] Let_def)
qed

lemma drain_one_idle:
  assumes "wal_ready X k w" and "oldest_completed w (wal_names (files w)) = None"
  shows "drain_one X G cfg accepts n w = Some ([], w)"
  using has_pending_quiet [of w] assms by (simp add: drain_one_def wal_ready_def)

subsection \<open>Batches\<close>

text \<open>
  The rows in memory never reach a full batch, whatever the service and the disk do.
\<close>

theorem ingest_memory_bounded:
  assumes "ingest_turns X G cfg batch_size fi evs s = Some s'" and "length (buf s) < max 1 batch_size"
  shows "length (buf s') < max 1 batch_size"
  using assms
proof (induction evs arbitrary: s)
  case (Cons x evs)
  obtain e ev where x: "x = (e, ev)" by (cases x)
  from Cons ingest_turn_buf [of X G cfg batch_size fi e ev s] show ?case
    by (auto simp: x split: if_splits option.splits)
qed simp

subsection \<open>What becomes of the rows\<close>

lemma drain_one_conserves:
  assumes ready: "wal_ready X k w"
    and open': "auth_channel G (grpc_target cfg) (unwrap_or [] (api_token cfg)) = Channel tg tk"
    and fits: "\<And>p. oldest_completed w (wal_names (files w)) = Some p \<Longrightarrow>
      length (segment_log X (files w) p) \<le> n"
    and d: "drain_one X G cfg accepts n w = Some (sent, w')"
  shows "mset (concat sent) + mset (wal_log X w') = mset (wal_log X w)"
proof (cases "oldest_completed w (wal_names (files w))")
  case None
  then show ?thesis using d drain_one_idle [OF ready] by simp
next
  case (Some p)
  have "take n (segment_log X (files w) p) = segment_log X (files w) p" using fits [OF Some] by simp
  with d drain_one_quiet [OF ready Some open', of accepts n] drain_quiet(1) [OF ready Some] show ?thesis
    by (auto simp: Let_def split: if_splits)
qed

text \<open>
  C20: Nothing is lost and nothing is invented in a flush, as long as the disk works, the rows can be stored, the
  buffer has room for them, the oldest completed segment holds no more rows than one batch, and the token is
  accepted: what has been accepted and what is on disk afterwards is what was in memory and on disk before.
\<close>

theorem flush_conserves_rows:
  assumes "wal_ready X (length batch) w" and "\<forall>v\<in>set batch. storable X v"
    and "auth_channel G (grpc_target cfg) (unwrap_or [] (api_token cfg)) = Channel tg tk"
    and "total_bytes w + (\<Sum>v\<leftarrow>batch. record_bytes X v) \<le> max_bytes w"
    and "\<And>p. oldest_completed w (wal_names (files w)) = Some p \<Longrightarrow> length (segment_log X (files w) p) \<le> n"
    and "flush_batch X G cfg accepts accepts_drain batch n w = Some (sent, w')"
  shows "mset (concat sent) + mset (wal_log X w') = mset batch + mset (wal_log X w)"
proof (cases "accepts (map (value_to_ingest_point X) batch)")
  case True
  then obtain drained where d: "drain_one X G cfg accepts_drain n w = Some (drained, w')" "sent = batch # drained"
    using assms(6) by (auto simp: flush_batch_def send_batch_open [OF assms(3)] split: option.splits)
  show ?thesis
    using drain_one_conserves [OF assms(1,3,5) d(1)] d(2) by simp
next
  case False
  have "wal_ready X (length batch + 0) w" using assms(1) by simp
  from write_batch_quiet [OF this assms(2)] assms(4) obtain w1 where
    "write_batch X batch w = (Inr (), w1)" "wal_log X w1 = wal_log X w @ batch" by auto
  with assms(6) False show ?thesis
    by (auto simp: flush_batch_def send_batch_open [OF assms(3)])
qed

text \<open>
  C38: A longer segment is cut: only its first \<open>n\<close> rows are sent before the whole segment is deleted,
  the rest is neither on disk nor with the service.
\<close>

theorem flush_drops_rest_of_segment:
  assumes "wal_ready X k w" and "oldest_completed w (wal_names (files w)) = Some p"
    and "auth_channel G (grpc_target cfg) (unwrap_or [] (api_token cfg)) = Channel tg tk"
    and "0 < n" and "n < length (segment_log X (files w) p)"
    and "\<And>ps. accepts ps" and "\<And>ps. accepts_drain ps"
  shows "\<exists>w'. flush_batch X G cfg accepts accepts_drain batch n w =
      Some ([batch, take n (segment_log X (files w) p)], w') \<and>
    wal_log X w = take n (segment_log X (files w) p) @ drop n (segment_log X (files w) p) @ wal_log X w'"
proof -
  have "take n (segment_log X (files w) p) \<noteq> []" using assms(4,5) by auto
  then have "drain_one X G cfg accepts_drain n w = Some ([take n (segment_log X (files w) p)], drop_oldest p w)"
    using drain_one_quiet [OF assms(1-3), of accepts_drain n] assms(7) by (simp add: Let_def)
  then have "flush_batch X G cfg accepts accepts_drain batch n w =
      Some ([batch, take n (segment_log X (files w) p)], drop_oldest p w)"
    using assms(6) by (simp add: flush_batch_def send_batch_open [OF assms(3)])
  with drain_quiet(1) [OF assms(1,2)] show ?thesis
    by (metis append.assoc append_take_drop_id)
qed

text \<open>
  A segment that has been sent and cannot be deleted is sent again: the result of the deletion is only logged, so
  that the buffer is as before, and the next flush sends the same rows. Here the disk lists and reads the segment
  and fails once, when the file is removed.
\<close>

theorem undeletable_segment_is_resent:
  assumes "wal_ready X k w" and "oldest_completed w (wal_names (files w)) = Some p"
    and "auth_channel G (grpc_target cfg) (unwrap_or [] (api_token cfg)) = Channel tg tk"
    and "0 < n" and "segment_log X (files w) p \<noteq> []"
    and "\<And>ps. accepts ps" and "\<And>ps. accepts_drain ps"
  shows "\<exists>w1 w2. flush_batch X G cfg accepts accepts_drain b1 n (w\<lparr>os := [Done, Done, Done, Done, Fails m]\<rparr>) =
      Some ([b1, take n (segment_log X (files w) p)], w1) \<and>
    flush_batch X G cfg accepts accepts_drain b2 n w1 = Some ([b2, take n (segment_log X (files w) p)], w2)"
proof -
  have os: "os w = []" and ok: "wal_ok X w" using assms(1) by (simp_all add: wal_ready_def)
  let ?w = "w\<lparr>os := [Done, Done, Done, Done, Fails m]\<rparr>"
  let ?items = "take n (segment_log X (files w) p)"
  have items: "?items \<noteq> []" using assms(4,5) by simp
  have first: "oldest_completed (w\<lparr>os := r\<rparr>) (wal_names (files w)) = Some p" for r
    using assms(2) by (simp add: oldest_completed_def current_path_def)
  have "p \<in> fst ` set (files w)" "is_wal_file p"
    using oldest_completed_Some(1,2) [OF assms(2)] by (simp_all add: in_wal_names)
  then obtain bs where "map_of (files w) p = Some bs" by (cases "map_of (files w) p") (auto simp: map_of_eq_None_iff)
  then have bs: "map_of (files w) p = Some bs" "whole X bs" using ok \<open>is_wal_file p\<close> by (simp_all add: wal_ok_def)
  have log: "read_records X n bs = ?items"
    using read_records_whole [OF bs(2)] by (simp add: segment_log_def bs(1))
  have p: "has_pending ?w = (True, w\<lparr>os := [Done, Done, Done, Fails m]\<rparr>)"
    by (simp add: has_pending_def sorted_segments_def os_call_def first)
  have r: "read_oldest_batch X n (w\<lparr>os := [Done, Done, Done, Fails m]\<rparr>) = (Inr (Some (p, ?items)), w\<lparr>os := [Done, Fails m]\<rparr>)"
    by (simp add: read_oldest_batch_def sorted_segments_def bind_io_def os_call_def first read_segment_def bs(1) log
        return_io_def)
  have d: "snd (delete_segment p (w\<lparr>os := [Done, Fails m]\<rparr>)) = w"
    using os by (simp add: delete_segment_def metadata_or_0_def fs_metadata_len_def fs_remove_file_def bind_io_def os_call_def bs(1))
  have "drain_one X G cfg accepts_drain n ?w = Some ([?items], w)"
    using items assms(7) by (simp add: drain_one_def p r send_batch_open [OF assms(3)] d)
  then have f1: "flush_batch X G cfg accepts accepts_drain b1 n ?w = Some ([b1, ?items], w)"
    using assms(6) by (simp add: flush_batch_def send_batch_open [OF assms(3)])
  have "drain_one X G cfg accepts_drain n w = Some ([?items], drop_oldest p w)"
    using drain_one_quiet [OF assms(1-3), of accepts_drain n] assms(7) items by (simp add: Let_def)
  then have "flush_batch X G cfg accepts accepts_drain b2 n w = Some ([b2, ?items], drop_oldest p w)"
    using assms(6) by (simp add: flush_batch_def send_batch_open [OF assms(3)])
  with f1 show ?thesis by blast
qed

definition demo_api :: api_settings where
  "demo_api = \<lparr>grpc_target = ''http://monitoring'', api_token = None\<rparr>"

lemma demo_used_oldest:
  "oldest_completed demo_used [demo_name] = Some demo_name"
  "segment_log demo_externals [(demo_name, demo_bytes)] demo_name = [demo_item ''one'', demo_item ''two'']"
  "wal_log demo_externals demo_used = [demo_item ''one'', demo_item ''two'']"
  by (auto simp: oldest_completed_def segment_log_def wal_log_def demo_bytes_facts)

theorem flush_conserves_rows_witness:
  "\<exists>sent w'. flush_batch demo_externals demo_toolkit demo_api (\<lambda>_. True) (\<lambda>_. True) [demo_item ''new''] 2 demo_used = Some (sent, w') \<and>
     mset (concat sent) + mset (wal_log demo_externals w') =
       {#demo_item ''new'', demo_item ''one'', demo_item ''two''#}"
proof -
  have p: "oldest_completed demo_used (wal_names (files demo_used)) = Some demo_name" by (simp add: demo_used_oldest)
  note c = demo_channel [of "grpc_target demo_api" "unwrap_or [] (api_token demo_api)"]
  obtain sent w' where f: "flush_batch demo_externals demo_toolkit demo_api (\<lambda>_. True) (\<lambda>_. True) [demo_item ''new''] 2 demo_used
      = Some (sent, w')"
    using drain_one_quiet [OF demo_used_ready [of 0] p c, of "\<lambda>_. True" 2]
    by (simp add: flush_batch_def send_batch_open [OF c] demo_used_oldest)
  have "\<forall>v\<in>set [demo_item ''new'']. storable demo_externals v" by (simp add: demo_storable)
  moreover have "total_bytes demo_used + (\<Sum>v\<leftarrow>[demo_item ''new'']. record_bytes demo_externals v) \<le> max_bytes demo_used"
    using demo_record_bytes [of "''new''"] by (simp add: demo_used_def demo_wal_def record_bytes_def)
  ultimately have "mset (concat sent) + mset (wal_log demo_externals w') =
      mset [demo_item ''new''] + mset (wal_log demo_externals demo_used)"
    using flush_conserves_rows [OF _ _ c _ _ f] demo_used_ready [of 1] by (simp add: demo_used_oldest)
  with f show ?thesis by (auto simp: demo_used_oldest)
qed

theorem undeletable_segment_is_resent_witness:
  "\<exists>w1 w2. flush_batch demo_externals demo_toolkit demo_api (\<lambda>_. True) (\<lambda>_. True) [demo_item ''new''] 5
       (demo_used\<lparr>os := [Done, Done, Done, Done, Fails 0]\<rparr>) =
       Some ([[demo_item ''new''], [demo_item ''one'', demo_item ''two'']], w1) \<and>
     flush_batch demo_externals demo_toolkit demo_api (\<lambda>_. True) (\<lambda>_. True) [demo_item ''next''] 5 w1 =
       Some ([[demo_item ''next''], [demo_item ''one'', demo_item ''two'']], w2)"
proof -
  have p: "oldest_completed demo_used (wal_names (files demo_used)) = Some demo_name" by (simp add: demo_used_oldest)
  note c = demo_channel [of "grpc_target demo_api" "unwrap_or [] (api_token demo_api)"]
  show ?thesis
    using undeletable_segment_is_resent [OF demo_used_ready [of 0] p c, of 5 "\<lambda>_. True" "\<lambda>_. True" "[demo_item ''new'']" 0
        "[demo_item ''next'']"]
    by (simp add: demo_used_oldest)
qed

theorem flush_drops_rest_of_segment_witness:
  "\<exists>w'. flush_batch demo_externals demo_toolkit demo_api (\<lambda>_. True) (\<lambda>_. True) [] 1 demo_used =
      Some ([[], [demo_item ''one'']], w') \<and>
    wal_log demo_externals demo_used = demo_item ''one'' # demo_item ''two'' # wal_log demo_externals w'"
  using flush_drops_rest_of_segment [OF demo_used_ready [of 0] _
      demo_channel [of "grpc_target demo_api" "unwrap_or [] (api_token demo_api)"], of demo_name 1 "\<lambda>_. True" "\<lambda>_. True" "[]"]
  by (simp add: demo_used_oldest)

subsection \<open>Whole runs\<close>

lemma wal_ready_mono: "wal_ready X k w \<Longrightarrow> l \<le> k \<Longrightarrow> wal_ready X l w"
  by (auto simp: wal_ready_def intro: clock_ok_mono)

text \<open>One drain sends and deletes rows of the log, each at most once.\<close>

lemma drain_one_at_most:
  assumes ready: "wal_ready X k w"
    and open': "auth_channel G (grpc_target cfg) (unwrap_or [] (api_token cfg)) = Channel tg tk"
    and d: "drain_one X G cfg accepts n w = Some (sent, w')"
  shows "wal_ready X k w' \<and> mset (concat sent) + mset (wal_log X w') \<subseteq># mset (wal_log X w)"
proof (cases "oldest_completed w (wal_names (files w))")
  case None
  then show ?thesis using ready d drain_one_idle [OF ready] by simp
next
  case (Some p)
  have "mset (take n (segment_log X (files w) p)) \<subseteq># mset (segment_log X (files w) p)"
    by (metis append_take_drop_id mset_append mset_subset_eq_add_left)
  with ready d drain_one_quiet [OF ready Some open', of accepts n] drain_quiet(1,4) [OF ready Some] show ?thesis
    by (auto simp: Let_def split: if_splits)
qed

definition ledger :: "externals \<Rightarrow> ingest \<Rightarrow> json multiset" where
  "ledger X s = mset (concat (accepted s)) + mset (buf s) +
     (case disk s of Some w \<Rightarrow> mset (wal_log X w) | None \<Rightarrow> {#})"

definition ingest_ready :: "externals \<Rightarrow> nat \<Rightarrow> ingest \<Rightarrow> bool" where
  "ingest_ready X k s \<longleftrightarrow> (\<forall>v\<in>set (buf s). storable X v) \<and>
     (case disk s of Some w \<Rightarrow> wal_ready X (length (buf s) + k) w | None \<Rightarrow> True)"

lemma deadline_frame [simp]:
  "ingest_ready X k (s\<lparr>deadline := d\<rparr>) = ingest_ready X k s" "ledger X (s\<lparr>deadline := d\<rparr>) = ledger X s"
  "ingest_ready X k (s\<lparr>running := b\<rparr>) = ingest_ready X k s" "ledger X (s\<lparr>running := b\<rparr>) = ledger X s"
  by (simp_all add: ingest_ready_def ledger_def split: option.split)

lemma ingest_flush_ledger:
  assumes ready: "ingest_ready X k s"
    and open': "auth_channel G (grpc_target cfg) (unwrap_or [] (api_token cfg)) = Channel tg tk"
    and f: "ingest_flush X G cfg n e s = Some s'"
  shows "ingest_ready X k s' \<and> ledger X s' \<subseteq># ledger X s \<and> buf s' = [] \<and> running s' = running s"
proof (cases "disk s")
  case None
  then show ?thesis using f ready
    by (auto simp: ingest_flush_def ingest_ready_def ledger_def split: option.splits)
next
  case (Some w)
  have r: "wal_ready X (length (buf s) + k) w" and st: "\<forall>v\<in>set (buf s). storable X v"
    using ready Some by (simp_all add: ingest_ready_def)
  obtain sent w' where fl: "flush_batch X G cfg (ie_accepts e) (ie_accepts_drain e) (buf s) n w = Some (sent, w')"
    and s': "s' = s\<lparr>buf := [], disk := Some w', accepted := accepted s @ sent\<rparr>"
    using f Some by (auto simp: ingest_flush_def split: option.splits)
  have "wal_ready X k w' \<and> mset (concat sent) + mset (wal_log X w') \<subseteq># mset (buf s) + mset (wal_log X w)"
  proof (cases "ie_accepts e (map (value_to_ingest_point X) (buf s))")
    case True
    then obtain drained where d: "drain_one X G cfg (ie_accepts_drain e) n w = Some (drained, w')" "sent = buf s # drained"
      using fl by (auto simp: flush_batch_def send_batch_open [OF open'] split: option.splits)
    have "wal_ready X k w" using r wal_ready_mono by fastforce
    from drain_one_at_most [OF this open' d(1)] d(2) show ?thesis
      by (simp add: ac_simps)
  next
    case False
    obtain w1 where w1: "write_batch X (buf s) w = (Inr (), w1)" "wal_ready X k w1"
      "suffix (wal_log X w1) (wal_log X w @ buf s)"
      by (rule write_batch_quiet [OF r st]) blast
    then have "mset (wal_log X w1) \<subseteq># mset (buf s) + mset (wal_log X w)"
      by (auto simp: suffix_def) (metis add.commute mset_append mset_subset_eq_add_right)
    then show ?thesis using fl w1 False by (auto simp: flush_batch_def send_batch_open [OF open'])
  qed
  then show ?thesis by (simp add: s' ingest_ready_def ledger_def Some ac_simps)
qed

lemma ingest_turn_ledger:
  assumes ready: "ingest_ready X (length (received [(e, ev)]) + k) s"
    and open': "auth_channel G (grpc_target cfg) (unwrap_or [] (api_token cfg)) = Channel tg tk"
    and st: "\<forall>v\<in>set (received [(e, ev)]). storable X v"
    and t: "ingest_turn X G cfg n fi e ev s = Some s'"
  shows "ingest_ready X k s' \<and> ledger X s' \<subseteq># ledger X s + mset (received [(e, ev)])"
proof (cases ev)
  case (Received v)
  let ?s1 = "s\<lparr>buf := buf s @ [v]\<rparr>"
  have r1: "ingest_ready X k ?s1" using ready st by (auto simp: ingest_ready_def Received received_def split: option.splits)
  have l1: "ledger X ?s1 = ledger X s + {#v#}" by (simp add: ledger_def)
  show ?thesis
  proof (cases "n \<le> length (buf ?s1)")
    case True
    then obtain s2 where "ingest_flush X G cfg n e ?s1 = Some s2" "s' = s2\<lparr>deadline := ie_now e + fi\<rparr>"
      using t by (auto simp: ingest_turn_def Received)
    with ingest_flush_ledger [OF r1 open'] l1 show ?thesis
      by (simp add: Received received_def)
  next
    case False
    then show ?thesis using t r1 l1 by (simp add: ingest_turn_def Received received_def)
  qed
next
  case Deadline
  then show ?thesis
    using t ready ingest_flush_ledger [OF _ open', of X k s n e]
    by (auto simp: ingest_turn_def received_def split: if_splits)
next
  case Closed
  then show ?thesis using t ready by (auto simp: ingest_turn_def received_def)
qed

lemma received_Cons: "received (x # evs) = received [x] @ received evs"
  by (simp add: received_def List.map_filter_def)

lemma ingest_turns_ledger:
  assumes "ingest_turns X G cfg n fi evs s = Some s'" and "ingest_ready X (length (received evs)) s"
    and "auth_channel G (grpc_target cfg) (unwrap_or [] (api_token cfg)) = Channel tg tk"
    and "\<forall>v\<in>set (received evs). storable X v"
  shows "ledger X s' \<subseteq># ledger X s + mset (received evs)"
  using assms(1,2,4)
proof (induction evs arbitrary: s)
  case (Cons x evs)
  obtain e ev where x: "x = (e, ev)" by (cases x)
  note rec = received_Cons [of "(e, ev)" evs]
  show ?case
  proof (cases "running s")
    case True
    then obtain s1 where s1: "ingest_turn X G cfg n fi e ev s = Some s1" "ingest_turns X G cfg n fi evs s1 = Some s'"
      using Cons.prems(1) by (auto simp: x split: option.splits)
    have "ingest_ready X (length (received [(e, ev)]) + length (received evs)) s"
      using Cons.prems(2) unfolding x rec by (simp add: ac_simps)
    from ingest_turn_ledger [OF this assms(3) _ s1(1)] Cons.prems(3)
    have turn: "ingest_ready X (length (received evs)) s1" "ledger X s1 \<subseteq># ledger X s + mset (received [(e, ev)])"
      unfolding x rec by auto
    have "ledger X s' \<subseteq># ledger X s1 + mset (received evs)"
      using Cons.IH [OF s1(2) turn(1)] Cons.prems(3) unfolding x rec by simp
    also have "\<dots> \<subseteq># ledger X s + mset (received [(e, ev)]) + mset (received evs)"
      using turn(2) by simp
    finally show ?thesis unfolding x rec by (simp add: ac_simps)
  qed (use Cons.prems in \<open>simp add: x\<close>)
qed simp


lemma ingest_turns_in_order:
  assumes "ingest_turns X G cfg n fi evs s = Some s'" and "running s"
    and "list_all (\<lambda>(e, ev). (\<forall>ps. ie_accepts e ps) \<and> ev \<noteq> Closed) evs"
    and "disk s = Some w" and "wal_ready X k w" and "oldest_completed w (wal_names (files w)) = None"
    and "auth_channel G (grpc_target cfg) (unwrap_or [] (api_token cfg)) = Channel tg tk"
  shows "concat (accepted s') @ buf s' = concat (accepted s) @ buf s @ received evs"
  using assms(1-4)
proof (induction evs arbitrary: s)
  case Nil
  then show ?case by (simp add: received_def List.map_filter_def)
next
  case (Cons x evs)
  obtain e ev where x: "x = (e, ev)" by (cases x)
  have flush: "ingest_flush X G cfg n e t = Some (t\<lparr>buf := [], accepted := accepted t @ [buf t]\<rparr>)"
    if "disk t = Some w" for t
    using that Cons.prems(3) drain_one_idle [OF assms(5,6)]
    by (simp add: ingest_flush_def flush_batch_def send_batch_open [OF assms(7)] x)
  obtain s1 where s1: "ingest_turn X G cfg n fi e ev s = Some s1" "ingest_turns X G cfg n fi evs s1 = Some s'"
    using Cons.prems(1,2) by (auto simp: x split: option.splits)
  have "running s1 \<and> disk s1 = Some w \<and> concat (accepted s1) @ buf s1 = concat (accepted s) @ buf s @ received [(e, ev)]"
    using s1(1) Cons.prems(2-4)
    by (cases ev) (auto simp: x ingest_turn_def flush received_def List.map_filter_def Let_def split: if_splits)
  with Cons.IH [OF s1(2)] Cons.prems(3) show ?case
    using received_Cons [of x evs] by (simp add: x)
qed

text \<open>
  While the service accepts everything and nothing waits on disk, every row is delivered once and in
  the order received; only the rows in memory are still to come.
\<close>

theorem ingest_delivers_in_order:
  assumes "ingest_turns X G cfg n fi evs s = Some s'" and "running s"
    and "list_all (\<lambda>(e, ev). (\<forall>ps. ie_accepts e ps) \<and> ev \<noteq> Closed) evs"
    and "disk s = Some w" and "wal_ready X k w" and "oldest_completed w (wal_names (files w)) = None"
    and "auth_channel G (grpc_target cfg) (unwrap_or [] (api_token cfg)) = Channel tg tk"
  shows "concat (accepted s') @ buf s' = concat (accepted s) @ buf s @ received evs"
  by (rule ingest_turns_in_order [OF assms])

subsection \<open>A run\<close>

definition demo_env :: "bool \<Rightarrow> ingest_env" where
  "demo_env ok = \<lparr>ie_accepts = (\<lambda>_. ok), ie_accepts_drain = (\<lambda>_. ok), ie_now = 0\<rparr>"

definition demo_ingest :: ingest where
  "demo_ingest = \<lparr>buf = [], deadline = 5, disk = Some demo_wal, accepted = [], running = True\<rparr>"

definition demo_run :: "(ingest_env \<times> ingest_event) list" where
  "demo_run = [(demo_env True, Received (demo_item ''one'')), (demo_env True, Received (demo_item ''two'')),
     (demo_env True, Received (demo_item ''three''))]"

lemma demo_wal_idle: "oldest_completed demo_wal (wal_names (files demo_wal)) = None"
  by (simp add: demo_wal_def wal_names_def oldest_completed_def)

lemma demo_received [simp]: "received demo_run = [demo_item ''one'', demo_item ''two'', demo_item ''three'']"
  by (simp add: received_def demo_run_def List.map_filter_def)

lemma demo_ingested:
  "ingest_turns demo_externals demo_toolkit demo_api 2 5 demo_run demo_ingest =
     Some \<lparr>buf = [demo_item ''three''], deadline = 5, disk = Some demo_wal,
       accepted = [[demo_item ''one'', demo_item ''two'']], running = True\<rparr>"
proof -
  note c = demo_channel [of "grpc_target demo_api" "unwrap_or [] (api_token demo_api)"]
  show ?thesis
    by (simp add: demo_run_def ingest_turn_def ingest_flush_def flush_batch_def send_batch_open [OF c] demo_env_def
        demo_ingest_def drain_one_idle [OF demo_ready [of 0] demo_wal_idle])
qed

theorem ingest_memory_bounded_witness:
  "length (buf demo_ingest) < max 1 2 \<and>
   (\<exists>s'. ingest_turns demo_externals demo_toolkit demo_api 2 5 demo_run demo_ingest = Some s' \<and> length (buf s') < max 1 2)"
proof -
  have b: "length (buf demo_ingest) < max 1 2" by (simp add: demo_ingest_def)
  from ingest_memory_bounded [OF demo_ingested this] b demo_ingested show ?thesis by blast
qed


theorem ingest_delivers_in_order_witness:
  "\<exists>s'. ingest_turns demo_externals demo_toolkit demo_api 2 5 demo_run demo_ingest = Some s' \<and>
     concat (accepted s') @ buf s' = [demo_item ''one'', demo_item ''two'', demo_item ''three'']"
proof -
  have "list_all (\<lambda>(e, ev). (\<forall>ps. ie_accepts e ps) \<and> ev \<noteq> Closed) demo_run"
    by (simp add: demo_run_def demo_env_def)
  from ingest_delivers_in_order [OF demo_ingested _ this _ demo_ready [of 0] demo_wal_idle
      demo_channel [of "grpc_target demo_api" "unwrap_or [] (api_token demo_api)"]]
  show ?thesis using demo_ingested by (simp add: demo_ingest_def)
qed

end
