(* ===== verification/System.thy ===== *)
theory System
  imports Poller Delivery
begin

text \<open>
  The poller and the ingest task together, joined by the bounded channel of rows: the workers put rows
  in (\<open>Poller\<close>), the ingest task takes them out one by one (\<open>Delivery\<close>). The senders of the channel live as
  long as the workers, so that the channel is never closed.
\<close>

text \<open>\<open>sy_admitted\<close> is a history: all rows the channel has ever taken in.\<close>

record system =
  sy_poller :: poller
  sy_ingest :: ingest
  sy_admitted :: "json list"

definition system_new :: "collector_settings \<Rightarrow> wal \<Rightarrow> f64 \<Rightarrow> system" where
  "system_new C w now = \<lparr>sy_poller = poller_new, sy_ingest = ingest_start C w now, sy_admitted = []\<rparr>"

text \<open>
  A turn of the ingest task, with a row from the channel or at its deadline. \<open>A\<close> says which answers of the
  service and of the clock are possible.
\<close>

inductive delivery_step ::
  "externals \<Rightarrow> grpc_toolkit \<Rightarrow> settings \<Rightarrow> (ingest_env \<Rightarrow> bool) \<Rightarrow> system \<Rightarrow> system \<Rightarrow> bool" for X G S A where
  received_row: "running (sy_ingest s) \<Longrightarrow> p_rows (sy_poller s) = v # rows \<Longrightarrow> A e \<Longrightarrow>
    ingest_turn X G (monitoring_cfg S) (ingest_batch_size (collector_cfg S)) (ingest_flush_seconds (collector_cfg S))
      e (Received v) (sy_ingest s) = Some i \<Longrightarrow>
    delivery_step X G S A s (s\<lparr>sy_poller := (sy_poller s)\<lparr>p_rows := rows\<rparr>, sy_ingest := i\<rparr>)"
| deadline_passed: "running (sy_ingest s) \<Longrightarrow> A e \<Longrightarrow>
    ingest_turn X G (monitoring_cfg S) (ingest_batch_size (collector_cfg S)) (ingest_flush_seconds (collector_cfg S))
      e Deadline (sy_ingest s) = Some i \<Longrightarrow>
    delivery_step X G S A s (s\<lparr>sy_ingest := i\<rparr>)"

inductive system_step ::
  "externals \<Rightarrow> grpc_toolkit \<Rightarrow> settings \<Rightarrow> (ingest_env \<Rightarrow> bool) \<Rightarrow> system \<Rightarrow> system \<Rightarrow> bool" for X G S A where
  polled: "poller_step X (collector_cfg S) (sy_poller s) p \<Longrightarrow> p_rows p = p_rows (sy_poller s) @ new \<Longrightarrow>
    system_step X G S A s (s\<lparr>sy_poller := p, sy_admitted := sy_admitted s @ new\<rparr>)"
| delivers_rows: "delivery_step X G S A s t \<Longrightarrow> system_step X G S A s t"

lemma system_stepE:
  assumes "system_step X G S A s t"
  obtains (polled) p new where "t = s\<lparr>sy_poller := p, sy_admitted := sy_admitted s @ new\<rparr>"
      "poller_step X (collector_cfg S) (sy_poller s) p" "p_rows p = p_rows (sy_poller s) @ new"
  | (received_row) v rows e i where "t = s\<lparr>sy_poller := (sy_poller s)\<lparr>p_rows := rows\<rparr>, sy_ingest := i\<rparr>"
      "running (sy_ingest s)" "p_rows (sy_poller s) = v # rows" "A e"
      "ingest_turn X G (monitoring_cfg S) (ingest_batch_size (collector_cfg S)) (ingest_flush_seconds (collector_cfg S))
        e (Received v) (sy_ingest s) = Some i"
  | (deadline_passed) e i where "t = s\<lparr>sy_ingest := i\<rparr>" "running (sy_ingest s)" "A e"
      "ingest_turn X G (monitoring_cfg S) (ingest_batch_size (collector_cfg S)) (ingest_flush_seconds (collector_cfg S))
        e Deadline (sy_ingest s) = Some i"
  using assms by (auto elim!: system_step.cases delivery_step.cases)

text \<open>For the poller, a step of the system is a step of its own, or none.\<close>

lemma system_step_poller:
  assumes "system_step X G S A s t"
  shows "sy_poller t = sy_poller s \<or> poller_step X (collector_cfg S) (sy_poller s) (sy_poller t)"
  using assms
proof (cases rule: system_stepE)
  case (received_row v rows e i)
  then show ?thesis using poller_step.work [OF work_step.rows_taken] by simp
qed simp_all

subsection \<open>Rows from the workers to the service\<close>

text \<open>
  What the ingest task has done in a reachable state is a run on the rows it has received, which with the
  rows in the channel are the rows admitted.
\<close>

lemma received_snoc: "received (evs @ [(e, ev)]) = received evs @ (case ev of Received v \<Rightarrow> [v] | _ \<Rightarrow> [])"
  by (cases ev) (simp_all add: received_def List.map_filter_def)

definition ingest_history ::
  "externals \<Rightarrow> grpc_toolkit \<Rightarrow> settings \<Rightarrow> (ingest_env \<Rightarrow> bool) \<Rightarrow> ingest \<Rightarrow> system \<Rightarrow> bool" where
  "ingest_history X G S A i0 s \<longleftrightarrow>
     (\<exists>evs. ingest_turns X G (monitoring_cfg S) (ingest_batch_size (collector_cfg S))
          (ingest_flush_seconds (collector_cfg S)) evs i0 = Some (sy_ingest s) \<and>
        (if running i0 then running (sy_ingest s) else evs = []) \<and> list_all (\<lambda>(e, ev). A e \<and> ev \<noteq> Closed) evs \<and>
        received evs @ p_rows (sy_poller s) = sy_admitted s)"

lemma ingest_history_turn:
  assumes "ingest_history X G S A i0 s" and "A e \<and> running (sy_ingest s)" and "ev \<noteq> Closed"
    and "ingest_turn X G (monitoring_cfg S) (ingest_batch_size (collector_cfg S))
      (ingest_flush_seconds (collector_cfg S)) e ev (sy_ingest s) = Some i"
    and "(case ev of Received v \<Rightarrow> [v] | _ \<Rightarrow> []) @ rows = p_rows (sy_poller s)"
    and "sy_ingest t = i" and "p_rows (sy_poller t) = rows" and "sy_admitted t = sy_admitted s"
  shows "ingest_history X G S A i0 t"
proof -
  obtain evs where evs: "ingest_turns X G (monitoring_cfg S) (ingest_batch_size (collector_cfg S))
        (ingest_flush_seconds (collector_cfg S)) evs i0 = Some (sy_ingest s)"
    "running i0" "list_all (\<lambda>(e, ev). A e \<and> ev \<noteq> Closed) evs"
    "received evs @ p_rows (sy_poller s) = sy_admitted s"
    using assms(1,2) by (auto simp: ingest_history_def split: if_splits)
  show ?thesis
    unfolding ingest_history_def
    by (rule exI [of _ "evs @ [(e, ev)]"])
      (use evs assms(2-4,6-) ingest_turn_running [OF assms(4,3)] in
        \<open>simp add: ingest_turns_append received_snoc assms(5) [symmetric]\<close>)
qed

definition system_start :: "collector_settings \<Rightarrow> wal \<Rightarrow> f64 \<Rightarrow> system \<Rightarrow> bool" where
  "system_start C w now s \<longleftrightarrow> s = system_new C w now"

lemma ingest_history_step:
  assumes "ingest_history X G S A i0 s" and "system_step X G S A s t"
  shows "ingest_history X G S A i0 t"
  using assms(2)
proof (cases rule: system_stepE)
  case (polled p new)
  then show ?thesis using assms(1) by (auto simp: ingest_history_def)
next
  case (received_row v rows e i)
  show ?thesis
    by (rule ingest_history_turn [OF assms(1) _ _ received_row(5)]) (simp_all add: received_row)
next
  case (deadline_passed e i)
  show ?thesis
    by (rule ingest_history_turn [OF assms(1) _ _ deadline_passed(4)]) (simp_all add: deadline_passed)
qed

lemma ingest_history_start: "system_start C w now s \<Longrightarrow> ingest_history X G S A (ingest_start C w now) s"
  unfolding ingest_history_def
  by (rule exI [of _ "[]"]) (simp add: system_start_def system_new_def ingest_start_def poller_new_def received_def List.map_filter_def)

interpretation history: transition_system "system_start C w now" "system_step X G S A"
    "ingest_history X G S A (ingest_start C w now)" for C w now X G S A
  by unfold_locales (auto intro: ingest_history_start ingest_history_step)

subsection \<open>Bounds\<close>

definition bounded :: "settings \<Rightarrow> system \<Rightarrow> bool" where
  "bounded S s \<longleftrightarrow>
     length (p_queue (sy_poller s)) \<le> max_concurrency (collector_cfg S) * 4 \<and>
     length (p_workers (sy_poller s)) \<le> max_concurrency (collector_cfg S) \<and>
     length (p_rows (sy_poller s)) \<le> result_queue_maxsize (collector_cfg S) \<and>
     length (buf (sy_ingest s)) < max 1 (ingest_batch_size (collector_cfg S))"

lemma offer_bound: "length queue \<le> n \<Longrightarrow> length (offer n payload queue) \<le> n"
  by (auto simp: offer_def split: option.split)

lemma begin_work_fields:
  "p_queue (begin_work k s) = p_queue s" "p_rows (begin_work k s) = p_rows s"
  "Taken k \<in> set (p_workers s) \<Longrightarrow> length (p_workers (begin_work k s)) \<le> length (p_workers s)"
  by (auto simp: begin_work_def Let_def length_remove1 dest: length_pos_if_in_set split: work_plan.split)

lemma finish_work_rows:
  "finish_work X C e snap result k (m, rows) = ((m', rows'), reqs, calls) \<Longrightarrow>
   length rows \<le> result_queue_maxsize C \<Longrightarrow> length rows' \<le> result_queue_maxsize C"
  by (auto simp: finish_work_def offer_bound split: option.splits prod.splits)

lemma with_requests_rows [simp]: "p_rows (with_requests mr s) = p_rows s"
  by (simp add: with_requests_def)

lemma work_step_bounds:
  assumes "work_step X C s t"
  shows "length (p_queue s) \<le> max_concurrency C * 4 \<Longrightarrow> length (p_queue t) \<le> max_concurrency C * 4"
    "length (p_workers s) \<le> max_concurrency C \<Longrightarrow> length (p_workers t) \<le> max_concurrency C"
    "length (p_rows s) \<le> result_queue_maxsize C \<Longrightarrow> length (p_rows t) \<le> result_queue_maxsize C"
proof -
  show "length (p_queue s) \<le> max_concurrency C * 4 \<Longrightarrow> length (p_queue t) \<le> max_concurrency C * 4"
    using assms by cases (simp_all add: begin_work_fields)
  show "length (p_workers s) \<le> max_concurrency C \<Longrightarrow> length (p_workers t) \<le> max_concurrency C"
    using assms by cases (simp_all add: begin_work_fields(3) [THEN le_trans] length_remove1)
  show "length (p_rows s) \<le> result_queue_maxsize C \<Longrightarrow> length (p_rows t) \<le> result_queue_maxsize C"
    using assms by cases (simp_all add: begin_work_fields finish_work_rows)
qed

lemma poller_step_bounds:
  assumes "poller_step X C s t"
  shows "length (p_queue s) \<le> max_concurrency C * 4 \<Longrightarrow> length (p_queue t) \<le> max_concurrency C * 4"
    "length (p_workers s) \<le> max_concurrency C \<Longrightarrow> length (p_workers t) \<le> max_concurrency C"
    "length (p_rows s) \<le> result_queue_maxsize C \<Longrightarrow> length (p_rows t) \<le> result_queue_maxsize C"
  using assms by (cases; simp add: work_step_bounds)+

lemma bounded_step: "bounded S s \<Longrightarrow> system_step X G S A s t \<Longrightarrow> bounded S t"
proof (erule system_stepE, goal_cases)
  case (1 p new)
  then show ?case using poller_step_bounds [OF 1(3)] by (simp add: bounded_def)
next
  case (2 v rows e i)
  then show ?case using ingest_turn_buf [OF 2(6)] by (simp add: bounded_def)
next
  case (3 e i)
  then show ?case using ingest_turn_buf [OF 3(5)] by (simp add: bounded_def)
qed

lemma bounded_start: "system_start C w now s \<Longrightarrow> bounded S s"
  by (simp add: system_start_def system_new_def bounded_def poller_new_def ingest_start_def)

interpretation bounds: transition_system "system_start C w now" "system_step X G S A" "bounded S" for C w now X G S A
  by unfold_locales (rule bounded_start, assumption, rule bounded_step)

subsection \<open>What the system promises\<close>

text \<open>
  The sizes of the queue of work, of the workers and of the channel of rows, which the rules that fill them guard,
  hold of every reachable state, and the rows in memory never reach a full batch. The scheduler's own heap has no
  bound in the code, and none here.
\<close>

theorem system_is_bounded:
  assumes "reachable (system_start (collector_cfg S) w now) (system_step X G S A) s"
  shows "length (p_queue (sy_poller s)) \<le> max_concurrency (collector_cfg S) * 4 \<and>
    length (p_workers (sy_poller s)) \<le> max_concurrency (collector_cfg S) \<and>
    length (p_rows (sy_poller s)) \<le> result_queue_maxsize (collector_cfg S) \<and>
    length (buf (sy_ingest s)) < max 1 (ingest_batch_size (collector_cfg S))"
  using bounds.reachable_inv [OF assms] by (simp add: bounded_def)

text \<open>
  From the workers to the service, every row the channel admits is delivered at most once: the rows
  accepted by the service, in memory and in the channel are, with multiplicity, among those admitted and
  those that were on disk at the start.
\<close>

theorem rows_are_delivered_at_most_once:
  assumes "reachable (system_start (collector_cfg S) w0 now) (system_step X G S A) s"
    and "wal_open (unat (buffer_max_bytes (collector_cfg S))) (unat (buffer_segment_max_bytes (collector_cfg S))) w0 =
      (Inr u, w)"
    and "wal_ready X (length (sy_admitted s)) w"
    and "auth_channel G (grpc_target (monitoring_cfg S)) (unwrap_or [] (api_token (monitoring_cfg S))) = Channel tg tk"
    and "\<forall>v\<in>set (sy_admitted s). storable X v"
  shows "mset (concat (accepted (sy_ingest s))) + mset (buf (sy_ingest s)) + mset (p_rows (sy_poller s)) \<subseteq>#
    mset (wal_log X w) + mset (sy_admitted s)"
proof -
  let ?i0 = "ingest_start (collector_cfg S) w0 now"
  obtain evs where evs: "ingest_turns X G (monitoring_cfg S) (ingest_batch_size (collector_cfg S))
        (ingest_flush_seconds (collector_cfg S)) evs ?i0 = Some (sy_ingest s)"
    "received evs @ p_rows (sy_poller s) = sy_admitted s"
    using history.reachable_inv [OF assms(1)] by (auto simp: ingest_history_def)
  have i0: "disk ?i0 = Some w" "buf ?i0 = []" "accepted ?i0 = []"
    using assms(2) by (simp_all add: ingest_start_def)
  have "length (received evs) \<le> length (sy_admitted s)" "\<forall>v\<in>set (received evs). storable X v"
    using assms(5) unfolding evs(2) [symmetric] by auto
  then have "ledger X (sy_ingest s) \<subseteq># ledger X ?i0 + mset (received evs)"
    using ingest_turns_ledger [OF evs(1) _ assms(4)] wal_ready_mono [OF assms(3)] i0 by (simp add: ingest_ready_def)
  then have "mset (concat (accepted (sy_ingest s))) + mset (buf (sy_ingest s)) \<subseteq># mset (wal_log X w) + mset (received evs)"
    unfolding ledger_def i0 by (auto dest: mset_subset_eq_add_left [THEN subset_mset.order_trans])
  then show ?thesis unfolding evs(2) [symmetric] by (simp add: add.assoc)
qed

lemma system_delivers_in_order:
  assumes "reachable (system_start (collector_cfg S) w0 now) (system_step X G S A) s"
    and "wal_open (unat (buffer_max_bytes (collector_cfg S))) (unat (buffer_segment_max_bytes (collector_cfg S))) w0 =
      (Inr u, w)"
    and "wal_ready X k w" and "oldest_completed w (wal_names (files w)) = None"
    and "auth_channel G (grpc_target (monitoring_cfg S)) (unwrap_or [] (api_token (monitoring_cfg S))) = Channel tg tk"
    and "\<And>e ps. A e \<Longrightarrow> ie_accepts e ps"
  shows "concat (accepted (sy_ingest s)) @ buf (sy_ingest s) @ p_rows (sy_poller s) = sy_admitted s"
proof -
  let ?i0 = "ingest_start (collector_cfg S) w0 now"
  obtain evs where evs: "ingest_turns X G (monitoring_cfg S) (ingest_batch_size (collector_cfg S))
        (ingest_flush_seconds (collector_cfg S)) evs ?i0 = Some (sy_ingest s)"
    "list_all (\<lambda>(e, ev). A e \<and> ev \<noteq> Closed) evs" "received evs @ p_rows (sy_poller s) = sy_admitted s"
    "running ?i0 \<or> evs = []"
    using history.reachable_inv [OF assms(1)] by (auto simp: ingest_history_def split: if_splits)
  have i0: "disk ?i0 = Some w" "buf ?i0 = []" "accepted ?i0 = []"
    using assms(2) by (simp_all add: ingest_start_def)
  have all: "list_all (\<lambda>(e, ev). (\<forall>ps. ie_accepts e ps) \<and> ev \<noteq> Closed) evs"
    using evs(2) assms(6) by (auto simp: list_all_iff)
  have "concat (accepted (sy_ingest s)) @ buf (sy_ingest s) = received evs"
    using evs(4)
  proof
    assume "running ?i0"
    from ingest_turns_in_order [OF evs(1) this all i0(1) assms(3-5)] show ?thesis by (simp add: i0)
  next
    assume "evs = []"
    then show ?thesis using evs(1) i0 by (auto simp: received_def List.map_filter_def)
  qed
  then show ?thesis unfolding evs(3) [symmetric] by (metis append.assoc)
qed

text \<open>
  C18: While the service accepts and nothing is on disk, every row the channel admits reaches the service
  exactly once and in order; what has not is in memory or in the channel.
\<close>

theorem rows_are_delivered_in_order:
  assumes "reachable (system_start (collector_cfg S) w0 now) (system_step X G S A) s"
    and "wal_open (unat (buffer_max_bytes (collector_cfg S))) (unat (buffer_segment_max_bytes (collector_cfg S))) w0 =
      (Inr u, w)"
    and "wal_ready X k w" and "oldest_completed w (wal_names (files w)) = None"
    and "auth_channel G (grpc_target (monitoring_cfg S)) (unwrap_or [] (api_token (monitoring_cfg S))) = Channel tg tk"
    and "\<And>e ps. A e \<Longrightarrow> ie_accepts e ps"
  shows "concat (accepted (sy_ingest s)) @ buf (sy_ingest s) @ p_rows (sy_poller s) = sy_admitted s"
  by (rule system_delivers_in_order [OF assms])

subsection \<open>The system follows the poller\<close>

lemma finish_work_appends:
  "finish_work X C e snap result k (m, rows) = ((m', rows'), reqs, calls) \<Longrightarrow> \<exists>new. rows' = rows @ new"
  by (auto simp: finish_work_def offer_def split: option.splits prod.splits if_splits)

text \<open>A step of the poller adds rows to the channel, or takes the first one out.\<close>

lemma poller_step_rows:
  assumes "poller_step X C s t"
  obtains (grows) new where "p_rows t = p_rows s @ new"
  | (shrinks) v rows where "p_rows s = v # rows" "t = s\<lparr>p_rows := rows\<rparr>"
  using assms
proof (cases rule: poller_step.cases)
  case work
  then show ?thesis
  proof (cases rule: work_step.cases)
    case (finish k snap e result m' rows' reqs calls)
    with finish_work_appends [OF finish(4)] grows show ?thesis by auto
  qed (use grows [of "[]"] shrinks in \<open>auto simp: begin_work_fields\<close>)
qed (use grows [of "[]"] in auto)

text \<open>With a channel to the service the ingest task never stops.\<close>

lemma ingest_turn_runs:
  assumes "auth_channel G (grpc_target cfg) (unwrap_or [] (api_token cfg)) = Channel tg tk" and "ev \<noteq> Closed"
  shows "ingest_turn X G cfg n fi e ev s \<noteq> None"
proof -
  have drain: "drain_one X G cfg acc k w \<noteq> None" for acc k w
    by (auto simp: drain_one_def send_batch_open [OF assms(1)] Let_def split: prod.split sum.split option.split)
  have "ingest_flush X G cfg n e t \<noteq> None" for t
    by (simp add: drain ingest_flush_def flush_batch_def send_batch_open [OF assms(1)] split: option.split)
  then show ?thesis using assms(2) by (auto simp: ingest_turn_def Let_def split: ingest_event.split)
qed

text \<open>
  Whatever the poller does, the system can do, also when only steps from states with a property \<open>R\<close> of the
  poller are taken.
\<close>

lemma system_follows_poller:
  assumes "reachable poller_start (\<lambda>p t. poller_step X (collector_cfg S) p t \<and> R p) p"
    and "auth_channel G (grpc_target (monitoring_cfg S)) (unwrap_or [] (api_token (monitoring_cfg S))) = Channel tg tk"
    and "A e" and "duration_from_secs (ingest_flush_seconds (collector_cfg S)) \<noteq> None"
  shows "\<exists>s. reachable (system_start (collector_cfg S) w now) (\<lambda>s t. system_step X G S A s t \<and> R (sy_poller s)) s \<and>
    sy_poller s = p"
  using assms(1)
proof (induction rule: reachable.induct)
  case (reachable_start p)
  then show ?case
    by (intro exI [of _ "system_new (collector_cfg S) w now"] conjI reachable.reachable_start)
      (simp_all add: system_start_def system_new_def poller_start_def)
next
  case (reachable_step p t)
  then obtain s where s: "reachable (system_start (collector_cfg S) w now) (\<lambda>s t. system_step X G S A s t \<and> R (sy_poller s)) s"
    "sy_poller s = p" by blast
  then have r: "reachable (system_start (collector_cfg S) w now) (system_step X G S A) s"
    by (auto elim: reachable_mono)
  have p: "poller_step X (collector_cfg S) p t" "R p" using reachable_step.hyps(2) by simp_all
  have "\<exists>s'. system_step X G S A s s' \<and> sy_poller s' = t" using p(1)
  proof (cases rule: poller_step_rows)
    case (grows new)
    from system_step.polled [of X S s t new G A] grows s p(1) show ?thesis
      by (intro exI [of _ "s\<lparr>sy_poller := t, sy_admitted := sy_admitted s @ new\<rparr>"]) auto
  next
    case (shrinks v rows)
    have "running (sy_ingest s)"
      using history.reachable_inv [OF r] assms(4) by (auto simp: ingest_history_def ingest_start_def)
    moreover obtain i where "ingest_turn X G (monitoring_cfg S) (ingest_batch_size (collector_cfg S))
        (ingest_flush_seconds (collector_cfg S)) e (Received v) (sy_ingest s) = Some i"
      using ingest_turn_runs [OF assms(2)] by blast
    ultimately have "system_step X G S A s (s\<lparr>sy_poller := (sy_poller s)\<lparr>p_rows := rows\<rparr>, sy_ingest := i\<rparr>)"
      using shrinks s(2) assms(3) by (intro system_step.delivers_rows delivery_step.received_row) simp_all
    then show ?thesis using shrinks s(2) by (intro exI conjI) (assumption, simp)
  qed
  then obtain s' where "system_step X G S A s s'" "sy_poller s' = t" by blast
  with reachable.reachable_step [OF s(1), of s'] s(2) p(2) show ?case by auto
qed

subsection \<open>A run\<close>

lemma demo_polling_reachable:
  "\<exists>p. reachable poller_start (roomy_step demo_externals demo_settings) p \<and> p_states p = p_states demo_poller \<and>
     p_rows p = [] \<and> p_fetched p = {} \<and> Polling ''srv-1'' (snapshot_of demo_tracked) \<in> set (p_workers p)"
proof -
  let ?s1 = "demo_overdue\<lparr>p_sched := do_pop ((p_sched demo_overdue)\<lparr>waiter := Popping\<rparr>),
    p_dispatch := Got (ekey demo_entry) (due demo_entry)\<rparr>"
  let ?s2 = "?s1\<lparr>p_dispatch := Waiting, p_queue := [], p_workers := Taken ''srv-1'' # p_workers ?s1\<rparr>"
  have "(quiet_step demo_externals demo_settings)\<^sup>*\<^sup>* demo_overdue ?s1"
    by (rule single_entry_handed_over) (simp_all add: demo_entry_def)
  moreover have "(quiet_step demo_externals demo_settings)\<^sup>*\<^sup>* ?s1 (begin_work ''srv-1'' ?s2)"
    by (rule dispatched_steps [where st = demo_tracked]) (simp_all add: demo_entry_def)
  ultimately have "(quiet_step demo_externals demo_settings)\<^sup>*\<^sup>* demo_overdue (begin_work ''srv-1'' ?s2)"
    by (rule rtranclp_trans)
  from quiet_reachable [OF this demo_overdue_roomy]
  have "reachable poller_start (roomy_step demo_externals demo_settings) (begin_work ''srv-1'' ?s2)" by simp
  moreover have b: "begin_work ''srv-1'' ?s2 =
      ?s1\<lparr>p_dispatch := Waiting, p_queue := [], p_workers := [Polling ''srv-1'' (snapshot_of demo_tracked)]\<rparr>"
    by (subst begin_work_now [where st = demo_tracked]) simp_all
  ultimately show ?thesis by (intro exI conjI) (assumption, simp_all add: b)
qed

lemma first_poll_emits:
  assumes "finish_state X C e snap result st = (st', payload, calls)" and "\<not> has_emitted_state st"
    and "ws_plugin_managed snap = False"
  shows "payload \<noteq> None" "has_emitted_state st'"
proof -
  show em: "has_emitted_state st'" using finish_state_observes [OF assms(1)] assms(3) by simp
  then show "payload \<noteq> None" using finish_state_emits(2) [OF assms(1)] assms(2) by blast
qed

lemma demo_first_poll:
  "\<exists>p p' v st reqs calls. reachable poller_start (roomy_step demo_externals demo_settings) p \<and>
     roomy_step demo_externals demo_settings p p' \<and> p_rows p = [] \<and> p_rows p' = [v] \<and> p_fetched p' = {} \<and>
     finish_work demo_externals demo_settings demo_work_env (snapshot_of demo_tracked) (failed_poll (json_obj [])) ''srv-1''
       (p_states p, p_rows p) = ((p_states p', p_rows p'), reqs, calls) \<and>
     hm_get (p_states p') ''srv-1'' = Some st \<and> has_emitted_state st"
proof -
  obtain p where p: "reachable poller_start (roomy_step demo_externals demo_settings) p"
    "p_states p = p_states demo_poller" "p_rows p = []" "Polling ''srv-1'' (snapshot_of demo_tracked) \<in> set (p_workers p)"
    "p_fetched p = {}"
    using demo_polling_reachable by blast
  let ?result = "failed_poll (json_obj [])"
  obtain st' payload calls where f: "finish_state demo_externals demo_settings demo_work_env (snapshot_of demo_tracked)
      ?result demo_tracked = (st', payload, calls)" by (metis prod_cases3)
  obtain v where v: "payload = Some v"
    using first_poll_emits(1) [OF f] by (auto simp: snapshot_of_def)
  have em: "has_emitted_state st'" using first_poll_emits(2) [OF f] by (simp add: snapshot_of_def)
  have w: "finish_work demo_externals demo_settings demo_work_env (snapshot_of demo_tracked) ?result ''srv-1''
      (p_states p, p_rows p) = ((hm_insert ''srv-1'' st' (p_states p), [v]), [(''srv-1'', next_due st')], calls)"
    using f v by (simp add: finish_work_def p(2,3) offer_def)
  let ?p = "with_requests (hm_insert ''srv-1'' st' (p_states p), [(''srv-1'', next_due st')])
        (p\<lparr>p_workers := remove1 (Polling ''srv-1'' (snapshot_of demo_tracked)) (p_workers p), p_rows := [v]\<rparr>)"
  from p(4) demo_durations(1) w have "work_step demo_externals demo_settings p ?p" by (rule work_step.finish)
  then have "roomy_step demo_externals demo_settings p ?p" using p(3) by (simp add: roomy_step_def poller_step.work)
  with p(1,3,5) w em show ?thesis
    by (intro exI [of _ p] exI [of _ ?p] exI [of _ v] exI [of _ st'] exI conjI) (assumption | simp)+
qed

lemma demo_row_reachable:
  "\<exists>p v st. reachable poller_start (roomy_step demo_externals demo_settings) p \<and> p_rows p = [v] \<and> p_fetched p = {} \<and>
     hm_get (p_states p) ''srv-1'' = Some st \<and> has_emitted_state st"
  using demo_first_poll reachable.reachable_step by metis

lemma demo_wal_opens:
  "\<exists>u w. wal_open mx seg demo_wal = (Inr u, w) \<and> wal_ready demo_externals 0 w \<and>
     oldest_completed w (wal_names (files w)) = None"
  using wal_open_quiet [of demo_wal mx seg]
  by (auto simp: demo_wal_def wal_ready_def wal_ok_def clock_ok_def wal_names_def oldest_completed_def)

definition accepting :: "ingest_env \<Rightarrow> bool" where
  "accepting e \<longleftrightarrow> (\<forall>ps. ie_accepts e ps)"

lemma demo_load [simp]: "collector_cfg (load demo_readers) = demo_settings"
  by (simp add: demo_settings_def load_def)

definition roomy :: "collector_settings \<Rightarrow> system \<Rightarrow> bool" where
  "roomy C s \<longleftrightarrow> length (p_rows (sy_poller s)) < result_queue_maxsize C"

lemma demo_system_follows:
  assumes "reachable poller_start (roomy_step demo_externals demo_settings) p"
  shows "\<exists>s. reachable (system_start (collector_cfg (load demo_readers)) demo_wal 0)
     (\<lambda>s t. system_step demo_externals demo_toolkit (load demo_readers) accepting s t \<and>
        roomy (collector_cfg (load demo_readers)) s) s \<and> sy_poller s = p"
proof -
  have "reachable poller_start (\<lambda>p t. poller_step demo_externals (collector_cfg (load demo_readers)) p t \<and>
      length (p_rows p) < result_queue_maxsize (collector_cfg (load demo_readers))) p"
    using assms by (rule reachable_mono) (simp add: roomy_step_def)
  moreover have "accepting (demo_env True)" by (simp add: accepting_def demo_env_def)
  ultimately show ?thesis
    unfolding roomy_def by (intro system_follows_poller [OF _ demo_channel]) (use demo_durations in simp_all)
qed

lemma demo_system_roomy:
  "\<exists>s v st. reachable (system_start (collector_cfg (load demo_readers)) demo_wal 0)
     (\<lambda>s t. system_step demo_externals demo_toolkit (load demo_readers) accepting s t \<and>
        roomy (collector_cfg (load demo_readers)) s) s \<and> p_rows (sy_poller s) = [v] \<and> p_fetched (sy_poller s) = {} \<and>
     hm_get (p_states (sy_poller s)) ''srv-1'' = Some st \<and> has_emitted_state st"
proof -
  obtain p v st where p: "reachable poller_start (roomy_step demo_externals demo_settings) p" "p_rows p = [v]" "p_fetched p = {}"
    "hm_get (p_states p) ''srv-1'' = Some st" "has_emitted_state st"
    using demo_row_reachable by blast
  obtain s where s: "reachable (system_start (collector_cfg (load demo_readers)) demo_wal 0)
      (\<lambda>s t. system_step demo_externals demo_toolkit (load demo_readers) accepting s t \<and>
        roomy (collector_cfg (load demo_readers)) s) s" "sy_poller s = p"
    using demo_system_follows [OF p(1)] by blast
  show ?thesis
    by (rule exI [of _ s], rule exI [of _ v], rule exI [of _ st]) (use s p in simp)
qed

lemma demo_system_reachable:
  "\<exists>s v. reachable (system_start (collector_cfg (load demo_readers)) demo_wal 0)
     (system_step demo_externals demo_toolkit (load demo_readers) accepting) s \<and> p_rows (sy_poller s) = [v]"
proof -
  obtain s v where s: "reachable (system_start (collector_cfg (load demo_readers)) demo_wal 0)
     (\<lambda>s t. system_step demo_externals demo_toolkit (load demo_readers) accepting s t \<and>
        roomy (collector_cfg (load demo_readers)) s) s" "p_rows (sy_poller s) = [v]"
    using demo_system_roomy by blast
  have "reachable (system_start (collector_cfg (load demo_readers)) demo_wal 0)
     (system_step demo_externals demo_toolkit (load demo_readers) accepting) s"
    using s(1) by (rule reachable_mono) simp
  with s(2) show ?thesis by blast
qed

theorem system_is_bounded_witness:
  "\<exists>s. reachable (system_start (collector_cfg (load demo_readers)) demo_wal 0)
     (system_step demo_externals demo_toolkit (load demo_readers) accepting) s \<and> p_rows (sy_poller s) \<noteq> [] \<and>
     length (p_rows (sy_poller s)) \<le> result_queue_maxsize (collector_cfg (load demo_readers))"
proof -
  obtain s v where s: "reachable (system_start (collector_cfg (load demo_readers)) demo_wal 0)
     (system_step demo_externals demo_toolkit (load demo_readers) accepting) s" "p_rows (sy_poller s) = [v]"
    using demo_system_reachable by blast
  from system_is_bounded [OF s(1)] s show ?thesis by auto
qed

theorem rows_are_delivered_in_order_witness:
  "\<exists>s. reachable (system_start (collector_cfg (load demo_readers)) demo_wal 0)
     (system_step demo_externals demo_toolkit (load demo_readers) accepting) s \<and> sy_admitted s \<noteq> [] \<and>
     concat (accepted (sy_ingest s)) @ buf (sy_ingest s) @ p_rows (sy_poller s) = sy_admitted s"
proof -
  obtain s v where s: "reachable (system_start (collector_cfg (load demo_readers)) demo_wal 0)
     (system_step demo_externals demo_toolkit (load demo_readers) accepting) s" "p_rows (sy_poller s) = [v]"
    using demo_system_reachable by blast
  obtain u w where w: "wal_open (unat (buffer_max_bytes (collector_cfg (load demo_readers))))
      (unat (buffer_segment_max_bytes (collector_cfg (load demo_readers)))) demo_wal = (Inr u, w)"
    "wal_ready demo_externals 0 w" "oldest_completed w (wal_names (files w)) = None"
    using demo_wal_opens by blast
  have "concat (accepted (sy_ingest s)) @ buf (sy_ingest s) @ p_rows (sy_poller s) = sy_admitted s"
    by (rule rows_are_delivered_in_order [OF s(1) w demo_channel]) (simp add: accepting_def)
  with s show ?thesis by auto
qed

end
