(* ===== verification/View.thy ===== *)
theory View
  imports System
begin

text \<open>
  What the monitoring service knows of each server, from end to end: the last row of a server, on its way
  or accepted, shows what the state of the server records as emitted, as long as the channel of rows
  never fills up. The other tasks (refreshes, triggers, force pings, postponed polls) never make a state
  claim more than has been sent.
\<close>

definition rows_of :: "str \<Rightarrow> json list \<Rightarrow> json list" where
  "rows_of k rows = filter (\<lambda>row. get_str ''server_id'' row = Some k) rows"

lemma rows_of_append [simp]: "rows_of k (xs @ ys) = rows_of k xs @ rows_of k ys"
  by (simp add: rows_of_def)

lemma rows_of_Nil [simp]: "rows_of k [] = []"
  by (simp add: rows_of_def)

text \<open>What a state claims has been shown by the last row of its server.\<close>

definition backed :: "externals \<Rightarrow> json list \<Rightarrow> str \<Rightarrow> server_state \<Rightarrow> bool" where
  "backed X rows k st \<longleftrightarrow> server_id st = k \<and>
     (has_emitted_state st \<longrightarrow> rows_of k rows \<noteq> [] \<and> row_shows X (last (rows_of k rows)) (last_obs st))"

definition all_backed :: "externals \<Rightarrow> json list \<Rightarrow> states \<Rightarrow> bool" where
  "all_backed X rows m \<longleftrightarrow> (\<forall>k st. hm_get m k = Some st \<longrightarrow> backed X rows k st)"

text \<open>
  A change of the states carries the claims over when every new state claims what an old one of the same
  key did, or nothing.
\<close>

definition carries :: "states \<Rightarrow> states \<Rightarrow> bool" where
  "carries m m' \<longleftrightarrow> (\<forall>k st'. hm_get m' k = Some st' \<longrightarrow>
     (\<exists>st. hm_get m k = Some st \<and> server_id st' = server_id st \<and>
        (has_emitted_state st' \<longrightarrow> has_emitted_state st \<and> last_obs st' = last_obs st \<and>
       last_emitted_at st' = last_emitted_at st)) \<or>
     server_id st' = k \<and> \<not> has_emitted_state st')"

lemma carriesD:
  assumes "carries m m'" and "hm_get m' k = Some st'"
  obtains st where "hm_get m k = Some st" "server_id st' = server_id st"
      "has_emitted_state st' \<Longrightarrow> has_emitted_state st \<and> last_obs st' = last_obs st \<and>
       last_emitted_at st' = last_emitted_at st"
  | "server_id st' = k" "\<not> has_emitted_state st'"
  using assms unfolding carries_def by blast

lemma carries_refl [simp]: "carries m m"
  by (simp add: carries_def)

lemma carries_trans:
  assumes "carries m m1" and "carries m1 m'"
  shows "carries m m'"
  unfolding carries_def
proof (intro allI impI)
  fix k st'
  assume "hm_get m' k = Some st'"
  with assms(2) show "(\<exists>st. hm_get m k = Some st \<and> server_id st' = server_id st \<and>
      (has_emitted_state st' \<longrightarrow> has_emitted_state st \<and> last_obs st' = last_obs st \<and>
       last_emitted_at st' = last_emitted_at st)) \<or>
    server_id st' = k \<and> \<not> has_emitted_state st'"
  proof (rule carriesD)
    fix st1
    assume g: "hm_get m1 k = Some st1" and st': "server_id st' = server_id st1"
      "has_emitted_state st' \<Longrightarrow> has_emitted_state st1 \<and> last_obs st' = last_obs st1 \<and>
       last_emitted_at st' = last_emitted_at st1"
    from assms(1) g show ?thesis by (rule carriesD) (use st' in auto)
  qed simp
qed

lemma all_backed_carries: "all_backed X rows m \<Longrightarrow> carries m m' \<Longrightarrow> all_backed X rows m'"
  unfolding all_backed_def
proof (intro allI impI)
  fix k st'
  assume b: "\<forall>k st. hm_get m k = Some st \<longrightarrow> backed X rows k st" and c: "carries m m'" and g: "hm_get m' k = Some st'"
  from c g show "backed X rows k st'"
    by (rule carriesD) (use b in \<open>auto simp: backed_def\<close>)
qed

text \<open>The claim of the one state that is replaced decides.\<close>

lemma carries_insert:
  assumes "\<And>st. hm_get m k = Some st \<Longrightarrow> server_id st' = server_id st \<and>
      (has_emitted_state st' \<longrightarrow> has_emitted_state st \<and> last_obs st' = last_obs st \<and>
       last_emitted_at st' = last_emitted_at st)"
    and "hm_get m k = None \<Longrightarrow> server_id st' = k \<and> \<not> has_emitted_state st'"
  shows "carries m (hm_insert k st' m)"
  unfolding carries_def
proof (intro allI impI)
  fix j st1
  assume "hm_get (hm_insert k st' m) j = Some st1"
  then show "(\<exists>st. hm_get m j = Some st \<and> server_id st1 = server_id st \<and>
      (has_emitted_state st1 \<longrightarrow> has_emitted_state st \<and> last_obs st1 = last_obs st \<and>
       last_emitted_at st1 = last_emitted_at st)) \<or>
    server_id st1 = j \<and> \<not> has_emitted_state st1"
    using assms by (cases "j = k"; cases "hm_get m k") auto
qed

subsection \<open>The tasks carry the claims over\<close>

lemma last_obs_due [simp]: "last_obs (st\<lparr>next_due := d\<rparr>) = last_obs st"
  by (simp add: last_obs_def)

lemma carries_build_state:
  "hm_get m (server_key X srv) = None \<Longrightarrow>
   carries m (hm_insert (server_key X srv) (build_state X r1 r2 utc srv now sp iv stale) m)"
  by (rule carries_insert) (auto simp: build_state_def Let_def split: prod.split)

lemma carries_update_existing:
  assumes "update_existing X C r utc now k srv st = (st', reqs)" and "hm_get m k = Some st"
  shows "carries m (hm_insert k st' m)"
proof (rule carries_insert)
  fix st1
  assume "hm_get m k = Some st1"
  then have "st1 = st" using assms(2) by simp
  with update_existing_spec(3,7,8) [OF assms(1)]
  show "server_id st' = server_id st1 \<and> (has_emitted_state st' \<longrightarrow> has_emitted_state st1 \<and> last_obs st' = last_obs st1 \<and>
       last_emitted_at st' = last_emitted_at st1)"
    by (cases "moved srv st") auto
qed (use assms(2) in simp)

lemma carries_refresh_server:
  "refresh_server X C now srv d (m, inc, reqs) = (m', inc', reqs') \<Longrightarrow> carries m m'"
  by (auto simp: refresh_server_def Let_def split: if_splits option.splits prod.splits
      intro: carries_build_state carries_update_existing)

lemma carries_refresh_all:
  "refresh_all X C now L (m, inc, reqs) = (m', inc', reqs') \<Longrightarrow> carries m m'"
proof (induction L arbitrary: m inc reqs)
  case (Cons x L)
  obtain srv d where x: "x = (srv, d)" by (cases x)
  obtain m1 inc1 reqs1 where s: "refresh_server X C now srv d (m, inc, reqs) = (m1, inc1, reqs1)" by (metis prod_cases3)
  have "carries m1 m'" using Cons by (simp add: x s)
  with carries_refresh_server [OF s] show ?case by (rule carries_trans)
qed simp

lemma carries_refresh_states:
  assumes "refresh_states X C draws now servers m = (m', reqs)" and "hm_ok m"
  shows "carries m m'"
proof -
  from assms(1) obtain m1 inc where r: "refresh_all X C now (zip servers (map draws [0..<length servers])) (m, [], []) = (m1, inc, reqs)"
    and m': "m' = hm_retain (\<lambda>k _. k \<in> set inc) m1" by (rule refresh_states_unfold)
  have "hm_ok m1" using refresh_all_keys [OF r assms(2)] by simp
  then have "carries m1 m'"
    by (auto simp: carries_def m' hm_get_retain split: option.splits if_splits)
  with carries_refresh_all [OF r] show ?thesis by (rule carries_trans)
qed

lemma carries_trigger: "trigger_targets now targets m = (m', reqs) \<Longrightarrow> carries m m'"
  unfolding carries_def
  by (auto simp: trigger_targets_spec(1) due_now_def split: if_splits)

lemma carries_force: "force_ping_known now target m = Some (m', reqs) \<Longrightarrow> carries m m'"
  by (auto simp: force_ping_known_def due_now_def split: option.splits intro!: carries_insert)

lemma carries_skip_internal: "skip_internal C r now k m = (m', reqs) \<Longrightarrow> carries m m'"
  by (auto simp: skip_internal_def Let_def split: option.splits intro!: carries_insert)

subsection \<open>A poll keeps its promise\<close>

text \<open>A poll that changes what its server claims has a row for it.\<close>

lemma finish_work_claims:
  assumes "finish_work X C e snap result k (m, rows) = ((m', rows'), reqs, calls)"
  shows "carries m m' \<and> rows' = rows \<or>
    (\<exists>st' row. m' = hm_insert k st' m \<and> rows' = offer (result_queue_maxsize C) (Some row) rows \<and>
       last_emitted_at st' = Some (we_now_emit e) \<and> row_shows X row (last_obs st') \<and>
       (\<exists>st. hm_get m k = Some st \<and> server_id st' = server_id st \<and> get_str ''server_id'' row = Some (server_id st)))"
proof (cases "hm_get m k")
  case None
  then show ?thesis using assms by (auto simp: finish_work_def)
next
  case (Some st)
  obtain st' payload calls' where f: "finish_state X C e snap result st = (st', payload, calls')" by (metis prod_cases3)
  have m': "m' = hm_insert k st' m" "rows' = offer (result_queue_maxsize C) payload rows"
    using assms Some f by (auto simp: finish_work_def)
  show ?thesis
  proof (cases payload)
    case None
    have "carries m m'"
      unfolding m' by (rule carries_insert) (use Some finish_state_emits(1,2) [OF f] None in auto)
    then show ?thesis using m' None by (simp add: offer_def)
  next
    case row: (Some row)
    then show ?thesis using m' Some finish_state_emits(1) [OF f] finish_state_emits(3) [OF f row] by blast
  qed
qed

text \<open>What a step of the poller does to the claims: nothing, or one server emits a row.\<close>

lemma poller_step_claims:
  assumes "poller_step X C s t" and "hm_ok (p_states s)"
  obtains (none) "carries (p_states s) (p_states t)" "p_rows t = p_rows s \<or> (\<exists>v. p_rows s = v # p_rows t)"
  | (fetched) d now target srv where "t = force_fetched X C d now target srv s"
  | (row) k st' row st where "duration_from_secs (status_timeout_seconds C) \<noteq> None" "p_states t = hm_insert k st' (p_states s)" "last_emitted_at st' \<noteq> None"
      "p_rows t = offer (result_queue_maxsize C) (Some row) (p_rows s)" "row_shows X row (last_obs st')"
      "hm_get (p_states s) k = Some st" "server_id st' = server_id st" "get_str ''server_id'' row = Some (server_id st)"
  using assms(1)
proof (cases rule: poller_step.cases)
  case work
  then show ?thesis
  proof (cases rule: work_step.cases)
    case (start k)
    have "p_states (begin_work k s) = p_states s" by (simp add: begin_work_def Let_def split: work_plan.split)
    then show ?thesis using start none begin_work_rows by simp
  next
    case (skip k r now)
    obtain m' reqs where r: "skip_internal C r now k (p_states s) = (m', reqs)" by fastforce
    show ?thesis by (rule none) (use skip r carries_skip_internal [OF r] in simp_all)
  next
    case (finish k snap e result m' rows' reqs calls)
    from finish_work_claims [OF finish(4)] show ?thesis
      using finish(1) none row [OF finish(3)] by (elim disjE exE conjE) auto
  qed (use none in simp_all)
next
  case (refresh servers draws now)
  obtain m' reqs where r: "refresh_states X C draws now servers (p_states s) = (m', reqs)" by fastforce
  show ?thesis by (rule none) (use refresh r carries_refresh_states [OF r assms(2)] in simp_all)
next
  case (trigger now targets)
  obtain m' reqs where r: "trigger_targets now targets (p_states s) = (m', reqs)" by fastforce
  show ?thesis by (rule none) (use trigger r carries_trigger [OF r] in simp_all)
next
  case (force now target mr)
  obtain m' reqs where mr: "mr = (m', reqs)" by (cases mr)
  show ?thesis by (rule none) (use force mr carries_force [OF force(2) [unfolded mr]] in simp_all)
next
  case (fetched d now target srv)
  then show ?thesis by (rule that(2))
qed

text \<open>A fetched server that is the one that was asked for claims nothing.\<close>

lemma carries_fetched:
  assumes "t = force_fetched X C d now target srv s" and "named_truly t"
  shows "carries (p_states s) (p_states t)"
proof -
  have "server_key X srv = target" using assms by (auto simp: named_truly_def)
  then show ?thesis
    unfolding carries_def
    by (auto simp: assms(1) force_fetched_def force_ping_fetched_def build_state_def Let_def hm_get_insert split: prod.splits if_splits)
qed

text \<open>A step that changes the states without a row carries the claims over.\<close>

lemma poller_step_carries:
  assumes "poller_step X C s t" and "hm_ok (p_states s)" and "named_truly t"
  obtains (none) "carries (p_states s) (p_states t)" "p_rows t = p_rows s \<or> (\<exists>v. p_rows s = v # p_rows t)"
  | (row) k st' row st where "duration_from_secs (status_timeout_seconds C) \<noteq> None" "p_states t = hm_insert k st' (p_states s)" "last_emitted_at st' \<noteq> None"
      "p_rows t = offer (result_queue_maxsize C) (Some row) (p_rows s)" "row_shows X row (last_obs st')"
      "hm_get (p_states s) k = Some st" "server_id st' = server_id st" "get_str ''server_id'' row = Some (server_id st)"
  using assms(1,2)
proof (cases rule: poller_step_claims)
  case (fetched d now target srv)
  then show ?thesis by (intro that(1) carries_fetched [OF fetched assms(3)]) simp
qed (rule that; assumption)+

lemma rows_of_other: "get_str ''server_id'' row = Some j \<Longrightarrow> j \<noteq> k \<Longrightarrow> rows_of k [row] = []"
  by (simp add: rows_of_def)

lemma poller_step_backed:
  assumes "poller_step X C s t" and "p_rows t = p_rows s @ new" and "length (p_rows s) < result_queue_maxsize C"
    and "hm_ok (p_states s)" and "all_backed X adm (p_states s)" and "named_truly t"
  shows "all_backed X (adm @ new) (p_states t)"
  using assms(1,4,6)
proof (cases rule: poller_step_carries)
  case none
  then have "new = []" using assms(2) by auto
  then show ?thesis using all_backed_carries [OF assms(5) none(1)] by simp
next
  case (row k st' row st)
  then have new: "new = [row]" using assms(2,3) by (simp add: offer_def)
  have old: "backed X adm j st1" if "hm_get (p_states s) j = Some st1" for j st1
    using assms(5) that by (simp add: all_backed_def)
  have id: "server_id st = k" using old [OF row(6)] by (simp add: backed_def)
  have "rows_of k new = [row]" using row(8) by (simp add: new id rows_of_def)
  then have own: "backed X (adm @ new) k st'" using row(5,7) by (simp add: backed_def id)
  have "backed X (adm @ new) j st1" if "hm_get (p_states s) j = Some st1" "j \<noteq> k" for j st1
    using old [OF that(1)] rows_of_other [OF row(8), of j] that(2) by (simp add: backed_def new id)
  then show ?thesis using own by (auto simp: all_backed_def row(2))
qed

text \<open>In the running system.\<close>

definition view_inv :: "externals \<Rightarrow> system \<Rightarrow> bool" where
  "view_inv X s \<longleftrightarrow> poller_inv (sy_poller s) \<and>
     (named_truly (sy_poller s) \<longrightarrow> all_backed X (sy_admitted s) (p_states (sy_poller s)))"

lemma poller_inv_ok: "poller_inv p \<Longrightarrow> hm_ok (p_states p)"
  by (simp add: poller_inv_def inv_but_def)

lemma poller_inv_system_step: "poller_inv (sy_poller s) \<Longrightarrow> system_step X G S A s t \<Longrightarrow> poller_inv (sy_poller t)"
  using system_step_poller poller_step_inv by metis

lemma view_inv_step:
  assumes "view_inv X s" and "system_step X G S A s t" and "roomy (collector_cfg S) s"
  shows "view_inv X t"
proof -
  have "poller_inv (sy_poller t)"
    using assms(1) poller_inv_system_step [OF _ assms(2)] by (simp add: view_inv_def)
  moreover have "all_backed X (sy_admitted t) (p_states (sy_poller t))" if honest: "named_truly (sy_poller t)"
    using assms(2)
  proof (cases rule: system_stepE)
    case (polled p new)
    have "hm_ok (p_states (sy_poller s))" using assms(1) by (simp add: view_inv_def poller_inv_ok)
    moreover have "named_truly (sy_poller s)" using honest named_truly_before [OF polled(2)] by (simp add: polled(1))
    ultimately show ?thesis
      using polled assms honest poller_step_backed [OF polled(2,3), of "sy_admitted s"]
      by (simp add: view_inv_def roomy_def)
  qed (use assms(1) honest in \<open>simp_all add: view_inv_def named_truly_def\<close>)
  ultimately show ?thesis by (simp add: view_inv_def)
qed

lemma view_inv_start: "system_start C w now s \<Longrightarrow> view_inv X s"
  by (simp add: view_inv_def system_start_def system_new_def poller_inv_new all_backed_def)
    (simp add: poller_new_def)

interpretation view: transition_system "system_start C w now"
    "\<lambda>s t. system_step X G S A s t \<and> roomy (collector_cfg S) s" "view_inv X" for C w now X G S A
  by unfold_locales (auto intro: view_inv_start view_inv_step)

text \<open>
  C1: The monitoring service knows what the poller thinks it knows. As long as every step has found
  room in the channel of rows, the service accepts, the disk works and is empty at the start, and the catalog has
  answered a force ping only with the server that was asked for, the last row of each server
  among those accepted, those in memory and those in the channel shows exactly what the state of that server
  records as emitted (its status, numbers, texts and players), whatever refreshes, moves, triggers, force pings
  and polls have happened, in any interleaving.
\<close>

theorem service_knows_each_server:
  assumes "reachable (system_start (collector_cfg S) w0 now)
      (\<lambda>s t. system_step X G S A s t \<and> roomy (collector_cfg S) s) s"
    and "wal_open (unat (buffer_max_bytes (collector_cfg S))) (unat (buffer_segment_max_bytes (collector_cfg S))) w0 =
      (Inr u, w)"
    and "wal_ready X n w" and "oldest_completed w (wal_names (files w)) = None"
    and "auth_channel G (grpc_target (monitoring_cfg S)) (unwrap_or [] (api_token (monitoring_cfg S))) = Channel tg tk"
    and "\<And>e ps. A e \<Longrightarrow> ie_accepts e ps"
    and "\<forall>(target, own) \<in> p_fetched (sy_poller s). own = target"
    and "hm_get (p_states (sy_poller s)) k = Some st" and "has_emitted_state st"
    and "rows = filter (\<lambda>row. get_str ''server_id'' row = Some k)
      (concat (accepted (sy_ingest s)) @ buf (sy_ingest s) @ p_rows (sy_poller s))"
  shows "rows \<noteq> [] \<and> row_shows X (last rows) (last_obs st)"
proof -
  have r: "reachable (system_start (collector_cfg S) w0 now) (system_step X G S A) s"
    using assms(1) by (rule reachable_mono) simp
  have "concat (accepted (sy_ingest s)) @ buf (sy_ingest s) @ p_rows (sy_poller s) = sy_admitted s"
    by (rule system_delivers_in_order [OF r assms(2-6)])
  then have "rows = rows_of k (sy_admitted s)" using assms(10) by (simp add: rows_of_def)
  moreover have "backed X (sy_admitted s) k st"
    using view.reachable_inv [OF assms(1)] assms(7,8) by (simp add: view_inv_def all_backed_def named_truly_def)
  ultimately show ?thesis using assms(9) by (simp add: backed_def)
qed

theorem service_knows_each_server_witness:
  "\<exists>s st rows. reachable (system_start (collector_cfg (load demo_readers)) demo_wal 0)
       (\<lambda>s t. system_step demo_externals demo_toolkit (load demo_readers) accepting s t \<and>
          roomy (collector_cfg (load demo_readers)) s) s \<and>
     hm_get (p_states (sy_poller s)) ''srv-1'' = Some st \<and> has_emitted_state st \<and>
     rows = filter (\<lambda>row. get_str ''server_id'' row = Some ''srv-1'')
       (concat (accepted (sy_ingest s)) @ buf (sy_ingest s) @ p_rows (sy_poller s)) \<and>
     rows \<noteq> [] \<and> row_shows demo_externals (last rows) (last_obs st)"
proof -
  obtain s v st where s: "reachable (system_start (collector_cfg (load demo_readers)) demo_wal 0)
     (\<lambda>s t. system_step demo_externals demo_toolkit (load demo_readers) accepting s t \<and>
        roomy (collector_cfg (load demo_readers)) s) s"
    "p_fetched (sy_poller s) = {}" "hm_get (p_states (sy_poller s)) ''srv-1'' = Some st" "has_emitted_state st"
    using demo_system_roomy by blast
  obtain u w where w: "wal_open (unat (buffer_max_bytes (collector_cfg (load demo_readers))))
      (unat (buffer_segment_max_bytes (collector_cfg (load demo_readers)))) demo_wal = (Inr u, w)"
    "wal_ready demo_externals 0 w" "oldest_completed w (wal_names (files w)) = None"
    using demo_wal_opens by blast
  have "\<And>e ps. accepting e \<Longrightarrow> ie_accepts e ps" by (simp add: accepting_def)
  moreover have "\<forall>(target, own) \<in> p_fetched (sy_poller s). own = target" by (simp add: s(2))
  ultimately show ?thesis
    using service_knows_each_server [OF s(1) w demo_channel _ _ s(3,4) refl] s by blast
qed

end
