(* ===== verification/Metrics.thy ===== *)
theory Metrics
  imports Geo
begin

text \<open>
  \<open>src/src/metrics.rs\<close>: the metrics that are registered at start, each in a \<open>LazyLock\<close> of its own that
  unwraps the answer of the registry, and the address the exporter listens on. The registry is another
  crate: what it answers is a parameter. Beside it the one loop that writes gauges from the state of the
  poller (\<open>metrics_loop\<close> of \<open>src/src/collector.rs\<close>, \<open>update_metrics\<close> of \<open>src/src/geo.rs\<close>). The counters
  that the other components touch in passing are not modelled, since nothing reads them back.
\<close>

subsection \<open>The metrics\<close>

datatype metric_kind = Int_counter | Int_gauge | Float_gauge | Histogram "f64 list"

record metric_desc =
  md_name :: str
  md_help :: str
  md_labels :: "str list"
  md_kind :: metric_kind

text \<open>A static: its own name, and what its initializer registers.\<close>

record lazy_metric =
  lm_static :: str
  lm_desc :: metric_desc

definition lazy_metric :: "str \<Rightarrow> str \<Rightarrow> str \<Rightarrow> str list \<Rightarrow> metric_kind \<Rightarrow> lazy_metric" where
  "lazy_metric static name help labels kind =
     \<lparr>lm_static = static, lm_desc = \<lparr>md_name = name, md_help = help, md_labels = labels, md_kind = kind\<rparr>\<rparr>"

definition POLL_SUCCESS :: lazy_metric where
  "POLL_SUCCESS = lazy_metric ''POLL_SUCCESS''
     ''unverified_collector_poll_success_total''
     ''Successful status polls.''
     [''edition''] Int_counter"

definition POLL_FAILURE :: lazy_metric where
  "POLL_FAILURE = lazy_metric ''POLL_FAILURE''
     ''unverified_collector_poll_failure_total''
     ''Failed status polls.''
     [''edition''] Int_counter"

definition POLL_DURATION :: lazy_metric where
  "POLL_DURATION = lazy_metric ''POLL_DURATION''
     ''unverified_collector_poll_duration_seconds''
     ''Time spent polling a server.''
     [''edition''] Float_gauge"

definition POLL_INFLIGHT :: lazy_metric where
  "POLL_INFLIGHT = lazy_metric ''POLL_INFLIGHT''
     ''unverified_collector_poll_inflight''
     ''Active in-flight polls.''
     [] Int_gauge"

definition BEDROCK_PROBE_SUCCESS :: lazy_metric where
  "BEDROCK_PROBE_SUCCESS = lazy_metric ''BEDROCK_PROBE_SUCCESS''
     ''unverified_collector_bedrock_probe_success_total''
     ''Successful bedrock support probes.''
     [] Int_counter"

definition BEDROCK_PROBE_FAILURE :: lazy_metric where
  "BEDROCK_PROBE_FAILURE = lazy_metric ''BEDROCK_PROBE_FAILURE''
     ''unverified_collector_bedrock_probe_failure_total''
     ''Failed bedrock support probes.''
     [] Int_counter"

definition BEDROCK_PROBE_DURATION :: lazy_metric where
  "BEDROCK_PROBE_DURATION = lazy_metric ''BEDROCK_PROBE_DURATION''
     ''unverified_collector_bedrock_probe_duration_seconds''
     ''Time spent probing bedrock support.''
     [] Float_gauge"

definition BEDROCK_PROBE_INFLIGHT :: lazy_metric where
  "BEDROCK_PROBE_INFLIGHT = lazy_metric ''BEDROCK_PROBE_INFLIGHT''
     ''unverified_collector_bedrock_probe_inflight''
     ''Active in-flight bedrock probes.''
     [] Int_gauge"

definition INGEST_SUCCESS :: lazy_metric where
  "INGEST_SUCCESS = lazy_metric ''INGEST_SUCCESS''
     ''unverified_collector_ingest_success_total''
     ''Successful ingest batches.''
     [] Int_counter"

definition INGEST_FAILURE :: lazy_metric where
  "INGEST_FAILURE = lazy_metric ''INGEST_FAILURE''
     ''unverified_collector_ingest_failure_total''
     ''Failed ingest batches.''
     [] Int_counter"

definition INGEST_ROWS :: lazy_metric where
  "INGEST_ROWS = lazy_metric ''INGEST_ROWS''
     ''unverified_collector_ingest_rows_total''
     ''Rows forwarded to monitoring-service.''
     [] Int_counter"

definition INGEST_BATCH_SIZE_HISTOGRAM :: lazy_metric where
  "INGEST_BATCH_SIZE_HISTOGRAM = lazy_metric ''INGEST_BATCH_SIZE_HISTOGRAM''
     ''unverified_collector_ingest_batch_size''
     ''Batch sizes posted to monitoring-service.''
     [] (Histogram [1, 5, 10, 25, 50, 100, 200, 500, 1000])"

definition RESULT_QUEUE_DROPPED :: lazy_metric where
  "RESULT_QUEUE_DROPPED = lazy_metric ''RESULT_QUEUE_DROPPED''
     ''unverified_collector_result_queue_dropped_total''
     ''Payloads dropped because the result queue was full.''
     [] Int_counter"

definition SERVERS_TOTAL :: lazy_metric where
  "SERVERS_TOTAL = lazy_metric ''SERVERS_TOTAL''
     ''unverified_collector_servers_total''
     ''Servers tracked by the scheduler.''
     [] Int_gauge"

definition WORK_QUEUE_SIZE :: lazy_metric where
  "WORK_QUEUE_SIZE = lazy_metric ''WORK_QUEUE_SIZE''
     ''unverified_collector_work_queue_size''
     ''Work queue size.''
     [] Int_gauge"

definition RESULT_QUEUE_SIZE :: lazy_metric where
  "RESULT_QUEUE_SIZE = lazy_metric ''RESULT_QUEUE_SIZE''
     ''unverified_collector_result_queue_size''
     ''Result queue size.''
     [] Int_gauge"

definition GEO_CACHE_SIZE :: lazy_metric where
  "GEO_CACHE_SIZE = lazy_metric ''GEO_CACHE_SIZE''
     ''unverified_collector_geo_cache_size''
     ''Geo cache size.''
     [] Int_gauge"

definition GEO_REFRESH_INFLIGHT :: lazy_metric where
  "GEO_REFRESH_INFLIGHT = lazy_metric ''GEO_REFRESH_INFLIGHT''
     ''unverified_collector_geo_refresh_inflight''
     ''Geo lookups currently in progress.''
     [] Int_gauge"

definition SERVER_LIST_REFRESH_SUCCESS :: lazy_metric where
  "SERVER_LIST_REFRESH_SUCCESS = lazy_metric ''SERVER_LIST_REFRESH_SUCCESS''
     ''unverified_collector_server_list_refresh_success_total''
     ''Successful server catalog refreshes.''
     [] Int_counter"

definition SERVER_LIST_REFRESH_FAILURE :: lazy_metric where
  "SERVER_LIST_REFRESH_FAILURE = lazy_metric ''SERVER_LIST_REFRESH_FAILURE''
     ''unverified_collector_server_list_refresh_failure_total''
     ''Failed server catalog refreshes.''
     [] Int_counter"

definition SERVER_LIST_REFRESH_DURATION :: lazy_metric where
  "SERVER_LIST_REFRESH_DURATION = lazy_metric ''SERVER_LIST_REFRESH_DURATION''
     ''unverified_collector_server_list_refresh_duration_seconds''
     ''Time spent refreshing the server catalog.''
     [] Float_gauge"

definition BUFFER_BYTES :: lazy_metric where
  "BUFFER_BYTES = lazy_metric ''BUFFER_BYTES''
     ''unverified_collector_buffer_bytes''
     ''Current WAL buffer size on disk in bytes.''
     [] Int_gauge"

definition BUFFER_SEGMENTS :: lazy_metric where
  "BUFFER_SEGMENTS = lazy_metric ''BUFFER_SEGMENTS''
     ''unverified_collector_buffer_segments''
     ''Current number of WAL segment files.''
     [] Int_gauge"

definition BUFFER_WRITES :: lazy_metric where
  "BUFFER_WRITES = lazy_metric ''BUFFER_WRITES''
     ''unverified_collector_buffer_writes_total''
     ''Batches written to WAL buffer.''
     [] Int_counter"

definition BUFFER_DRAINED :: lazy_metric where
  "BUFFER_DRAINED = lazy_metric ''BUFFER_DRAINED''
     ''unverified_collector_buffer_drained_total''
     ''WAL segments successfully drained and deleted.''
     [] Int_counter"

definition BUFFER_EVICTED :: lazy_metric where
  "BUFFER_EVICTED = lazy_metric ''BUFFER_EVICTED''
     ''unverified_collector_buffer_evicted_total''
     ''WAL segments evicted because buffer exceeded max size.''
     [] Int_counter"

definition all_metrics :: "lazy_metric list" where
  "all_metrics =
     [POLL_SUCCESS, POLL_FAILURE, POLL_DURATION, POLL_INFLIGHT, BEDROCK_PROBE_SUCCESS,
      BEDROCK_PROBE_FAILURE, BEDROCK_PROBE_DURATION, BEDROCK_PROBE_INFLIGHT, INGEST_SUCCESS,
      INGEST_FAILURE, INGEST_ROWS, INGEST_BATCH_SIZE_HISTOGRAM, RESULT_QUEUE_DROPPED, SERVERS_TOTAL,
      WORK_QUEUE_SIZE, RESULT_QUEUE_SIZE, GEO_CACHE_SIZE, GEO_REFRESH_INFLIGHT,
      SERVER_LIST_REFRESH_SUCCESS, SERVER_LIST_REFRESH_FAILURE, SERVER_LIST_REFRESH_DURATION,
      BUFFER_BYTES, BUFFER_SEGMENTS, BUFFER_WRITES, BUFFER_DRAINED, BUFFER_EVICTED]"

lemmas metric_defs =
  POLL_SUCCESS_def POLL_FAILURE_def POLL_DURATION_def POLL_INFLIGHT_def BEDROCK_PROBE_SUCCESS_def
  BEDROCK_PROBE_FAILURE_def BEDROCK_PROBE_DURATION_def BEDROCK_PROBE_INFLIGHT_def INGEST_SUCCESS_def
  INGEST_FAILURE_def INGEST_ROWS_def INGEST_BATCH_SIZE_HISTOGRAM_def RESULT_QUEUE_DROPPED_def
  SERVERS_TOTAL_def WORK_QUEUE_SIZE_def RESULT_QUEUE_SIZE_def GEO_CACHE_SIZE_def
  GEO_REFRESH_INFLIGHT_def SERVER_LIST_REFRESH_SUCCESS_def SERVER_LIST_REFRESH_FAILURE_def
  SERVER_LIST_REFRESH_DURATION_def BUFFER_BYTES_def BUFFER_SEGMENTS_def BUFFER_WRITES_def
  BUFFER_DRAINED_def BUFFER_EVICTED_def

subsection \<open>Initialization\<close>

text \<open>
  The registry and the statics that have been forced. Forcing a static a second time does nothing; a
  registration that is refused is a panic (\<^const>\<open>None\<close>).
\<close>

record 'r metrics =
  registry :: 'r
  forced :: "str set"

definition force_metric :: "('r \<Rightarrow> metric_desc \<Rightarrow> 'r option) \<Rightarrow> lazy_metric \<Rightarrow> 'r metrics \<Rightarrow> 'r metrics option" where
  "force_metric register lm s =
     (if lm_static lm \<in> forced s then Some s
      else case register (registry s) (lm_desc lm) of
        None \<Rightarrow> None
      | Some r \<Rightarrow> Some (s\<lparr>registry := r, forced := insert (lm_static lm) (forced s)\<rparr>))"

fun force_metrics :: "('r \<Rightarrow> metric_desc \<Rightarrow> 'r option) \<Rightarrow> lazy_metric list \<Rightarrow> 'r metrics \<Rightarrow> 'r metrics option" where
  "force_metrics register [] s = Some s"
| "force_metrics register (lm # lms) s =
     (case force_metric register lm s of
        None \<Rightarrow> None
      | Some s' \<Rightarrow> force_metrics register lms s')"

definition metrics_init :: "('r \<Rightarrow> metric_desc \<Rightarrow> 'r option) \<Rightarrow> 'r metrics \<Rightarrow> 'r metrics option" where
  "metrics_init register s = force_metrics register all_metrics s"

text \<open>
  What the registry is documented to check: the name, the help text, the names of the labels, the order of
  the buckets, and that the name is new.
\<close>

definition name_start :: "char \<Rightarrow> bool" where
  "name_start c \<longleftrightarrow> c \<in> set ''abcdefghijklmnopqrstuvwxyzABCDEFGHIJKLMNOPQRSTUVWXYZ_''"

definition label_name_ok :: "str \<Rightarrow> bool" where
  "label_name_ok s \<longleftrightarrow> (case s of [] \<Rightarrow> False | c # r \<Rightarrow> name_start c \<and> list_all (\<lambda>c. name_start c \<or> is_digit c) r)"

definition metric_name_ok :: "str \<Rightarrow> bool" where
  "metric_name_ok s \<longleftrightarrow> (case s of [] \<Rightarrow> False
     | c # r \<Rightarrow> (name_start c \<or> c = CHR '':'') \<and> list_all (\<lambda>c. name_start c \<or> is_digit c \<or> c = CHR '':'') r)"

definition desc_ok :: "metric_desc \<Rightarrow> bool" where
  "desc_ok d \<longleftrightarrow> metric_name_ok (md_name d) \<and> md_help d \<noteq> [] \<and> list_all label_name_ok (md_labels d) \<and>
     distinct (md_labels d) \<and> (case md_kind d of Histogram bs \<Rightarrow> sorted_wrt (<) bs | _ \<Rightarrow> True)"

definition registers_new :: "('r \<Rightarrow> metric_desc \<Rightarrow> 'r option) \<Rightarrow> ('r \<Rightarrow> str set) \<Rightarrow> bool" where
  "registers_new register taken \<longleftrightarrow>
     (\<forall>r d. desc_ok d \<and> md_name d \<notin> taken r \<longrightarrow>
        (\<exists>r'. register r d = Some r' \<and> taken r' = insert (md_name d) (taken r)))"

abbreviation metric_name :: "lazy_metric \<Rightarrow> str" where
  "metric_name lm \<equiv> md_name (lm_desc lm)"

lemma force_metrics_new:
  assumes "registers_new register taken" and "list_all (\<lambda>lm. desc_ok (lm_desc lm)) lms"
    and "distinct (map lm_static lms)" and "distinct (map metric_name lms)"
    and "forced s \<inter> lm_static ` set lms = {}" and "taken (registry s) \<inter> metric_name ` set lms = {}"
  shows "\<exists>s'. force_metrics register lms s = Some s' \<and> forced s' = forced s \<union> lm_static ` set lms \<and>
    taken (registry s') = taken (registry s) \<union> metric_name ` set lms"
  using assms(2-)
proof (induction lms arbitrary: s)
  case (Cons lm lms)
  have "desc_ok (lm_desc lm) \<and> metric_name lm \<notin> taken (registry s)"
    using Cons.prems(1,5) by simp
  then obtain r where r: "register (registry s) (lm_desc lm) = Some r"
    "taken r = insert (metric_name lm) (taken (registry s))"
    using assms(1) unfolding registers_new_def by blast
  let ?s = "s\<lparr>registry := r, forced := insert (lm_static lm) (forced s)\<rparr>"
  have new: "lm_static lm \<notin> forced s" using Cons.prems(4) by simp
  have "\<exists>s'. force_metrics register lms ?s = Some s' \<and> forced s' = forced ?s \<union> lm_static ` set lms \<and>
      taken (registry s') = taken (registry ?s) \<union> metric_name ` set lms"
  proof (rule Cons.IH)
    show "list_all (\<lambda>lm. desc_ok (lm_desc lm)) lms" using Cons.prems(1) by simp
    show "distinct (map lm_static lms)" using Cons.prems(2) by simp
    show "distinct (map metric_name lms)" using Cons.prems(3) by simp
    show "forced ?s \<inter> lm_static ` set lms = {}" using Cons.prems(2,4) by simp
    show "taken (registry ?s) \<inter> metric_name ` set lms = {}" using Cons.prems(3,5) r(2) by simp
  qed
  then show ?case using r new by (simp add: force_metric_def)
qed simp

lemma force_metrics_again:
  "lm_static ` set lms \<subseteq> forced s \<Longrightarrow> force_metrics register lms s = Some s"
  by (induction lms) (simp_all add: force_metric_def)

lemma all_metrics_ok:
  "list_all (\<lambda>lm. desc_ok (lm_desc lm)) all_metrics" "distinct (map lm_static all_metrics)"
  "distinct (map metric_name all_metrics)"
  by (simp_all add: all_metrics_def metric_defs lazy_metric_def desc_ok_def metric_name_ok_def label_name_ok_def
      name_start_def is_digit_def)

text \<open>
  The process does not die of its metrics: on a registry that takes every valid metric of a new name,
  the initialization registers all of them, each once; done a second time it changes nothing.
\<close>

theorem metrics_init_registers_all:
  assumes "registers_new register taken" and "forced s = {}"
    and "taken (registry s) \<inter> metric_name ` set all_metrics = {}"
  shows "\<exists>s'. metrics_init register s = Some s' \<and>
    taken (registry s') = taken (registry s) \<union> metric_name ` set all_metrics \<and>
    card (metric_name ` set all_metrics) = 26 \<and> metrics_init register s' = Some s'"
proof -
  obtain s' where s': "force_metrics register all_metrics s = Some s'"
    "forced s' = lm_static ` set all_metrics"
    "taken (registry s') = taken (registry s) \<union> metric_name ` set all_metrics"
    using force_metrics_new [OF assms(1) all_metrics_ok, of s] assms(2,3) by auto
  have "card (set (map metric_name all_metrics)) = length (map metric_name all_metrics)"
    by (rule distinct_card [OF all_metrics_ok(3)])
  then have "card (metric_name ` set all_metrics) = 26" by (simp add: all_metrics_def)
  with s' force_metrics_again [of all_metrics s' register] show ?thesis by (simp add: metrics_init_def)
qed

text \<open>A registry that keeps the names.\<close>

definition demo_register :: "str list \<Rightarrow> metric_desc \<Rightarrow> str list option" where
  "demo_register r d = (if desc_ok d \<and> md_name d \<notin> set r then Some (md_name d # r) else None)"

theorem metrics_init_registers_all_witness:
  "\<exists>s'. metrics_init demo_register \<lparr>registry = [''process_start_time_seconds''], forced = {}\<rparr> = Some s' \<and>
     ''unverified_collector_buffer_bytes'' \<in> set (registry s')"
proof -
  let ?s = "\<lparr>registry = [''process_start_time_seconds''], forced = {}\<rparr> :: str list metrics"
  have "registers_new demo_register set" by (simp add: registers_new_def demo_register_def)
  moreover have "forced ?s = {}" by simp
  moreover have "set (registry ?s) \<inter> metric_name ` set all_metrics = {}"
    by (simp add: all_metrics_def metric_defs lazy_metric_def)
  ultimately obtain s' where s': "metrics_init demo_register ?s = Some s'"
    "set (registry s') = set (registry ?s) \<union> metric_name ` set all_metrics"
    using metrics_init_registers_all by blast
  have "BUFFER_BYTES \<in> set all_metrics" by (simp add: all_metrics_def)
  then have "metric_name BUFFER_BYTES \<in> set (registry s')" using s'(2) by blast
  then show ?thesis using s'(1) by (simp add: BUFFER_BYTES_def lazy_metric_def)
qed

subsection \<open>The address of the exporter\<close>

text \<open>
  \<open>"{host}:{port}"\<close> read as a \<open>SocketAddr\<close>: an IPv4 address, or an IPv6 address in brackets with an
  optional scope, and the port. The readers are those of \<open>core::net::parser\<close>, as in \<open>Rust_Std\<close>.
\<close>

definition read_char :: "char \<Rightarrow> str \<Rightarrow> str option" where
  "read_char c s = (case s of [] \<Rightarrow> None | d # r \<Rightarrow> if d = c then Some r else None)"

definition read_port :: "str \<Rightarrow> str option" where
  "read_port s = Option.bind (read_char (CHR '':'') s) (\<lambda>r. read_number 10 (length r) True 65535 r)"

definition read_scope_id :: "str \<Rightarrow> str option" where
  "read_scope_id s = Option.bind (read_char (CHR ''%'') s) (\<lambda>r. read_number 10 (length r) True (2 ^ 32 - 1) r)"

definition read_socket_addr_v4 :: "str \<Rightarrow> str option" where
  "read_socket_addr_v4 s = Option.bind (read_ipv4 s) read_port"

definition read_socket_addr_v6 :: "str \<Rightarrow> str option" where
  "read_socket_addr_v6 s =
     Option.bind (read_char (CHR ''['') s) (\<lambda>r.
     Option.bind (read_ipv6 r) (\<lambda>r.
     Option.bind (read_char (CHR '']'') (unwrap_or r (read_scope_id r))) read_port))"

definition is_socket_addr :: "str \<Rightarrow> bool" where
  "is_socket_addr s =
     (case read_socket_addr_v4 s of
        Some r \<Rightarrow> r = []
      | None \<Rightarrow> (case read_socket_addr_v6 s of Some r \<Rightarrow> r = [] | None \<Rightarrow> False))"

definition metrics_addr :: "str \<Rightarrow> u16 \<Rightarrow> str" where
  "metrics_addr h p =
     (let addr = h @ '':'' @ show_u16 p in
      if is_socket_addr addr then addr else ''0.0.0.0:'' @ show_u16 p)"

lemma read_number_append:
  assumes "read_number radix m z limit s = Some t" and "u \<noteq> []" and "\<not> digit_of radix (hd u)"
  shows "read_number radix m z limit (s @ u) = Some (t @ u)"
proof -
  have t: "takeWhile (digit_of radix) (s @ u) = takeWhile (digit_of radix) s"
    using assms(2,3) by (cases u) (auto simp: takeWhile_append takeWhile_eq_all_conv [THEN iffD2])
  have "s \<noteq> []" using assms(1) by (auto simp: read_number_def)
  then have "take 1 (s @ u) = take 1 s" by (cases s) simp_all
  moreover have "length (takeWhile (digit_of radix) s) \<le> length s" by (rule length_takeWhile_le)
  ultimately show ?thesis
    using assms(1) unfolding read_number_def t by (auto simp: Let_def split: if_splits)
qed

lemma read_octets_append:
  assumes "read_octets i k s = Some t" and "u \<noteq> []" and "\<not> digit_of 10 (hd u)"
  shows "read_octets i k (s @ u) = Some (t @ u)"
  using assms(1)
proof (induction i k s rule: read_octets.induct)
  case (2 i k s)
  then obtain r where r: "read_separator (CHR ''.'') i (read_number 10 3 False 255) s = Some r" "read_octets (Suc i) k r = Some t"
    by (auto split: option.splits)
  then have "read_separator (CHR ''.'') i (read_number 10 3 False 255) (s @ u) = Some (r @ u)"
    by (auto simp: read_separator_def read_number_append [OF _ assms(2,3)] split: if_splits list.splits)
  then show ?case using 2 r by simp
qed simp

lemma hex_digit_char: "d < 10 \<Longrightarrow> hex_value (digit_char d) = Some d"
  using of_char_digit_char [of d] by (simp add: hex_value_def Let_def)

lemma show_nat_value:
  "list_all (digit_of 10) (show_nat n) \<and> foldl (\<lambda>n c. 10 * n + the (hex_value c)) 0 (show_nat n) = n"
proof (induction n rule: show_nat.induct)
  case (1 n)
  then show ?case by (cases "n < 10") (simp_all add: show_nat.simps [of n] hex_digit_char digit_of_def)
qed

lemma read_number_show:
  assumes "n \<le> limit"
  shows "read_number 10 (length (show_nat n)) True limit (show_nat n) = Some []"
proof -
  have t: "takeWhile (digit_of 10) (show_nat n) = show_nat n"
    using show_nat_value [of n] by (simp add: takeWhile_eq_all_conv list_all_iff)
  show ?thesis using assms show_nat_value [of n] unfolding read_number_def t by simp
qed

text \<open>
  The exporter listens on the address that is configured when that is an IPv4 address, and on every
  interface when it is a host name, or any other text that begins neither with a digit nor with a bracket.
\<close>

theorem metrics_addr_cases:
  "(read_ipv4 h = Some [] \<longrightarrow> metrics_addr h p = h @ '':'' @ show_u16 p) \<and>
   (h = [] \<or> \<not> digit_of 10 (hd h) \<and> hd h \<noteq> CHR ''['' \<longrightarrow> metrics_addr h p = ''0.0.0.0:'' @ show_u16 p)"
proof (intro conjI impI)
  assume "read_ipv4 h = Some []"
  moreover have "\<not> digit_of 10 (CHR '':'')" by (simp add: digit_of_def hex_value_def)
  ultimately have "read_ipv4 (h @ '':'' @ show_u16 p) = Some ('':'' @ show_u16 p)"
    using read_octets_append [of 0 4 h "[]" "'':'' @ show_u16 p"] by (simp add: read_ipv4_def)
  moreover have "unat p \<le> 65535" using unsigned_less [of p, where 'a = nat] by simp
  then have "read_port ('':'' @ show_u16 p) = Some []"
    by (simp add: read_port_def read_char_def show_u16_def read_number_show)
  ultimately show "metrics_addr h p = h @ '':'' @ show_u16 p"
    by (simp add: metrics_addr_def is_socket_addr_def read_socket_addr_v4_def)
next
  assume h: "h = [] \<or> \<not> digit_of 10 (hd h) \<and> hd h \<noteq> CHR ''[''"
  let ?s = "h @ '':'' @ show_u16 p"
  have hd: "\<not> digit_of 10 (hd ?s)" "hd ?s \<noteq> CHR ''[''"
    using h by (auto simp: hd_append digit_of_def hex_value_def)
  then obtain c r where s: "?s = c # r" by (cases ?s) auto
  have c: "\<not> digit_of 10 c" "c \<noteq> CHR ''[''" using hd unfolding s by simp_all
  then have "read_ipv4 ?s = None"
    unfolding s by (simp add: read_ipv4_def read_separator_def read_number_def)
  moreover have "read_socket_addr_v6 ?s = None"
    unfolding s using c by (simp add: read_socket_addr_v6_def read_char_def)
  ultimately show "metrics_addr h p = ''0.0.0.0:'' @ show_u16 p"
    by (simp add: metrics_addr_def is_socket_addr_def read_socket_addr_v4_def)
qed

theorem metrics_addr_cases_witness:
  "metrics_addr ''127.0.0.1'' 9100 = ''127.0.0.1:'' @ show_u16 9100 \<and>
   metrics_addr ''localhost'' 9100 = ''0.0.0.0:'' @ show_u16 9100 \<and>
   metrics_addr ''::1'' 9100 = ''0.0.0.0:'' @ show_u16 9100"
  using metrics_addr_cases [of "''127.0.0.1''" 9100] metrics_addr_cases [of "''localhost''" 9100]
    metrics_addr_cases [of "''::1''" 9100]
  by (simp add: ip_defs)

subsection \<open>The gauges\<close>

text \<open>
  \<open>metrics_loop\<close> turns until the process ends; each turn reads the number of tracked servers and the size of
  the geolocation cache. An interval that is no \<open>Duration\<close> is a panic before the first turn.
\<close>

record gauges =
  servers_total :: i64
  geo_cache_size :: i64

definition update_metrics :: "geo_cache \<Rightarrow> gauges \<Rightarrow> gauges" where
  "update_metrics c g = g\<lparr>geo_cache_size := of_nat (length (geo_entries c))\<rparr>"

definition metrics_turn :: "(str, server_state) hash_map \<Rightarrow> geo_cache \<Rightarrow> gauges \<Rightarrow> gauges" where
  "metrics_turn m c g = update_metrics c (g\<lparr>servers_total := of_nat (length m)\<rparr>)"

definition metrics_loop ::
  "f64 \<Rightarrow> ((str, server_state) hash_map \<times> geo_cache) list \<Rightarrow> gauges \<Rightarrow> gauges option" where
  "metrics_loop update_seconds seen g =
     map_option (\<lambda>_. fold (\<lambda>(m, c) g. metrics_turn m c g) seen g) (duration_from_secs update_seconds)"

end
