(* ===== verification/Tasks.thy ===== *)
theory Tasks
  imports Sync Metrics
begin

text \<open>
  The loops of \<open>src/src/sync.rs\<close> around their turns: when they start to listen at all, how long they pause,
  and the loop over the discovery queue. Redis is another program: whether the client can be opened, whether it
  connects, and what each \<open>BLPOP\<close> and \<open>SET\<close> answers are arguments.
\<close>

subsection \<open>Setting up\<close>

record redis =
  redis_opens :: "str \<Rightarrow> bool"
  redis_connects :: "str \<Rightarrow> bool"

text \<open>
  The two queues are set up once, with the connection they keep. A loop that has no queue to listen to, or
  that does not get its connection, returns: \<^const>\<open>None\<close>.
\<close>

definition redis_connection :: "redis \<Rightarrow> str \<Rightarrow> bool" where
  "redis_connection R url \<longleftrightarrow> redis_opens R url \<and> redis_connects R url"

definition force_ping_start :: "redis \<Rightarrow> str \<Rightarrow> collector_settings \<Rightarrow> (str \<times> nat) option" where
  "force_ping_start R url C =
     (let queue_key = trim (force_ping_queue_key C) in
      if queue_key = [] \<or> \<not> redis_connection R url then None
      else Some (queue_key, pop_timeout (force_ping_pop_timeout_seconds C)))"

record discovery_queue =
  dq_key :: str
  dq_prefix :: str
  dq_ttl :: u64
  dq_pop_timeout :: nat

definition discovery_start :: "redis \<Rightarrow> str \<Rightarrow> collector_settings \<Rightarrow> discovery_queue option" where
  "discovery_start R url C =
     (let queue_key = trim (discovery_probe_queue_key C);
          result_prefix = trim (discovery_probe_result_key_prefix C) in
      if queue_key = [] \<or> result_prefix = [] \<or> \<not> redis_connection R url then None
      else Some \<lparr>dq_key = queue_key, dq_prefix = result_prefix, dq_ttl = max (discovery_probe_result_ttl_seconds C) 60,
        dq_pop_timeout = pop_timeout (force_ping_pop_timeout_seconds C)\<rparr>)"

text \<open>The pause of \<open>trigger_loop\<close>; a pause that is no \<open>Duration\<close> is a panic.\<close>

definition trigger_interval :: "collector_settings \<Rightarrow> f64 option" where
  "trigger_interval C = duration_from_secs (max (trigger_poll_seconds C) (1 / 2))"

text \<open>The pause after an answer of \<open>BLPOP\<close>.\<close>

definition pause_after :: "redis_reply \<Rightarrow> f64" where
  "pause_after reply = (case reply of Pop_error \<Rightarrow> 1 | _ \<Rightarrow> 0)"

lemma trigger_interval_range: "trigger_interval C = Some iv \<Longrightarrow> 1 / 2 \<le> iv"
  by (auto simp: trigger_interval_def duration_from_secs_def split: if_splits)

subsection \<open>The discovery loop\<close>

text \<open>
  What one turn of the loop meets. The cache of countries is shared with the workers, who may change it
  between two turns: \<open>dt_others\<close> is what they make of its entries (its settings never change).
\<close>

record probe_turn =
  dt_reply :: redis_reply
  dt_poll :: poll_env
  dt_geo :: geo_env
  dt_others :: "geo_cache \<Rightarrow> geo_cache"
  dt_collected_at :: str
  dt_probed_at :: str
  dt_elapsed_ms :: u64
  dt_set_ok :: bool

text \<open>
  The state of the loop: whether it still runs (a panic of the poll ends the task), the cache, and as histories
  the \<open>SET\<close>s that were sent, each with its answer, and the seconds the loop has paused.
\<close>

record discovery =
  dc_running :: bool
  dc_cache :: geo_cache
  dc_sets :: "((str \<times> u8 list \<times> u64) \<times> bool) list"
  dc_paused :: f64

definition cache_meanwhile :: "probe_turn \<Rightarrow> geo_cache \<Rightarrow> geo_cache" where
  "cache_meanwhile t c =
     c\<lparr>geo_entries := geo_entries (dt_others t c), dns_entries := dns_entries (dt_others t c)\<rparr>"

definition discovery_turn ::
  "externals \<Rightarrow> (str \<Rightarrow> probe_request option) \<Rightarrow> collector_settings \<Rightarrow> probe_turn \<Rightarrow> discovery \<Rightarrow> discovery" where
  "discovery_turn X decode C t s =
     (case discovery_probe_once X decode C (dt_poll t) (dt_geo t) (cache_meanwhile t (dc_cache s)) (dt_collected_at t)
             (dt_probed_at t) (dt_elapsed_ms t) (dt_reply t) of
        (outcome, cache') \<Rightarrow>
          s\<lparr>dc_running := outcome \<noteq> Probe_panics,
            dc_cache := cache',
            dc_sets := dc_sets s @ (case outcome of Answer a \<Rightarrow> [(a, dt_set_ok t)] | _ \<Rightarrow> []),
            dc_paused := dc_paused s + pause_after (dt_reply t)\<rparr>)"

fun discovery_turns ::
  "externals \<Rightarrow> (str \<Rightarrow> probe_request option) \<Rightarrow> collector_settings \<Rightarrow> probe_turn list \<Rightarrow> discovery \<Rightarrow> discovery" where
  "discovery_turns X decode C [] s = s"
| "discovery_turns X decode C (t # ts) s =
     (if dc_running s then discovery_turns X decode C ts (discovery_turn X decode C t s) else s)"

text \<open>The whole task; \<^const>\<open>None\<close> when it does not get to listen.\<close>

definition redis_discovery_probe_loop ::
  "externals \<Rightarrow> (str \<Rightarrow> probe_request option) \<Rightarrow> redis \<Rightarrow> str \<Rightarrow> collector_settings \<Rightarrow> probe_turn list \<Rightarrow> geo_cache
   \<Rightarrow> discovery option" where
  "redis_discovery_probe_loop X decode R url C ts cache =
     map_option (\<lambda>_. discovery_turns X decode C ts
         \<lparr>dc_running = True, dc_cache = cache, dc_sets = [], dc_paused = 0\<rparr>)
       (discovery_start R url C)"

text \<open>The answer to a request that has been accepted, with timeouts that are \<open>Duration\<close>s, and without.\<close>

lemma discovery_probe_once_accepted:
  assumes "accept_probe decode reply = Some req" and "\<And>v. json_to_vec X v \<noteq> None"
    and "duration_from_secs (status_timeout_seconds C) \<noteq> None" and "duration_from_secs (lookup_timeout cache) \<noteq> None"
  obtains body result cache' where
    "discovery_probe_once X decode C env genv cache t probed_at ms reply =
      (Answer (trim (discovery_probe_result_key_prefix C) @ pq_candidate_id req, body,
        max (discovery_probe_result_ttl_seconds C) 60), cache')"
    "json_to_vec X (probe_response req result probed_at ms) = Some body"
    "lookup_timeout cache' = lookup_timeout cache"
proof -
  obtain result cache' calls where p: "poll_server env genv cache t (pq_candidate_id req) (pq_host req) (pq_port req)
      (probe_edition (pq_edition req)) (status_timeout_seconds C) = (Some result, cache', calls)"
    by (rule poll_server_returns [OF assms(3,4)])
  obtain body where b: "json_to_vec X (probe_response req result probed_at ms) = Some body" using assms(2) by blast
  show ?thesis
    by (rule that [OF _ b poll_server_settings [OF p]]) (use assms(1) p b in \<open>simp add: discovery_probe_once_def\<close>)
qed

lemma discovery_probe_once_ignored:
  "accept_probe decode reply = None \<Longrightarrow>
   discovery_probe_once X decode C env genv cache t probed_at ms reply = (No_answer, cache)"
  by (simp add: discovery_probe_once_def)

lemma discovery_probe_once_panics:
  assumes "accept_probe decode reply = Some req" and "duration_from_secs (status_timeout_seconds C) = None"
  shows "fst (discovery_probe_once X decode C env genv cache t probed_at ms reply) = Probe_panics"
  using assms(1) poll_server_panics [OF assms(2), of env genv cache t "pq_candidate_id req" "pq_host req" "pq_port req"
      "probe_edition (pq_edition req)"]
  by (auto simp: discovery_probe_once_def split: prod.split)

lemma cache_meanwhile_timeout [simp]: "lookup_timeout (cache_meanwhile t c) = lookup_timeout c"
  by (simp add: cache_meanwhile_def)

definition answered_requests :: "(str \<Rightarrow> probe_request option) \<Rightarrow> probe_turn list \<Rightarrow> probe_request list" where
  "answered_requests decode ts = List.map_filter (\<lambda>t. accept_probe decode (dt_reply t)) ts"

text \<open>The answer \<open>a\<close> is the one for the request \<open>req\<close>.\<close>

definition answers_request :: "externals \<Rightarrow> collector_settings \<Rightarrow> probe_request \<Rightarrow> str \<times> u8 list \<times> u64 \<Rightarrow> bool" where
  "answers_request X C req a \<longleftrightarrow>
     (\<exists>result probed_at ms. fst a = trim (discovery_probe_result_key_prefix C) @ pq_candidate_id req \<and>
        json_to_vec X (probe_response req result probed_at ms) = Some (fst (snd a)) \<and> 60 \<le> snd (snd a))"

text \<open>A loop in good order: it runs, and the cache's timeout is a \<open>Duration\<close>.\<close>

definition discovery_ok :: "discovery \<Rightarrow> bool" where
  "discovery_ok s \<longleftrightarrow> dc_running s \<and> duration_from_secs (lookup_timeout (dc_cache s)) \<noteq> None"

lemma discovery_turn_sets:
  assumes "\<And>v. json_to_vec X v \<noteq> None" and "duration_from_secs (status_timeout_seconds C) \<noteq> None" and "discovery_ok s"
  shows "discovery_ok (discovery_turn X decode C t s) \<and>
    (\<exists>new. dc_sets (discovery_turn X decode C t s) = dc_sets s @ new \<and>
       list_all2 (answers_request X C) (answered_requests decode [t]) (map fst new))"
proof (cases "accept_probe decode (dt_reply t)")
  case None
  then show ?thesis
    using assms(3)
    by (auto simp: discovery_turn_def discovery_probe_once_ignored answered_requests_def List.map_filter_def discovery_ok_def)
next
  case (Some req)
  have "duration_from_secs (lookup_timeout (cache_meanwhile t (dc_cache s))) \<noteq> None"
    using assms(3) by (simp add: discovery_ok_def)
  from discovery_probe_once_accepted [OF Some assms(1,2) this]
  obtain body result cache' where d: "discovery_probe_once X decode C (dt_poll t) (dt_geo t)
      (cache_meanwhile t (dc_cache s)) (dt_collected_at t) (dt_probed_at t) (dt_elapsed_ms t) (dt_reply t) =
      (Answer (trim (discovery_probe_result_key_prefix C) @ pq_candidate_id req, body,
        max (discovery_probe_result_ttl_seconds C) 60), cache')"
    "json_to_vec X (probe_response req result (dt_probed_at t) (dt_elapsed_ms t)) = Some body"
    "lookup_timeout cache' = lookup_timeout (cache_meanwhile t (dc_cache s))"
    by metis
  have "answers_request X C req (trim (discovery_probe_result_key_prefix C) @ pq_candidate_id req, body,
      max (discovery_probe_result_ttl_seconds C) 60)"
    using d(2) by (auto simp: answers_request_def)
  then show ?thesis
    using assms(3) d(3) by (auto simp: discovery_turn_def d(1) answered_requests_def List.map_filter_def Some discovery_ok_def)
qed

lemma answered_requests_Cons: "answered_requests decode (t # ts) = answered_requests decode [t] @ answered_requests decode ts"
  by (simp add: answered_requests_def List.map_filter_def)

lemma discovery_turns_sets:
  assumes "\<And>v. json_to_vec X v \<noteq> None" and "duration_from_secs (status_timeout_seconds C) \<noteq> None"
  shows "discovery_ok s \<Longrightarrow> dc_running (discovery_turns X decode C ts s) \<and>
    (\<exists>new. dc_sets (discovery_turns X decode C ts s) = dc_sets s @ new \<and>
       list_all2 (answers_request X C) (answered_requests decode ts) (map fst new))"
proof (induction ts arbitrary: s)
  case Nil
  then show ?case by (simp add: answered_requests_def List.map_filter_def discovery_ok_def)
next
  case (Cons t ts)
  have run: "dc_running s" using Cons.prems by (simp add: discovery_ok_def)
  obtain n1 where n1: "dc_sets (discovery_turn X decode C t s) = dc_sets s @ n1"
    "list_all2 (answers_request X C) (answered_requests decode [t]) (map fst n1)"
    and ok: "discovery_ok (discovery_turn X decode C t s)"
    using discovery_turn_sets [OF assms Cons.prems] by blast
  obtain n2 where n2: "dc_sets (discovery_turns X decode C ts (discovery_turn X decode C t s)) = dc_sets (discovery_turn X decode C t s) @ n2"
    "list_all2 (answers_request X C) (answered_requests decode ts) (map fst n2)"
    and r: "dc_running (discovery_turns X decode C ts (discovery_turn X decode C t s))"
    using Cons.IH [OF ok] by blast
  have "\<exists>new. dc_sets (discovery_turns X decode C (t # ts) s) = dc_sets s @ new \<and>
      list_all2 (answers_request X C) (answered_requests decode (t # ts)) (map fst new)"
    by (rule exI [of _ "n1 @ n2"])
      (use run n1 n2 in \<open>simp add: answered_requests_Cons [of decode t ts] list_all2_appendI\<close>)
  with r run show ?case by simp
qed

text \<open>
  C27: With timeouts that are \<open>Duration\<close>s the discovery loop answers every valid request, once and in the order of
  the queue, under the key made of the prefix and the candidate and for at least a minute, and it keeps running:
  failing pops, timeouts, and requests that cannot be read or name no candidate or no host neither end it nor
  cost another request its answer, and neither do answers that Redis does not take.
\<close>

theorem discovery_loop_answers:
  assumes "redis_discovery_probe_loop X decode R url C ts cache = Some s" and "\<And>v. json_to_vec X v \<noteq> None"
    and "duration_from_secs (status_timeout_seconds C) \<noteq> None" and "duration_from_secs (lookup_timeout cache) \<noteq> None"
  shows "dc_running s \<and>
    list_all2 (answers_request X C) (List.map_filter (\<lambda>t. accept_probe decode (dt_reply t)) ts) (map fst (dc_sets s))"
proof -
  let ?s = "\<lparr>dc_running = True, dc_cache = cache, dc_sets = [], dc_paused = 0\<rparr>"
  have s: "s = discovery_turns X decode C ts ?s" using assms(1) by (auto simp: redis_discovery_probe_loop_def)
  have "discovery_ok ?s" using assms(4) by (simp add: discovery_ok_def)
  from discovery_turns_sets [OF assms(2,3) this, of decode ts] show ?thesis by (auto simp: s answered_requests_def)
qed

definition demo_discovery_turn :: "redis_reply \<Rightarrow> probe_turn" where
  "demo_discovery_turn reply = \<lparr>dt_reply = reply, dt_poll = demo_poll_env, dt_geo = demo_geo_env 0, dt_others = id,
     dt_collected_at = ''now'', dt_probed_at = ''now'', dt_elapsed_ms = 3, dt_set_ok = False\<rparr>"

definition demo_redis :: redis where
  "demo_redis = \<lparr>redis_opens = (\<lambda>_. True), redis_connects = (\<lambda>_. True)\<rparr>"

lemma demo_discovery_names:
  "trim ''leavepulse:discovery:probe-request'' = ''leavepulse:discovery:probe-request''"
  "trim ''leavepulse:discovery:probe-result:'' = ''leavepulse:discovery:probe-result:''"
  by (rule trim_ends; simp add: is_whitespace_def)+

theorem discovery_loop_answers_witness:
  "\<exists>s a. redis_discovery_probe_loop (demo_externals\<lparr>json_to_vec := \<lambda>_. Some []\<rparr>) (\<lambda>_. Some demo_request) demo_redis
     ''redis'' demo_settings (map demo_discovery_turn [Pop_error, Popped ''x'', Pop_timeout]) demo_geo_cache = Some s \<and>
     dc_running s \<and> dc_sets s = [a] \<and> fst (fst a) = trim (discovery_probe_result_key_prefix demo_settings) @ ''c1''"
proof -
  let ?X = "demo_externals\<lparr>json_to_vec := \<lambda>_. Some []\<rparr>"
  let ?ts = "map demo_discovery_turn [Pop_error, Popped ''x'', Pop_timeout]"
  have t: "trim ''x'' = ''x''" "trim ''c1'' = ''c1''" "trim ''mc.example.org'' = ''mc.example.org''"
    by (rule trim_ends; simp add: is_whitespace_def)+
  obtain s where s: "redis_discovery_probe_loop ?X (\<lambda>_. Some demo_request) demo_redis ''redis'' demo_settings ?ts demo_geo_cache = Some s"
    by (simp add: redis_discovery_probe_loop_def discovery_start_def redis_connection_def demo_redis_def Let_def
        demo_settings_def load_collector_def demo_readers_def chain_def demo_discovery_names)
  have "List.map_filter (\<lambda>t. accept_probe (\<lambda>_. Some demo_request) (dt_reply t)) ?ts = [demo_request]"
    by (simp add: List.map_filter_def demo_discovery_turn_def accept_probe_def ping_target_def demo_request_def Let_def t)
  with discovery_loop_answers [OF s _ demo_status_timeout demo_geo_cache_timeout]
  obtain a where run: "dc_running s" and a: "dc_sets s = [a]" "answers_request ?X demo_settings demo_request (fst a)"
    by (auto simp: list_all2_Cons1)
  then have "fst (fst a) = trim (discovery_probe_result_key_prefix demo_settings) @ ''c1''"
    by (auto simp: answers_request_def demo_request_def)
  with s run a(1) show ?thesis by blast
qed

text \<open>One turn, and all turns, under a status timeout that is no \<open>Duration\<close>.\<close>

lemma bad_timeout_turn:
  assumes "duration_from_secs (status_timeout_seconds C) = None" and "dc_sets s = []" and "dc_running s"
  shows "dc_sets (discovery_turn X decode C t s) = [] \<and>
    (dc_running (discovery_turn X decode C t s) \<longleftrightarrow> answered_requests decode [t] = [])"
proof (cases "accept_probe decode (dt_reply t)")
  case None
  then show ?thesis
    using assms(2) by (simp add: discovery_turn_def discovery_probe_once_ignored answered_requests_def List.map_filter_def)
next
  case (Some req)
  then show ?thesis
    using discovery_probe_once_panics [OF Some assms(1), of X "dt_poll t" "dt_geo t" "cache_meanwhile t (dc_cache s)"
        "dt_collected_at t" "dt_probed_at t" "dt_elapsed_ms t"] assms(2)
    by (auto simp: discovery_turn_def answered_requests_def List.map_filter_def split: prod.split)
qed

lemma bad_timeout_turns:
  "duration_from_secs (status_timeout_seconds C) = None \<Longrightarrow> dc_sets s = [] \<Longrightarrow> dc_running s \<Longrightarrow>
   dc_sets (discovery_turns X decode C ts s) = [] \<and>
   (dc_running (discovery_turns X decode C ts s) \<longleftrightarrow> answered_requests decode ts = [])"
proof (induction ts arbitrary: s)
  case (Cons t ts)
  note turn = bad_timeout_turn [OF Cons.prems, of X decode t]
  show ?case
  proof (cases "answered_requests decode [t] = []")
    case True
    with turn Cons.IH [OF Cons.prems(1), of "discovery_turn X decode C t s"] Cons.prems(3) show ?thesis
      by (simp add: answered_requests_Cons [of decode t ts])
  next
    case False
    with turn have "\<not> dc_running (discovery_turn X decode C t s)" by simp
    then have "discovery_turns X decode C ts (discovery_turn X decode C t s) = discovery_turn X decode C t s"
      by (cases ts) simp_all
    with turn False Cons.prems(3) show ?thesis by (simp add: answered_requests_Cons [of decode t ts])
  qed
qed (simp add: answered_requests_def List.map_filter_def)

text \<open>
  C35: A status timeout that is no \<open>Duration\<close> (a negative one, say) passes the checks made at start and ends the
  discovery task at the first valid request: no answer is ever sent, and the loop still runs only as long as no
  valid request has come.
\<close>

theorem bad_timeout_ends_discovery:
  assumes "redis_discovery_probe_loop X decode R url C ts cache = Some s"
    and "duration_from_secs (status_timeout_seconds C) = None"
  shows "dc_sets s = [] \<and> (dc_running s \<longleftrightarrow> (\<forall>t \<in> set ts. accept_probe decode (dt_reply t) = None))"
proof -
  let ?s = "\<lparr>dc_running = True, dc_cache = cache, dc_sets = [], dc_paused = 0\<rparr>"
  have s: "s = discovery_turns X decode C ts ?s" using assms(1) by (auto simp: redis_discovery_probe_loop_def)
  have "answered_requests decode ts = [] \<longleftrightarrow> (\<forall>t \<in> set ts. accept_probe decode (dt_reply t) = None)"
    by (induction ts) (auto simp: answered_requests_def List.map_filter_def)
  with bad_timeout_turns [OF assms(2), of ?s X decode ts] show ?thesis by (simp add: s)
qed

theorem bad_timeout_ends_discovery_witness:
  "\<exists>s. redis_discovery_probe_loop (demo_externals\<lparr>json_to_vec := \<lambda>_. Some []\<rparr>) (\<lambda>_. Some demo_request) demo_redis
     ''redis'' (demo_settings\<lparr>status_timeout_seconds := - 1\<rparr>)
     (map demo_discovery_turn [Pop_error, Popped ''x'', Pop_timeout, Popped ''x'']) demo_geo_cache = Some s \<and>
     dc_sets s = [] \<and> \<not> dc_running s"
proof -
  let ?X = "demo_externals\<lparr>json_to_vec := \<lambda>_. Some []\<rparr>"
  let ?C = "demo_settings\<lparr>status_timeout_seconds := - 1\<rparr>"
  let ?ts = "map demo_discovery_turn [Pop_error, Popped ''x'', Pop_timeout, Popped ''x'']"
  obtain s where s: "redis_discovery_probe_loop ?X (\<lambda>_. Some demo_request) demo_redis ''redis'' ?C ?ts demo_geo_cache = Some s"
    by (simp add: redis_discovery_probe_loop_def discovery_start_def redis_connection_def demo_redis_def Let_def
        demo_settings_def load_collector_def demo_readers_def chain_def demo_discovery_names)
  have t: "trim ''x'' = ''x''" "trim ''c1'' = ''c1''" "trim ''mc.example.org'' = ''mc.example.org''"
    by (rule trim_ends; simp add: is_whitespace_def)+
  have "accept_probe (\<lambda>_. Some demo_request) (Popped ''x'') = Some demo_request"
    by (simp add: accept_probe_def ping_target_def demo_request_def Let_def t)
  then have "\<not> (\<forall>t \<in> set ?ts. accept_probe (\<lambda>_. Some demo_request) (dt_reply t) = None)"
    by (simp add: demo_discovery_turn_def)
  with bad_timeout_ends_discovery [OF s] s show ?thesis by (auto simp: duration_from_secs_def)
qed

end
