(* ===== verification/Process.thy ===== *)
theory Process
  imports View Tasks
begin

text \<open>
  The whole process: \<open>main\<close> (\<open>src/src/main.rs\<close>), \<open>run\<close> (\<open>src/src/collector.rs\<close>) and the tasks it spawns, with
  the catalog service, the trigger file and the force-ping queue (\<open>src/src/sync.rs\<close>) in the place of the
  arbitrary refreshes, triggers and force pings of \<open>Poller\<close>. A step is again one stretch of code under a lock
  or between two \<open>await\<close>s.
\<close>

subsection \<open>The tasks around the poller\<close>

text \<open>
  The trigger task: off, asleep until a time, with a text it has read, and with a text whose file it has
  tried to remove and the time it read then. The force-ping task: off, listening, or asking the catalog for a
  server it does not know, with the time it read before.
\<close>

datatype trigger_task = Trigger_off | Trigger_asleep f64 | Trigger_read str | Trigger_apply str f64

datatype force_task = Force_off | Force_listening | Force_fetching str f64

text \<open>
  Beside the tasks: the trigger file and the gauges. The refresh and the metrics task are asleep until a time, or
  have ended.
\<close>

record process =
  pc_system :: system
  pc_refresh :: "f64 option"
  pc_trigger :: trigger_task
  pc_file :: "str option"
  pc_force :: force_task
  pc_discovery :: "discovery_queue option"
  pc_exporter :: "str option"
  pc_metrics :: "f64 option"
  pc_gauges :: gauges

definition pc_poller :: "process \<Rightarrow> poller" where
  "pc_poller s = sy_poller (pc_system s)"

definition pc_states :: "process \<Rightarrow> states" where
  "pc_states s = p_states (pc_poller s)"

definition pc_clock :: "process \<Rightarrow> f64" where
  "pc_clock s = clock (p_sched (pc_poller s))"

text \<open>The identifiers under which fetched servers have been inserted.\<close>

definition pc_fetched :: "process \<Rightarrow> str set" where
  "pc_fetched s = fetched_keys (pc_poller s)"

text \<open>New states and the requests for them, under the lock.\<close>

definition on_states :: "states \<times> requests \<Rightarrow> process \<Rightarrow> process" where
  "on_states mr s = s\<lparr>pc_system := (pc_system s)\<lparr>sy_poller := with_requests mr (pc_poller s)\<rparr>\<rparr>"

text \<open>
  \<open>K\<close> says which answers of the catalog service are possible, \<open>A\<close> which of the monitoring service. A turn of
  the refresh task reads the catalog and applies it under the lock; when reading does not return, or the token
  is refused, the task is gone.
\<close>

inductive process_step ::
  "externals \<Rightarrow> grpc_toolkit \<Rightarrow> settings \<Rightarrow> (ingest_env \<Rightarrow> bool) \<Rightarrow> (catalog_service \<Rightarrow> bool) \<Rightarrow> process \<Rightarrow> process \<Rightarrow> bool"
  for X G S A K where
  works: "work_step X (collector_cfg S) (pc_poller s) p \<Longrightarrow> p_rows p = p_rows (pc_poller s) @ new \<Longrightarrow>
    process_step X G S A K s (s\<lparr>pc_system := (pc_system s)\<lparr>sy_poller := p, sy_admitted := sy_admitted (pc_system s) @ new\<rparr>\<rparr>)"
| ingests: "delivery_step X G S A (pc_system s) y \<Longrightarrow> process_step X G S A K s (s\<lparr>pc_system := y\<rparr>)"
| refreshes: "pc_refresh s = Some t \<Longrightarrow> t \<le> pc_clock s \<Longrightarrow> K svc \<Longrightarrow> now \<le> pc_clock s \<Longrightarrow>
    refresh_servers_once X G svc S draws now (pc_states s) = Some (ok, m', reqs) \<Longrightarrow>
    process_step X G S A K s
      (on_states (m', reqs) s\<lparr>pc_refresh := Some (pc_clock s + f64_of_u64 (refresh_delay (collector_cfg S) ok))\<rparr>)"
| refresh_lost: "pc_refresh s = Some t \<Longrightarrow> t \<le> pc_clock s \<Longrightarrow> K svc \<Longrightarrow>
    fetch_servers G svc (server_cfg S) (page_size (collector_cfg S)) = None \<Longrightarrow>
    process_step X G S A K s (s\<lparr>pc_refresh := None\<rparr>)"
| file_written: "process_step X G S A K s (s\<lparr>pc_file := Some content\<rparr>)"
| trigger_looks: "pc_trigger s = Trigger_asleep t \<Longrightarrow> t \<le> pc_clock s \<Longrightarrow> trigger_interval (collector_cfg S) = Some iv \<Longrightarrow>
    process_step X G S A K s (s\<lparr>pc_trigger := (case pc_file s of
       Some content \<Rightarrow> Trigger_read content | None \<Rightarrow> Trigger_asleep (pc_clock s + iv))\<rparr>)"
| trigger_removes: "pc_trigger s = Trigger_read content \<Longrightarrow>
    process_step X G S A K s (s\<lparr>pc_file := if remove_ok then None else pc_file s, pc_trigger := Trigger_apply content (pc_clock s)\<rparr>)"
| trigger_applies: "pc_trigger s = Trigger_apply content now \<Longrightarrow> trigger_interval (collector_cfg S) = Some iv \<Longrightarrow>
    process_step X G S A K s
      (on_states (trigger_targets now (parse_trigger_content X content) (pc_states s)) s
        \<lparr>pc_trigger := Trigger_asleep (pc_clock s + iv)\<rparr>)"
| force_known: "pc_force s = Force_listening \<Longrightarrow> ping_target reply = Some target \<Longrightarrow> now \<le> pc_clock s \<Longrightarrow>
    force_ping_known now target (pc_states s) = Some mr \<Longrightarrow> process_step X G S A K s (on_states mr s)"
| force_asks: "pc_force s = Force_listening \<Longrightarrow> ping_target reply = Some target \<Longrightarrow> now \<le> pc_clock s \<Longrightarrow>
    force_ping_known now target (pc_states s) = None \<Longrightarrow>
    process_step X G S A K s (s\<lparr>pc_force := Force_fetching target now\<rparr>)"
| force_inserts: "pc_force s = Force_fetching target now \<Longrightarrow> K svc \<Longrightarrow>
    fetch_server_by_id G svc (server_cfg S) target = Some (Some srv) \<Longrightarrow>
    process_step X G S A K s
      (s\<lparr>pc_system := (pc_system s)\<lparr>sy_poller := force_fetched X (collector_cfg S) d now target srv (pc_poller s)\<rparr>,
         pc_force := Force_listening\<rparr>)"
| force_unknown: "pc_force s = Force_fetching target now \<Longrightarrow> K svc \<Longrightarrow>
    fetch_server_by_id G svc (server_cfg S) target = Some None \<Longrightarrow>
    process_step X G S A K s (s\<lparr>pc_force := Force_listening\<rparr>)"
| force_lost: "pc_force s = Force_fetching target now \<Longrightarrow> K svc \<Longrightarrow>
    fetch_server_by_id G svc (server_cfg S) target = None \<Longrightarrow> process_step X G S A K s (s\<lparr>pc_force := Force_off\<rparr>)"
| measures: "pc_metrics s = Some t \<Longrightarrow> t \<le> pc_clock s \<Longrightarrow>
    process_step X G S A K s (s\<lparr>pc_gauges := metrics_turn (pc_states s) cache (pc_gauges s),
      pc_metrics := Some (pc_clock s + prom_update_seconds (prometheus_cfg S))\<rparr>)"

inductive_cases process_stepE: "process_step X G S A K s t"

subsection \<open>Start\<close>

text \<open>
  What the process meets when it starts: whether the HTTP client can be built, the channels to the services,
  the catalog at the first refresh with its draws and time, Redis, the disk, the file and the time the ingest
  task reads.
\<close>

record start_env =
  se_http_ok :: bool
  se_toolkit :: grpc_toolkit
  se_catalog :: catalog_service
  se_draws :: "nat \<Rightarrow> refresh_draws"
  se_now :: f64
  se_redis :: redis
  se_wal :: wal
  se_ingest_now :: f64
  se_file :: "str option"

text \<open>
  The bounds of tokio: a channel or a semaphore of more than \<open>usize::MAX >> 3\<close> permits is a panic, a channel
  of none as well. The number of permits is a 64-bit number.
\<close>

definition MAX_PERMITS :: nat where
  "MAX_PERMITS = 2 ^ 61 - 1"

definition channel_ok :: "nat \<Rightarrow> bool" where
  "channel_ok n \<longleftrightarrow> 0 < n \<and> n \<le> MAX_PERMITS"

text \<open>What \<open>run\<close> has set up when it goes to sleep; \<^const>\<open>None\<close> when it panics or never gets there.\<close>

definition spawn_tasks :: "start_env \<Rightarrow> settings \<Rightarrow> system \<Rightarrow> process" where
  "spawn_tasks E S y =
     (let C = collector_cfg S; now = clock (p_sched (sy_poller y)) in
      \<lparr>pc_system = y,
       pc_refresh = Some now,
       pc_trigger = (if trigger_file_path C = [] then Trigger_off
         else case trigger_interval C of Some _ \<Rightarrow> Trigger_asleep now | None \<Rightarrow> Trigger_off),
       pc_file = se_file E,
       pc_force = (if redis_enabled (redis_cfg S) \<and> force_ping_start (se_redis E) (redis_url (redis_cfg S)) C \<noteq> None
         then Force_listening else Force_off),
       pc_discovery = (if redis_enabled (redis_cfg S) then discovery_start (se_redis E) (redis_url (redis_cfg S)) C else None),
       pc_exporter = (if prom_enabled (prometheus_cfg S)
         then Some (metrics_addr (prom_host (prometheus_cfg S)) (prom_port (prometheus_cfg S))) else None),
       pc_metrics = (if prom_enabled (prometheus_cfg S)
         then map_option (\<lambda>_. now) (duration_from_secs (prom_update_seconds (prometheus_cfg S))) else None),
       pc_gauges = \<lparr>servers_total = 0, geo_cache_size = 0\<rparr>\<rparr>)"

definition run :: "externals \<Rightarrow> start_env \<Rightarrow> settings \<Rightarrow> process option" where
  "run X E S =
     (let C = collector_cfg S;
          y = system_new C (se_wal E) (se_ingest_now E);
          p = (sy_poller y)\<lparr>p_sched := (p_sched (sy_poller y))\<lparr>clock := se_now E\<rparr>\<rparr> in
      if duration_from_secs (http_timeout_seconds C) = None \<or> \<not> se_http_ok E then None
      else if MAX_PERMITS < dns_max_concurrency (geo_settings_cfg S) then None
      else case refresh_servers_once X (se_toolkit E) (se_catalog E) S (se_draws E) (se_now E) (p_states p) of
        None \<Rightarrow> None
      | Some (ok, m', reqs) \<Rightarrow>
          if \<not> channel_ok (max_concurrency C * 4 mod 2 ^ 64) \<or> \<not> channel_ok (result_queue_maxsize C) then None
          else Some (spawn_tasks E S (y\<lparr>sy_poller := with_requests (m', reqs) p\<rparr>)))"

text \<open>\<open>main\<close>: the settings, the metrics, and the collector.\<close>

definition main ::
  "externals \<Rightarrow> ('r \<Rightarrow> metric_desc \<Rightarrow> 'r option) \<Rightarrow> 'r metrics \<Rightarrow> start_env \<Rightarrow> env_readers \<Rightarrow> process option" where
  "main X register ms E rd =
     (let S = load rd in
      case metrics_init register ms of
        None \<Rightarrow> None
      | Some _ \<Rightarrow> run X E S)"

definition process_start :: "externals \<Rightarrow> start_env \<Rightarrow> settings \<Rightarrow> process \<Rightarrow> bool" where
  "process_start X E S s \<longleftrightarrow> 0 \<le> se_now E \<and> run X E S = Some s"

subsection \<open>The process refines the system\<close>

lemma on_states_fields [simp]:
  "pc_poller (on_states mr s) = with_requests mr (pc_poller s)" "pc_states (on_states mr s) = fst mr"
  "pc_system (on_states mr s) = (pc_system s)\<lparr>sy_poller := with_requests mr (pc_poller s)\<rparr>"
  "pc_fetched (on_states mr s) = pc_fetched s" "pc_refresh (on_states mr s) = pc_refresh s"
  "pc_trigger (on_states mr s) = pc_trigger s" "pc_file (on_states mr s) = pc_file s"
  "pc_force (on_states mr s) = pc_force s" "pc_clock (on_states mr s) = pc_clock s"
  by (simp_all add: on_states_def pc_poller_def pc_states_def pc_clock_def pc_fetched_def fetched_keys_def with_requests_def)

lemma pc_frame [simp]:
  "pc_poller (s\<lparr>pc_refresh := r\<rparr>) = pc_poller s" "pc_poller (s\<lparr>pc_trigger := tr\<rparr>) = pc_poller s"
  "pc_poller (s\<lparr>pc_file := f\<rparr>) = pc_poller s" "pc_poller (s\<lparr>pc_force := fo\<rparr>) = pc_poller s"
  "pc_states (s\<lparr>pc_refresh := r\<rparr>) = pc_states s" "pc_states (s\<lparr>pc_trigger := tr\<rparr>) = pc_states s"
  "pc_states (s\<lparr>pc_file := f\<rparr>) = pc_states s" "pc_states (s\<lparr>pc_force := fo\<rparr>) = pc_states s"
  "pc_clock (s\<lparr>pc_refresh := r\<rparr>) = pc_clock s" "pc_clock (s\<lparr>pc_trigger := tr\<rparr>) = pc_clock s"
  "pc_clock (s\<lparr>pc_file := f\<rparr>) = pc_clock s" "pc_clock (s\<lparr>pc_force := fo\<rparr>) = pc_clock s"
  by (simp_all add: pc_poller_def pc_states_def pc_clock_def)

text \<open>A refresh is a refresh of the poller with the servers that were read, or changes nothing.\<close>

lemma refresh_is_poller_step:
  assumes "refresh_servers_once X G svc S draws now (p_states p) = Some (ok, m', reqs)"
  shows "with_requests (m', reqs) p = p \<or> poller_step X (collector_cfg S) p (with_requests (m', reqs) p)"
proof -
  obtain servers where f: "fetch_servers G svc (server_cfg S) (page_size (collector_cfg S)) = Some servers"
    using assms by (auto simp: refresh_servers_once_def split: option.splits)
  show ?thesis
  proof (cases "servers = []")
    case True
    then show ?thesis using assms f by (simp add: refresh_servers_once_def with_requests_def schedule_all_def)
  next
    case False
    then have "refresh_states X (collector_cfg S) draws now servers (p_states p) = (m', reqs)"
      using assms f by (auto simp: refresh_servers_once_def split: prod.splits)
    with poller_step.refresh [OF False, of X "collector_cfg S" p draws now] show ?thesis by simp
  qed
qed

text \<open>A step of the process is a step of the system, or leaves it alone.\<close>

lemma process_step_system:
  assumes "process_step X G S A K s t"
  obtains (idle) "pc_system t = pc_system s"
  | (step) "system_step X G S A (pc_system s) (pc_system t)"
proof -
  have on: "system_step X G S A (pc_system s) ((pc_system s)\<lparr>sy_poller := with_requests mr (pc_poller s)\<rparr>)"
    if "poller_step X (collector_cfg S) (pc_poller s) (with_requests mr (pc_poller s))" for mr
    using system_step.polled [of X S "pc_system s" "with_requests mr (pc_poller s)" "[]" G A] that
    by (simp add: pc_poller_def)
  show ?thesis
    using assms
  proof (cases rule: process_step.cases)
    case (works p new)
    show ?thesis
      by (rule step) (use works poller_step.work [OF works(2)] in \<open>simp_all add: system_step.polled pc_poller_def\<close>)
  next
    case (ingests y)
    then show ?thesis using step system_step.delivers_rows by simp
  next
    case (refreshes t svc now draws ok m' reqs)
    from refreshes(6) have "with_requests (m', reqs) (pc_poller s) = pc_poller s \<or>
        poller_step X (collector_cfg S) (pc_poller s) (with_requests (m', reqs) (pc_poller s))"
      unfolding pc_states_def by (rule refresh_is_poller_step)
    then show ?thesis
    proof
      assume "with_requests (m', reqs) (pc_poller s) = pc_poller s"
      then show ?thesis using idle refreshes(1) by (simp add: pc_poller_def)
    next
      assume "poller_step X (collector_cfg S) (pc_poller s) (with_requests (m', reqs) (pc_poller s))"
      then show ?thesis using step on refreshes(1) by simp
    qed
  next
    case (trigger_applies content now iv)
    then show ?thesis
      using step on poller_step.trigger [of X "collector_cfg S" "pc_poller s" now "parse_trigger_content X content"]
      by (simp add: pc_states_def)
  next
    case (force_known reply target now mr)
    then show ?thesis
      using step on poller_step.force [of now target "pc_poller s" mr X "collector_cfg S"] by (simp add: pc_states_def)
  next
    case (force_inserts target now svc srv d)
    then show ?thesis
      using step system_step.polled [of X S "pc_system s" "force_fetched X (collector_cfg S) d now target srv (pc_poller s)" "[]" G A]
        poller_step.fetched [of X "collector_cfg S" "pc_poller s" d now target srv]
      by (simp add: pc_poller_def)
  qed (use idle in simp_all)
qed

lemma process_step_inv:
  assumes "poller_inv (pc_poller s)" and "process_step X G S A K s t"
  shows "poller_inv (pc_poller t)"
  using assms(2)
proof (cases rule: process_step_system)
  case step
  then show ?thesis
    using assms(1) system_step_poller [OF step] poller_step_inv by (auto simp: pc_poller_def)
qed (use assms(1) in \<open>simp add: pc_poller_def\<close>)

text \<open>What \<open>run\<close> sets up, it sets up by steps of the system, before any row is sent.\<close>

lemma runE:
  assumes "run X E S = Some s"
  obtains ok m' reqs y p where "y = system_new (collector_cfg S) (se_wal E) (se_ingest_now E)"
    "p = (sy_poller y)\<lparr>p_sched := (p_sched (sy_poller y))\<lparr>clock := se_now E\<rparr>\<rparr>"
    "refresh_servers_once X (se_toolkit E) (se_catalog E) S (se_draws E) (se_now E) (p_states p) = Some (ok, m', reqs)"
    "s = spawn_tasks E S (y\<lparr>sy_poller := with_requests (m', reqs) p\<rparr>)"
  using assms unfolding run_def Let_def by (simp only: split: if_splits option.splits prod.splits) auto

lemma run_reaches:
  assumes "run X E S = Some s" and "0 \<le> se_now E"
  shows "(\<lambda>y z. system_step X G S A y z \<and> p_rows (sy_poller y) = [])\<^sup>*\<^sup>*
      (system_new (collector_cfg S) (se_wal E) (se_ingest_now E)) (pc_system s)"
    and "pc_fetched s = {}"
proof -
  let ?y = "system_new (collector_cfg S) (se_wal E) (se_ingest_now E)"
  let ?p = "(sy_poller ?y)\<lparr>p_sched := (p_sched (sy_poller ?y))\<lparr>clock := se_now E\<rparr>\<rparr>"
  obtain ok m' reqs where r: "refresh_servers_once X (se_toolkit E) (se_catalog E) S (se_draws E) (se_now E) (p_states ?p) =
      Some (ok, m', reqs)"
    and s: "s = spawn_tasks E S (?y\<lparr>sy_poller := with_requests (m', reqs) ?p\<rparr>)"
    using runE [OF assms(1)] by metis
  let ?step = "\<lambda>y z. system_step X G S A y z \<and> p_rows (sy_poller y) = []"
  have rows: "p_rows (sy_poller ?y) = []" "p_rows ?p = []" by (simp_all add: system_new_def poller_new_def)
  have "poller_step X (collector_cfg S) (sy_poller ?y) ?p"
    using work_step.pass [OF assms(2), of X "collector_cfg S" "sy_poller ?y"]
    by (intro poller_step.work) (simp add: system_new_def poller_new_def sched_new_def)
  then have 1: "?step ?y (?y\<lparr>sy_poller := ?p\<rparr>)"
    using system_step.polled [of X S ?y ?p "[]" G A] rows by simp
  have 2: "?step\<^sup>*\<^sup>* (?y\<lparr>sy_poller := ?p\<rparr>) (?y\<lparr>sy_poller := with_requests (m', reqs) ?p\<rparr>)"
    using refresh_is_poller_step [OF r]
  proof
    assume "poller_step X (collector_cfg S) ?p (with_requests (m', reqs) ?p)"
    then show ?thesis
      using system_step.polled [of X S "?y\<lparr>sy_poller := ?p\<rparr>" "with_requests (m', reqs) ?p" "[]" G A] rows
      by (intro r_into_rtranclp) simp
  qed simp
  show "?step\<^sup>*\<^sup>* ?y (pc_system s)"
    using converse_rtranclp_into_rtranclp [of ?step, OF 1 2] by (simp add: s spawn_tasks_def Let_def)
  show "pc_fetched s = {}"
    by (simp add: s spawn_tasks_def pc_fetched_def pc_poller_def fetched_keys_def system_new_def Let_def) (simp add: poller_new_def)
qed

text \<open>Steps from states of the system with a property \<open>R\<close> that holds while no row is in the channel.\<close>

lemma process_refines_system_where:
  assumes "reachable (process_start X E S) (\<lambda>s t. process_step X G S A K s t \<and> R (pc_system s)) s"
    and "\<And>y. p_rows (sy_poller y) = [] \<Longrightarrow> R y"
  shows "reachable (system_start (collector_cfg S) (se_wal E) (se_ingest_now E)) (\<lambda>y z. system_step X G S A y z \<and> R y) (pc_system s)"
  using assms(1)
proof (induction rule: reachable.induct)
  case (reachable_start s)
  let ?y = "system_new (collector_cfg S) (se_wal E) (se_ingest_now E)"
  have "(\<lambda>y z. system_step X G S A y z \<and> R y)\<^sup>*\<^sup>* ?y (pc_system s)"
    using run_reaches(1) [of X E S s G A] reachable_start assms(2)
    by (auto simp: process_start_def elim!: mono_rtranclp [rule_format, rotated])
  then show ?case by (rule reachable_steps [OF reachable.reachable_start, rotated]) (simp add: system_start_def)
next
  case (reachable_step s t)
  have step: "process_step X G S A K s t" "R (pc_system s)" using reachable_step.hyps(2) by simp_all
  from step(1) show ?case
  proof (cases rule: process_step_system)
    case step': step
    then show ?thesis using reachable.reachable_step [OF reachable_step.IH] step(2) by simp
  qed (use reachable_step.IH in simp)
qed

text \<open>So the tasks of the process that drive polls go through the states of \<open>Poller\<close>.\<close>

lemma process_reaches_system:
  assumes "reachable (process_start X E S) (process_step X G S A K) s"
  shows "reachable (system_start (collector_cfg S) (se_wal E) (se_ingest_now E)) (system_step X G S A) (pc_system s)"
proof -
  have "reachable (process_start X E S) (\<lambda>s t. process_step X G S A K s t \<and> True) s"
    using assms by (rule reachable_mono) simp
  then have "reachable (system_start (collector_cfg S) (se_wal E) (se_ingest_now E)) (\<lambda>y z. system_step X G S A y z \<and> True) (pc_system s)"
    by (rule process_refines_system_where [where R = "\<lambda>_. True"]) simp_all
  then show ?thesis by simp
qed

lemma delivery_step_fetched: "delivery_step X G S A s y \<Longrightarrow> p_fetched (sy_poller y) = p_fetched (sy_poller s)"
  by (auto elim!: delivery_step.cases)

interpretation process: transition_system "process_start X E S" "process_step X G S A K"
    "\<lambda>s. poller_inv (pc_poller s)" for X E S G A K
proof
  fix s
  assume "process_start X E S s"
  then have r: "run X E S = Some s" "0 \<le> se_now E" by (simp_all add: process_start_def)
  let ?y = "system_new (collector_cfg S) (se_wal E) (se_ingest_now E)"
  have "poller_inv (sy_poller y)" if "(\<lambda>y z. system_step X G S A y z \<and> p_rows (sy_poller y) = [])\<^sup>*\<^sup>* ?y y" for y
    using that
  proof (induction rule: rtranclp_induct)
    case (step y z)
    then show ?case using system_step_poller [of X G S A y z] poller_step_inv by auto
  qed (simp add: system_new_def poller_inv_new)
  then show "poller_inv (pc_poller s)"
    using run_reaches [OF r] by (simp add: pc_poller_def)
qed (rule process_step_inv)

subsection \<open>What the process promises\<close>

text \<open>
  C6: Everything the process does, with the catalog service, the trigger file and Redis behind it, is a run of
  the system: each of the theorems about the reachable states of the system is one about the process. The history
  of fetched servers is part of the state of the system, so that a process in which no force ping has fetched one
  is a system in which none has.
\<close>

theorem process_refines_system:
  assumes "reachable (process_start X E S) (process_step X G S A K) s"
  shows "reachable (system_start (collector_cfg S) (se_wal E) (se_ingest_now E)) (system_step X G S A) (pc_system s) \<and>
    pc_fetched s = fst ` p_fetched (sy_poller (pc_system s))"
  using process_reaches_system [OF assms] by (simp add: pc_fetched_def fetched_keys_def pc_poller_def)

text \<open>
  C5: No server of the catalog is forgotten by the process. In every state it can reach, a tracked server is
  scheduled for the very time it is due at or on its way to a poll, unless it is one that a force ping has
  fetched; those are the only exception. (A server whose worker has been ended by a panic, on a status timeout
  that is no \<open>Duration\<close>, counts as on its way.)
\<close>

theorem process_forgets_no_server:
  assumes "reachable (process_start X E S) (process_step X G S A K) s"
    and "hm_get (pc_states s) k = Some st" and "k \<notin> pc_fetched s"
  shows "key st = k \<and> will_be_polled (pc_poller s) k (next_due st)"
proof -
  have "poller_inv (pc_poller s)" by (rule process.reachable_inv [OF assms(1)])
  then show ?thesis
    using assms(2,3) by (simp add: poller_inv_def inv_but_def keys_agree_def covered_def pc_states_def pc_fetched_def)
qed

subsection \<open>Refreshes\<close>

text \<open>Time passes for all tasks.\<close>

definition later :: "f64 \<Rightarrow> process \<Rightarrow> process" where
  "later dt s = s\<lparr>pc_system := (pc_system s)\<lparr>sy_poller :=
     (pc_poller s)\<lparr>p_sched := (p_sched (pc_poller s))\<lparr>clock := pc_clock s + dt\<rparr>\<rparr>\<rparr>\<rparr>"

lemma later_fields [simp]:
  "pc_states (later dt s) = pc_states s" "pc_clock (later dt s) = pc_clock s + dt"
  "pc_refresh (later dt s) = pc_refresh s" "pc_trigger (later dt s) = pc_trigger s" "pc_file (later dt s) = pc_file s"
  by (simp_all add: later_def pc_states_def pc_poller_def pc_clock_def)

lemma later_step: "0 \<le> dt \<Longrightarrow> process_step X G S A K s (later dt s)"
  using process_step.works [of X S s "(pc_poller s)\<lparr>p_sched := (p_sched (pc_poller s))\<lparr>clock := pc_clock s + dt\<rparr>\<rparr>" "[]" G A K]
    work_step.pass [of dt X "collector_cfg S" "pc_poller s"]
  by (simp add: later_def pc_clock_def)

lemma wait_until:
  obtains dt where "process_step X G S A K s (later dt s)" "t \<le> pc_clock (later dt s)"
proof
  show "process_step X G S A K s (later (max 0 (t - pc_clock s)) s)" by (rule later_step) simp
qed simp

lemma catalog_keys_items: "catalog_keys X (map catalog_item_to_value items) = ci_id ` set items - {[]}"
  by (simp add: catalog_keys_def image_image)

lemma refresh_served:
  assumes "auth_channel G (grpc_target (server_cfg S)) (unwrap_or [] (api_token (server_cfg S))) = Channel tg tk"
    and "serves svc xs ys" and "xs @ ys \<noteq> []"
    and "0 < page_size (collector_cfg S)" and "page_size (collector_cfg S) < 2 ^ 31" and "hm_ok m"
  shows "\<exists>m' reqs. refresh_servers_once X G svc S draws now m = Some (True, m', reqs) \<and>
    set (hm_keys m') = ci_id ` set (xs @ ys) - {[]} \<and> (\<forall>k st. hm_get m' k = Some st \<longrightarrow> mirrors st) \<and>
    (keys_agree {} m \<longrightarrow> keys_agree {} m') \<and>
    (\<forall>k st'. hm_get m' k = Some st' \<longrightarrow>
      (\<exists>st. hm_get m k = Some st \<and> next_due st' = next_due st) \<or> (k, next_due st') \<in> set reqs)"
proof -
  let ?servers = "map catalog_item_to_value (xs @ ys)"
  obtain m' reqs where r: "refresh_states X (collector_cfg S) draws now ?servers m = (m', reqs)" by fastforce
  have "refresh_servers_once X G svc S draws now m = Some (True, m', reqs)"
    using fetch_servers_served [OF assms(1,2,4,5)] assms(3) r by (simp add: refresh_servers_once_def)
  moreover have "set (hm_keys m') = ci_id ` set (xs @ ys) - {[]}"
    using refresh_states_tracks [OF r assms(6)] catalog_keys_items [of X "xs @ ys"] by simp
  ultimately show ?thesis
    using refresh_states_tracks [OF r assms(6)] refresh_states_ok(2) [OF r assms(6)] refresh_states_due [OF r assms(6)] by blast
qed

text \<open>With a catalog service that pages honestly, the refresh task is never lost.\<close>

lemma refresh_stays:
  assumes "reachable (process_start X E S) (process_step X G S A K) s"
    and "auth_channel G (grpc_target (server_cfg S)) (unwrap_or [] (api_token (server_cfg S))) = Channel tg tk"
    and "0 < page_size (collector_cfg S)" and "page_size (collector_cfg S) < 2 ^ 31"
    and "\<And>svc. K svc \<Longrightarrow> \<exists>xs ys. serves svc xs ys"
  shows "pc_refresh s \<noteq> None"
  using assms(1)
proof (induction rule: reachable.induct)
  case (reachable_start s)
  then show ?case
    unfolding process_start_def run_def Let_def
    by (simp only: split: if_splits option.splits prod.splits) (auto simp: spawn_tasks_def Let_def)
next
  case (reachable_step s t)
  from reachable_step.hyps(2) show ?case
  proof (cases rule: process_step.cases)
    case (refresh_lost t svc)
    then show ?thesis using assms(5) fetch_servers_served [OF assms(2) _ assms(3,4)] by fastforce
  qed (use reachable_step.IH in simp_all)
qed

text \<open>
  C10: The process follows the catalog. With a catalog service that pages honestly and lists some server (an empty
  answer is taken for a failure and changes nothing), from every state the process can
  reach it can go on, by letting time pass and one refresh, to a state in which exactly the servers of the
  catalog, subservers included, are tracked, each with the address, the ports, the edition and the mode its
  entry asks for.
\<close>

theorem process_follows_catalog:
  assumes "reachable (process_start X E S) (process_step X G S A K) s"
    and "auth_channel G (grpc_target (server_cfg S)) (unwrap_or [] (api_token (server_cfg S))) = Channel tg tk"
    and "0 < page_size (collector_cfg S)" and "page_size (collector_cfg S) < 2 ^ 31"
    and "\<And>svc. K svc \<Longrightarrow> \<exists>xs ys. serves svc xs ys"
    and "K svc" and "serves svc xs ys" and "xs @ ys \<noteq> []"
  shows "\<exists>t. (process_step X G S A K)\<^sup>*\<^sup>* s t \<and> set (hm_keys (pc_states t)) = ci_id ` set (xs @ ys) - {[]} \<and>
    (\<forall>k st. hm_get (pc_states t) k = Some st \<longrightarrow> mirrors st)"
proof -
  obtain due where due: "pc_refresh s = Some due" using refresh_stays [OF assms(1-5)] by blast
  obtain dt where dt: "process_step X G S A K s (later dt s)" "due \<le> pc_clock (later dt s)" by (rule wait_until)
  have ok: "hm_ok (pc_states s)"
    using process.reachable_inv [OF assms(1)] by (simp add: poller_inv_ok pc_states_def)
  obtain m' reqs where r: "refresh_servers_once X G svc S (\<lambda>_. demo_draws) (pc_clock (later dt s)) (pc_states (later dt s)) =
      Some (True, m', reqs)" "set (hm_keys m') = ci_id ` set (xs @ ys) - {[]}"
    "\<And>k st. hm_get m' k = Some st \<Longrightarrow> mirrors st"
    using refresh_served [OF assms(2,7,8,3,4) ok, of X "\<lambda>_. demo_draws" "pc_clock (later dt s)"]
    unfolding later_fields by blast
  let ?t = "on_states (m', reqs) (later dt s)
    \<lparr>pc_refresh := Some (pc_clock (later dt s) + f64_of_u64 (refresh_delay (collector_cfg S) True))\<rparr>"
  have step: "process_step X G S A K (later dt s) ?t"
    by (rule process_step.refreshes [where t = due and svc = svc and K = K and now = "pc_clock (later dt s)"
          and draws = "\<lambda>_. demo_draws"])
      (use due dt(2) assms(6) r(1) in simp_all)
  have steps: "(process_step X G S A K)\<^sup>*\<^sup>* s ?t"
    by (rule converse_rtranclp_into_rtranclp [of "process_step X G S A K", OF dt(1) r_into_rtranclp]) (rule step)
  have m': "pc_states ?t = m'" by simp
  show ?thesis
    by (rule exI [of _ ?t]) (intro conjI allI impI steps; simp only: m' r(2) r(3))
qed

subsection \<open>The trigger file\<close>

text \<open>
  C28: A trigger file is obeyed. When the trigger task is asleep and there is a file, the process can go on, by
  letting time pass and three steps of that task, to a state in which the file has been removed, exactly the
  servers it names are due at that time, and a poll of each of them is asked for.
\<close>

theorem trigger_file_is_obeyed:
  assumes "pc_trigger s = Trigger_asleep t" and "pc_file s = Some content"
    and "trigger_interval (collector_cfg S) = Some iv"
  shows "\<exists>u. (process_step X G S A K)\<^sup>*\<^sup>* s u \<and> pc_file u = None \<and>
    (\<forall>k. hm_get (pc_states u) k =
      (if targeted (parse_trigger_content X content) k then map_option (\<lambda>st. st\<lparr>next_due := pc_clock u\<rparr>) (hm_get (pc_states s) k)
       else hm_get (pc_states s) k)) \<and>
    (\<forall>k st. targeted (parse_trigger_content X content) k \<longrightarrow> hm_get (pc_states s) k = Some st \<longrightarrow>
      (key st, pc_clock u) \<in> set (spawned (p_sched (pc_poller u))))"
proof -
  let ?targets = "parse_trigger_content X content"
  obtain dt where dt: "process_step X G S A K s (later dt s)" "t \<le> pc_clock (later dt s)" by (rule wait_until)
  let ?s1 = "later dt s" and ?now = "pc_clock (later dt s)"
  let ?s2 = "?s1\<lparr>pc_trigger := Trigger_read content\<rparr>"
  let ?s3 = "?s2\<lparr>pc_file := None, pc_trigger := Trigger_apply content ?now\<rparr>"
  obtain m' reqs where r: "trigger_targets ?now ?targets (pc_states s) = (m', reqs)" by fastforce
  let ?u = "on_states (m', reqs) ?s3\<lparr>pc_trigger := Trigger_asleep (?now + iv)\<rparr>"
  have 1: "process_step X G S A K ?s1 ?s2"
    using process_step.trigger_looks [of ?s1 t S iv X G A K] assms dt(2) by simp
  have 2: "process_step X G S A K ?s2 ?s3"
    using process_step.trigger_removes [of ?s2 content X G S A K True] by simp
  have "pc_states ?s3 = pc_states s" "pc_clock ?s3 = ?now" by simp_all
  then have 3: "process_step X G S A K ?s3 ?u"
    using process_step.trigger_applies [of ?s3 content ?now S iv X G A K] assms(3) r by simp
  have "(process_step X G S A K)\<^sup>*\<^sup>* s ?s2"
    by (rule converse_rtranclp_into_rtranclp [of "process_step X G S A K", OF dt(1) r_into_rtranclp]) (rule 1)
  then have "(process_step X G S A K)\<^sup>*\<^sup>* s ?s3" using 2 by (rule rtranclp.rtrancl_into_rtrancl)
  then have steps: "(process_step X G S A K)\<^sup>*\<^sup>* s ?u" using 3 by (rule rtranclp.rtrancl_into_rtrancl)
  have u: "pc_states ?u = m'" "pc_clock ?u = ?now" "set reqs \<subseteq> set (spawned (p_sched (pc_poller ?u)))"
    by (auto simp: pc_states_def pc_poller_def pc_clock_def later_def with_requests_def)
  show ?thesis
    using trigger_targets_spec(1,3) [OF r] steps u
    by (intro exI [of _ ?u]) (auto simp: due_now_def [abs_def])
qed

text \<open>
  A trigger that is written after the file has been read and before it is removed is lost: the file is gone,
  and what is applied is the text that was read.
\<close>

theorem trigger_write_is_lost:
  assumes "pc_trigger s = Trigger_read old"
  shows "\<exists>t. (process_step X G S A K)\<^sup>*\<^sup>* (s\<lparr>pc_file := Some new\<rparr>) t \<and> process_step X G S A K s (s\<lparr>pc_file := Some new\<rparr>) \<and>
    pc_file t = None \<and> pc_trigger t = Trigger_apply old (pc_clock s)"
  using process_step.trigger_removes [of "s\<lparr>pc_file := Some new\<rparr>" old X G S A K True]
    process_step.file_written [of X G S A K s new] assms
  by (intro exI [of _ "s\<lparr>pc_file := None, pc_trigger := Trigger_apply old (pc_clock s)\<rparr>"]) auto

subsection \<open>The start\<close>

text \<open>Settings and surroundings with which the process gets through its start.\<close>

definition start_ok :: "start_env \<Rightarrow> settings \<Rightarrow> bool" where
  "start_ok E S \<longleftrightarrow>
     0 \<le> http_timeout_seconds (collector_cfg S) \<and> http_timeout_seconds (collector_cfg S) < 2 ^ 64 \<and> se_http_ok E \<and>
     dns_max_concurrency (geo_settings_cfg S) \<le> MAX_PERMITS \<and>
     0 < max_concurrency (collector_cfg S) \<and> max_concurrency (collector_cfg S) * 4 \<le> MAX_PERMITS \<and>
     0 < result_queue_maxsize (collector_cfg S) \<and> result_queue_maxsize (collector_cfg S) \<le> MAX_PERMITS \<and>
     0 < page_size (collector_cfg S) \<and> page_size (collector_cfg S) < 2 ^ 31"

lemma page_size_load: "page_size (collector_cfg (load rd)) < 2 ^ 31"
proof -
  have "page_size (load_collector rd) \<le> 100" by (simp add: load_collector_def)
  then show ?thesis unfolding collector_cfg_load by (rule le_less_trans) simp
qed

lemma spawn_tasks_fields [simp]:
  "pc_system (spawn_tasks E S y) = y" "pc_fetched (spawn_tasks E S y) = fetched_keys (sy_poller y)" "pc_file (spawn_tasks E S y) = se_file E"
  "pc_poller (spawn_tasks E S y) = sy_poller y" "pc_states (spawn_tasks E S y) = p_states (sy_poller y)"
  "pc_force (spawn_tasks E S y) =
    (if redis_enabled (redis_cfg S) \<and> force_ping_start (se_redis E) (redis_url (redis_cfg S)) (collector_cfg S) \<noteq> None
     then Force_listening else Force_off)"
  by (simp_all add: spawn_tasks_def pc_poller_def pc_states_def pc_fetched_def Let_def)

lemma run_starts:
  assumes "start_ok E S"
    and "auth_channel (se_toolkit E) (grpc_target (server_cfg S)) (unwrap_or [] (api_token (server_cfg S))) = Channel tg tk"
    and "serves (se_catalog E) xs ys" and "xs @ ys \<noteq> []"
  shows "\<exists>p. run X E S = Some (spawn_tasks E S ((system_new (collector_cfg S) (se_wal E) (se_ingest_now E))\<lparr>sy_poller := p\<rparr>)) \<and>
    set (hm_keys (p_states p)) = ci_id ` set (xs @ ys) - {[]} \<and> clock (p_sched p) = se_now E \<and> fetched_keys p = {} \<and>
    (\<forall>k st. hm_get (p_states p) k = Some st \<longrightarrow>
      mirrors st \<and> key st = k \<and> (k, next_due st) \<in> set (spawned (p_sched p)))"
proof -
  let ?y = "system_new (collector_cfg S) (se_wal E) (se_ingest_now E)"
  let ?p = "(sy_poller ?y)\<lparr>p_sched := (p_sched (sy_poller ?y))\<lparr>clock := se_now E\<rparr>\<rparr>"
  have new: "p_states ?p = []" "spawned (p_sched ?p) = []" "clock (p_sched ?p) = se_now E" "p_rows ?p = []" "p_fetched ?p = {}"
    by (simp_all add: system_new_def poller_new_def sched_new_def)
  have sane: "duration_from_secs (http_timeout_seconds (collector_cfg S)) \<noteq> None" "se_http_ok E"
    "\<not> MAX_PERMITS < dns_max_concurrency (geo_settings_cfg S)" "0 < page_size (collector_cfg S)"
    "page_size (collector_cfg S) < 2 ^ 31" "channel_ok (result_queue_maxsize (collector_cfg S))"
    using assms(1) by (auto simp: start_ok_def duration_from_secs_def channel_ok_def)
  have "max_concurrency (collector_cfg S) * 4 < 2 ^ 64"
    using assms(1) by (simp add: start_ok_def MAX_PERMITS_def)
  then have "max_concurrency (collector_cfg S) * 4 mod 2 ^ 64 = max_concurrency (collector_cfg S) * 4" by (rule mod_less)
  then have ch: "channel_ok (max_concurrency (collector_cfg S) * 4 mod 2 ^ 64)"
    using assms(1) by (simp add: channel_ok_def start_ok_def)
  have "hm_ok (p_states ?p)" unfolding new by (simp add: hm_ok_def)
  then obtain m' reqs where r: "refresh_servers_once X (se_toolkit E) (se_catalog E) S (se_draws E) (se_now E) (p_states ?p) =
      Some (True, m', reqs)" "set (hm_keys m') = ci_id ` set (xs @ ys) - {[]}"
    "\<And>k st. hm_get m' k = Some st \<Longrightarrow> mirrors st" "keys_agree {} (p_states ?p) \<Longrightarrow> keys_agree {} m'"
    "\<And>k st'. hm_get m' k = Some st' \<Longrightarrow>
      (\<exists>st. hm_get (p_states ?p) k = Some st \<and> next_due st' = next_due st) \<or> (k, next_due st') \<in> set reqs"
    using refresh_served [OF assms(2-4) sane(4,5), of "p_states ?p" X "se_draws E" "se_now E"] by blast
  have agree: "keys_agree {} m'" by (rule r(4)) (simp add: new keys_agree_def)
  let ?q = "with_requests (m', reqs) ?p"
  have "run X E S = Some (spawn_tasks E S (?y\<lparr>sy_poller := ?q\<rparr>))"
    unfolding run_def Let_def r(1) using sane(1-3,6) ch by simp
  moreover have "mirrors st \<and> key st = k \<and> (k, next_due st) \<in> set (spawned (p_sched ?q))"
    if "hm_get (p_states ?q) k = Some st" for k st
  proof -
    have g: "hm_get m' k = Some st" using that by simp
    then have "(k, next_due st) \<in> set reqs" using r(5) [OF g] unfolding new by simp
    then show ?thesis using r(3) [OF g] agree g by (simp add: with_requests_def keys_agree_def)
  qed
  moreover have "clock (p_sched ?q) = se_now E" "set (hm_keys (p_states ?q)) = ci_id ` set (xs @ ys) - {[]}" "fetched_keys ?q = {}"
    using r(2) new by (simp_all add: with_requests_def fetched_keys_def)
  ultimately show ?thesis by (intro exI [of _ ?q]) blast
qed

text \<open>
  C11: The process comes up. Whatever the environment says, with a registry that takes the metrics, settings within
  the bounds of \<open>start_ok\<close>, and a catalog service that pages honestly, \<open>main\<close> gets to running the
  tasks: every server of the catalog, subservers included, is tracked as its entry asks, and a poll of it is asked
  for at the time it is due.
\<close>

theorem main_tracks_catalog:
  assumes "registers_new register taken" and "forced ms = {}"
    and "taken (registry ms) \<inter> metric_name ` set all_metrics = {}"
    and "start_ok E (load rd)"
    and "auth_channel (se_toolkit E) (grpc_target (server_cfg (load rd))) (unwrap_or [] (api_token (server_cfg (load rd)))) =
      Channel tg tk"
    and "serves (se_catalog E) xs ys" and "xs @ ys \<noteq> []"
  shows "\<exists>s. main X register ms E rd = Some s \<and>
    set (hm_keys (pc_states s)) = ci_id ` set (xs @ ys) - {[]} \<and>
    (\<forall>k st. hm_get (pc_states s) k = Some st \<longrightarrow>
      mirrors st \<and> key st = k \<and> (k, next_due st) \<in> set (spawned (p_sched (pc_poller s))))"
proof -
  obtain ms' where "metrics_init register ms = Some ms'"
    using force_metrics_new [OF assms(1) all_metrics_ok, of ms] assms(2,3) by (auto simp: metrics_init_def)
  then have m: "main X register ms E rd = run X E (load rd)" by (simp add: main_def Let_def)
  obtain p where p: "run X E (load rd) =
      Some (spawn_tasks E (load rd) ((system_new (collector_cfg (load rd)) (se_wal E) (se_ingest_now E))\<lparr>sy_poller := p\<rparr>))"
    "set (hm_keys (p_states p)) = ci_id ` set (xs @ ys) - {[]}"
    "\<And>k st. hm_get (p_states p) k = Some st \<Longrightarrow> mirrors st \<and> key st = k \<and> (k, next_due st) \<in> set (spawned (p_sched p))"
    using run_starts [OF assms(4-7), of X] by blast
  show ?thesis unfolding m p(1) using p(2,3) by simp
qed

text \<open>
  C29: Redis has to be there at the start. When the connection cannot be set up, the process listens neither to
  the force-ping queue nor to the discovery queue, in any state it can reach, whether Redis comes back or not.
\<close>

theorem redis_is_needed_at_start:
  assumes "reachable (process_start X E S) (process_step X G S A K) s"
    and "\<not> redis_connection (se_redis E) (redis_url (redis_cfg S))"
  shows "pc_force s = Force_off \<and> pc_discovery s = None \<and> pc_fetched s = {}"
  using assms(1)
proof (induction rule: reachable.induct)
  case (reachable_start s)
  then have "run X E S = Some s" "0 \<le> se_now E" by (simp_all add: process_start_def)
  then have "pc_fetched s = {}" by (rule run_reaches(2))
  with reachable_start show ?case
    unfolding process_start_def run_def Let_def
    by (simp only: split: if_splits option.splits prod.splits)
      (auto simp: spawn_tasks_def Let_def force_ping_start_def discovery_start_def assms(2))
next
  case (reachable_step s t)
  from reachable_step.hyps(2) show ?case
    by (cases rule: process_step.cases)
      (use reachable_step.IH in \<open>auto simp: on_states_def pc_fetched_def fetched_keys_def pc_poller_def
        dest: work_step_fetched delivery_step_fetched\<close>)
qed

subsection \<open>A process\<close>

text \<open>The settings by default, a catalog of two servers and a subserver, no Redis, and a trigger file.\<close>

definition demo_catalog_service :: catalog_service where
  "demo_catalog_service = \<lparr>list_servers = (\<lambda>r. if lr_role r = None
       then served_pages [demo_catalog_item ''1'', demo_catalog_item ''2''] r
       else served_pages [demo_catalog_item ''3''] r), get_server = (\<lambda>_. None)\<rparr>"

definition demo_start :: start_env where
  "demo_start = \<lparr>se_http_ok = True, se_toolkit = demo_toolkit, se_catalog = demo_catalog_service,
     se_draws = (\<lambda>_. demo_draws), se_now = 100, se_redis = \<lparr>redis_opens = (\<lambda>_. True), redis_connects = (\<lambda>_. False)\<rparr>,
     se_wal = demo_wal, se_ingest_now = 0, se_file = Some ''2''\<rparr>"

lemma demo_start_fields [simp]:
  "se_toolkit demo_start = demo_toolkit" "se_catalog demo_start = demo_catalog_service" "se_now demo_start = 100"
  "se_file demo_start = Some ''2''" "se_wal demo_start = demo_wal" "se_ingest_now demo_start = 0"
  "se_redis demo_start = \<lparr>redis_opens = (\<lambda>_. True), redis_connects = (\<lambda>_. False)\<rparr>"
  by (simp_all add: demo_start_def)

lemma demo_serves:
  "serves demo_catalog_service [demo_catalog_item ''1'', demo_catalog_item ''2''] [demo_catalog_item ''3'']"
  by (simp add: serves_def demo_catalog_service_def)

lemma demo_page_size: "page_size demo_settings = 100"
  by (simp add: demo_settings_def load_collector_def demo_readers_def chain_def)

lemma demo_start_ok: "start_ok demo_start (load demo_readers)"
proof -
  have "http_timeout_seconds demo_settings = 15"
    by (simp add: demo_settings_def load_collector_def demo_readers_def chain_def)
  moreover have "dns_max_concurrency (geo_settings_cfg (load demo_readers)) = 32"
    unfolding geo_cfg_load by (simp add: load_geo_def demo_readers_def)
  moreover have "se_http_ok demo_start" by (simp add: demo_start_def)
  ultimately show ?thesis using demo_page_size by (simp add: start_ok_def MAX_PERMITS_def)
qed

lemma demo_registers: "registers_new demo_register set"
  by (simp add: registers_new_def demo_register_def)

theorem main_tracks_catalog_witness:
  "\<exists>s. main demo_externals demo_register \<lparr>registry = [], forced = {}\<rparr> demo_start demo_readers = Some s \<and>
     set (hm_keys (pc_states s)) = {''1'', ''2'', ''3''}"
proof -
  have f: "forced (\<lparr>registry = [], forced = {}\<rparr> :: str list metrics) = {}"
    "set (registry (\<lparr>registry = [], forced = {}\<rparr> :: str list metrics)) \<inter> metric_name ` set all_metrics = {}"
    by simp_all
  obtain s where "main demo_externals demo_register \<lparr>registry = [], forced = {}\<rparr> demo_start demo_readers = Some s"
    "set (hm_keys (pc_states s)) =
      ci_id ` set ([demo_catalog_item ''1'', demo_catalog_item ''2''] @ [demo_catalog_item ''3'']) - {[]}"
    using main_tracks_catalog [OF demo_registers f demo_start_ok _ _ _, of _ _ _ _ demo_externals] demo_channel demo_serves
    by (metis (no_types, lifting) append_Cons demo_start_fields(1,2) list.distinct(1))
  then show ?thesis by (intro exI [of _ s]) (auto simp: demo_catalog_item_def)
qed

lemma demo_process_starts:
  "\<exists>s. process_start demo_externals demo_start (load demo_readers) s \<and> pc_fetched s = {} \<and>
     set (hm_keys (pc_states s)) = {''1'', ''2'', ''3''} \<and> pc_trigger s = Trigger_asleep 100 \<and> pc_file s = Some ''2''"
proof -
  let ?S = "load demo_readers"
  obtain p where p: "run demo_externals demo_start ?S =
      Some (spawn_tasks demo_start ?S ((system_new (collector_cfg ?S) (se_wal demo_start) (se_ingest_now demo_start))\<lparr>sy_poller := p\<rparr>))"
    "set (hm_keys (p_states p)) =
      ci_id ` set ([demo_catalog_item ''1'', demo_catalog_item ''2''] @ [demo_catalog_item ''3'']) - {[]}"
    "clock (p_sched p) = se_now demo_start" "fetched_keys p = {}"
    using run_starts [OF demo_start_ok, of _ _ "[demo_catalog_item ''1'', demo_catalog_item ''2'']" "[demo_catalog_item ''3'']" demo_externals]
      demo_channel demo_serves by auto
  have "trigger_file_path demo_settings \<noteq> []" "trigger_poll_seconds demo_settings = 2"
    by (simp_all add: demo_settings_def load_collector_def demo_readers_def chain_def)
  then have "pc_trigger (spawn_tasks demo_start ?S
      ((system_new (collector_cfg ?S) (se_wal demo_start) (se_ingest_now demo_start))\<lparr>sy_poller := p\<rparr>)) = Trigger_asleep 100"
    using p(3) by (simp add: spawn_tasks_def trigger_interval_def duration_from_secs_def Let_def)
  moreover have "ci_id ` set ([demo_catalog_item ''1'', demo_catalog_item ''2''] @ [demo_catalog_item ''3'']) - {[]} =
      {''1'', ''2'', ''3''}"
    by (auto simp: demo_catalog_item_def)
  ultimately show ?thesis
    using p(2,4)
    by (intro exI [of _ "spawn_tasks demo_start ?S
        ((system_new (collector_cfg ?S) (se_wal demo_start) (se_ingest_now demo_start))\<lparr>sy_poller := p\<rparr>)"])
      (simp add: process_start_def p(1))
qed

definition any_turn :: "ingest_env \<Rightarrow> bool" where
  "any_turn e \<longleftrightarrow> True"

definition pages_honestly :: "catalog_service \<Rightarrow> bool" where
  "pages_honestly svc \<longleftrightarrow> (\<exists>xs ys. serves svc xs ys)"

lemma demo_process_reachable:
  "\<exists>s. reachable (process_start demo_externals demo_start (load demo_readers))
     (process_step demo_externals demo_toolkit (load demo_readers) any_turn pages_honestly) s \<and> pc_fetched s = {} \<and>
     set (hm_keys (pc_states s)) = {''1'', ''2'', ''3''} \<and> pc_trigger s = Trigger_asleep 100 \<and> pc_file s = Some ''2''"
proof -
  obtain s where s: "process_start demo_externals demo_start (load demo_readers) s" "pc_fetched s = {}"
    "set (hm_keys (pc_states s)) = {''1'', ''2'', ''3''}" "pc_trigger s = Trigger_asleep 100" "pc_file s = Some ''2''"
    using demo_process_starts by (elim exE conjE) rule
  have "reachable (process_start demo_externals demo_start (load demo_readers))
     (process_step demo_externals demo_toolkit (load demo_readers) any_turn pages_honestly) s"
    using s(1) by (rule reachable.reachable_start)
  with s(2-) show ?thesis by (intro exI [of _ s] conjI)
qed

theorem process_refines_system_witness:
  "\<exists>s. reachable (process_start demo_externals demo_start (load demo_readers))
     (process_step demo_externals demo_toolkit (load demo_readers) any_turn pages_honestly) s \<and>
     set (hm_keys (pc_states s)) = {''1'', ''2'', ''3''} \<and>
     reachable (system_start (collector_cfg (load demo_readers)) demo_wal 0)
       (system_step demo_externals demo_toolkit (load demo_readers) any_turn) (pc_system s)"
proof -
  obtain s where s: "reachable (process_start demo_externals demo_start (load demo_readers))
     (process_step demo_externals demo_toolkit (load demo_readers) any_turn pages_honestly) s" "pc_fetched s = {}"
    "set (hm_keys (pc_states s)) = {''1'', ''2'', ''3''}"
    using demo_process_reachable by (elim exE conjE) rule
  from process_refines_system [OF s(1)]
  have "reachable (system_start (collector_cfg (load demo_readers)) demo_wal 0)
      (system_step demo_externals demo_toolkit (load demo_readers) any_turn) (pc_system s)"
    unfolding demo_start_fields by (rule conjunct1)
  with s(1,3) show ?thesis by (intro exI [of _ s] conjI)
qed

theorem process_forgets_no_server_witness:
  "\<exists>s st. reachable (process_start demo_externals demo_start (load demo_readers))
     (process_step demo_externals demo_toolkit (load demo_readers) any_turn pages_honestly) s \<and>
     hm_get (pc_states s) ''3'' = Some st \<and> will_be_polled (pc_poller s) ''3'' (next_due st)"
proof -
  obtain s where s: "reachable (process_start demo_externals demo_start (load demo_readers))
     (process_step demo_externals demo_toolkit (load demo_readers) any_turn pages_honestly) s" "pc_fetched s = {}"
    "set (hm_keys (pc_states s)) = {''1'', ''2'', ''3''}"
    using demo_process_reachable by (elim exE conjE) rule
  have "hm_get (pc_states s) ''3'' \<noteq> None" using s(3) by (simp add: hm_get_None_iff)
  then obtain st where st: "hm_get (pc_states s) ''3'' = Some st" by blast
  have "''3'' \<notin> pc_fetched s" using s(2) by simp
  from process_forgets_no_server [OF s(1) st this] s(1) st show ?thesis by (intro exI [of _ s] exI [of _ st] conjI) simp_all
qed

lemma demo_channel_open:
  "\<exists>tg tk. auth_channel demo_toolkit (grpc_target (server_cfg (load demo_readers)))
     (unwrap_or [] (api_token (server_cfg (load demo_readers)))) = Channel tg tk"
  by (simp add: demo_channel)

theorem process_follows_catalog_witness:
  "\<exists>s t. set (hm_keys (pc_states s)) = {''1'', ''2'', ''3''} \<and>
     (process_step demo_externals demo_toolkit (load demo_readers) any_turn pages_honestly)\<^sup>*\<^sup>* s t \<and>
     set (hm_keys (pc_states t)) = {''7''}"
proof -
  let ?svc = "demo_catalog_service\<lparr>list_servers := \<lambda>r. if lr_role r = None then served_pages [demo_catalog_item ''7''] r
    else served_pages [] r\<rparr>"
  obtain s where s: "reachable (process_start demo_externals demo_start (load demo_readers))
     (process_step demo_externals demo_toolkit (load demo_readers) any_turn pages_honestly) s"
    "set (hm_keys (pc_states s)) = {''1'', ''2'', ''3''}"
    using demo_process_reachable by (elim exE conjE) rule
  obtain tg tk where c: "auth_channel demo_toolkit (grpc_target (server_cfg (load demo_readers)))
     (unwrap_or [] (api_token (server_cfg (load demo_readers)))) = Channel tg tk"
    using demo_channel_open by blast
  have size: "0 < page_size (collector_cfg (load demo_readers))" "page_size (collector_cfg (load demo_readers)) < 2 ^ 31"
    using demo_page_size by simp_all
  have honest: "\<And>svc. pages_honestly svc \<Longrightarrow> \<exists>xs ys. serves svc xs ys" by (simp add: pages_honestly_def)
  have svc: "serves ?svc [demo_catalog_item ''7''] []" by (simp add: serves_def)
  then have "pages_honestly ?svc" by (auto simp: pages_honestly_def)
  from process_follows_catalog [OF s(1) c size honest this svc] obtain t where
    t: "(process_step demo_externals demo_toolkit (load demo_readers) any_turn pages_honestly)\<^sup>*\<^sup>* s t"
      "set (hm_keys (pc_states t)) = ci_id ` set ([demo_catalog_item ''7''] @ []) - {[]}"
    by auto
  from t(2) have "set (hm_keys (pc_states t)) = {''7''}" by (auto simp: demo_catalog_item_def)
  with s(2) t(1) show ?thesis by (intro exI [of _ s] exI [of _ t] conjI)
qed

theorem trigger_file_is_obeyed_witness:
  "\<exists>s u st. hm_get (pc_states s) ''2'' = Some st \<and>
     (process_step demo_externals demo_toolkit (load demo_readers) any_turn pages_honestly)\<^sup>*\<^sup>* s u \<and> pc_file u = None \<and>
     hm_get (pc_states u) ''2'' = Some (st\<lparr>next_due := pc_clock u\<rparr>)"
proof -
  obtain s where s: "set (hm_keys (pc_states s)) = {''1'', ''2'', ''3''}" "pc_trigger s = Trigger_asleep 100"
    "pc_file s = Some ''2''"
    using demo_process_reachable by (elim exE conjE) rule
  have "hm_get (pc_states s) ''2'' \<noteq> None" using s(1) by (simp add: hm_get_None_iff)
  then obtain st where st: "hm_get (pc_states s) ''2'' = Some st" by blast
  have "trigger_poll_seconds demo_settings = 2"
    by (simp add: demo_settings_def load_collector_def demo_readers_def chain_def)
  then have iv: "trigger_interval (collector_cfg (load demo_readers)) = Some 2"
    by (simp add: trigger_interval_def duration_from_secs_def)
  have "ids_text (CHR '','') [''2''] = ''2''" by (simp add: ids_text_def)
  then have tg: "targeted (parse_trigger_content demo_externals ''2'') ''2''"
    using trigger_ids_parsed [of "[''2'']" "CHR '',''" demo_externals] by (simp add: targeted_def numeric_def is_digit_def)
  from trigger_file_is_obeyed [OF s(2,3) iv, of demo_externals demo_toolkit any_turn pages_honestly] obtain u where
    u: "(process_step demo_externals demo_toolkit (load demo_readers) any_turn pages_honestly)\<^sup>*\<^sup>* s u" "pc_file u = None"
      "\<And>k. hm_get (pc_states u) k =
        (if targeted (parse_trigger_content demo_externals ''2'') k
         then map_option (\<lambda>st. st\<lparr>next_due := pc_clock u\<rparr>) (hm_get (pc_states s) k) else hm_get (pc_states s) k)"
    by blast
  have "hm_get (pc_states u) ''2'' = Some (st\<lparr>next_due := pc_clock u\<rparr>)" using u(3) tg st by simp
  with u(1,2) st show ?thesis by (intro exI [of _ s] exI [of _ u] exI [of _ st] conjI)
qed

theorem redis_is_needed_at_start_witness:
  "\<exists>s. reachable (process_start demo_externals demo_start (load demo_readers))
     (process_step demo_externals demo_toolkit (load demo_readers) any_turn pages_honestly) s \<and> pc_force s = Force_off"
proof -
  obtain s where s: "reachable (process_start demo_externals demo_start (load demo_readers))
     (process_step demo_externals demo_toolkit (load demo_readers) any_turn pages_honestly) s"
    using demo_process_reachable by (elim exE conjE) rule
  have "\<not> redis_connection (se_redis demo_start) (redis_url (redis_cfg (load demo_readers)))"
    by (simp add: redis_connection_def)
  from redis_is_needed_at_start [OF s this] s show ?thesis by (intro exI [of _ s] conjI) simp_all
qed

end
