(* ===== verification/Losses.thy ===== *)
theory Losses
  imports View
begin

text \<open>
  What the monitoring service knows when rows are lost to a full channel (\<open>process_work_item\<close> of
  \<open>src/src/collector.rs\<close>, with the heartbeat of \<open>src/src/change_detection.rs\<close>): each step of the system is
  watched by a history of the rows that were emitted and not admitted.
\<close>

subsection \<open>The history of lost rows\<close>

text \<open>The state of a server claims to have emitted something that its state before did not claim.\<close>

definition newly_claims :: "states \<Rightarrow> states \<Rightarrow> str \<Rightarrow> bool" where
  "newly_claims m m' k \<longleftrightarrow>
     (case hm_get m' k of
        None \<Rightarrow> False
      | Some st' \<Rightarrow> has_emitted_state st' \<and>
          (case hm_get m k of
             None \<Rightarrow> True
           | Some st \<Rightarrow> \<not> has_emitted_state st \<or> last_obs st' \<noteq> last_obs st \<or> last_emitted_at st' \<noteq> last_emitted_at st))"

text \<open>The servers for which that happens while no row is admitted, each with the time of the emission.\<close>

definition losses :: "system \<Rightarrow> system \<Rightarrow> (str \<times> f64) set" where
  "losses s t =
     {(k, d). newly_claims (p_states (sy_poller s)) (p_states (sy_poller t)) k \<and>
        Option.bind (hm_get (p_states (sy_poller t)) k) last_emitted_at = Some d \<and> sy_admitted t = sy_admitted s}"

inductive lossy_step ::
  "externals \<Rightarrow> grpc_toolkit \<Rightarrow> settings \<Rightarrow> (ingest_env \<Rightarrow> bool) \<Rightarrow>
   system \<times> (str \<times> f64) set \<Rightarrow> system \<times> (str \<times> f64) set \<Rightarrow> bool" for X G S A where
  watched: "system_step X G S A s t \<Longrightarrow> lossy_step X G S A (s, L) (t, L \<union> losses s t)"

inductive_cases lossy_stepE: "lossy_step X G S A sL tL"

definition lossy_start :: "collector_settings \<Rightarrow> wal \<Rightarrow> f64 \<Rightarrow> system \<times> (str \<times> f64) set \<Rightarrow> bool" where
  "lossy_start C w now sL \<longleftrightarrow> system_start C w now (fst sL) \<and> snd sL = {}"

lemma lossy_is_system:
  "reachable (lossy_start C w now) (lossy_step X G S A) sL \<Longrightarrow> reachable (system_start C w now) (system_step X G S A) (fst sL)"
proof (induction rule: reachable.induct)
  case (reachable_start sL)
  then show ?case by (auto simp: lossy_start_def intro: reachable.reachable_start)
next
  case (reachable_step sL tL)
  then show ?case by (auto elim!: lossy_stepE intro: reachable.reachable_step)
qed

text \<open>Every run of the system is watched.\<close>

lemma system_is_lossy:
  "reachable (system_start C w now) (system_step X G S A) s \<Longrightarrow> \<exists>L. reachable (lossy_start C w now) (lossy_step X G S A) (s, L)"
proof (induction rule: reachable.induct)
  case (reachable_start s)
  then have "reachable (lossy_start C w now) (lossy_step X G S A) (s, {})"
    by (intro reachable.reachable_start) (simp add: lossy_start_def)
  then show ?case ..
next
  case (reachable_step s t)
  then obtain L where "reachable (lossy_start C w now) (lossy_step X G S A) (s, L)" by blast
  from reachable.reachable_step [OF this watched [OF reachable_step.hyps(2)]] show ?case by blast
qed

subsection \<open>Only a full channel loses rows\<close>

lemma carries_no_claims:
  assumes "carries m m'"
  shows "\<not> newly_claims m m' k"
proof (cases "hm_get m' k")
  case (Some st')
  with assms show ?thesis by (rule carriesD) (auto simp: newly_claims_def Some)
qed (simp add: newly_claims_def)

lemma fetched_no_claims: "\<not> newly_claims (p_states s) (p_states (force_fetched X C d now target srv s)) k"
  by (cases "k = target"; cases "hm_get (p_states s) k")
    (auto simp: newly_claims_def force_fetched_def force_ping_fetched_def build_state_def Let_def hm_get_insert
      split: prod.splits)

text \<open>Rows are lost to a full channel only.\<close>

lemma losses_full:
  assumes "system_step X G S A s t" and "hm_ok (p_states (sy_poller s))" and "roomy (collector_cfg S) s"
  shows "losses s t = {}"
  using assms(1)
proof (cases rule: system_stepE)
  case (polled p new)
  from polled(2) assms(2) show ?thesis
  proof (cases rule: poller_step_claims)
    case none
    then show ?thesis using carries_no_claims [OF none(1)] by (simp add: polled losses_def)
  next
    case (fetched d now target srv)
    then show ?thesis using fetched_no_claims by (simp add: polled losses_def)
  next
    case (row k st' row st)
    then have "new = [row]" using polled(3) assms(3) by (simp add: offer_def roomy_def)
    then show ?thesis by (simp add: polled(1) losses_def)
  qed
qed (simp_all add: losses_def carries_no_claims)

lemma poller_inv_system_start: "system_start C w now s \<Longrightarrow> poller_inv (sy_poller s)"
  by (simp add: system_start_def system_new_def poller_inv_new)

interpretation tracked: transition_system "system_start C w now" "system_step X G S A" "\<lambda>s. poller_inv (sy_poller s)"
    for C w now X G S A
  by unfold_locales (auto intro: poller_inv_system_start poller_inv_system_step)

lemma roomy_runs_lose_nothing:
  "reachable (system_start C w now) (\<lambda>s t. system_step X G S A s t \<and> roomy (collector_cfg S) s) s \<Longrightarrow>
   reachable (lossy_start C w now) (lossy_step X G S A) (s, {})"
proof (induction rule: reachable.induct)
  case (reachable_start s)
  then show ?case by (intro reachable.reachable_start) (simp add: lossy_start_def)
next
  case (reachable_step s t)
  then have "reachable (system_start C w now) (system_step X G S A) s"
    using lossy_is_system by fastforce
  then have "hm_ok (p_states (sy_poller s))" using tracked.reachable_inv poller_inv_ok by blast
  then have "losses s t = {}" using losses_full reachable_step.hyps(2) by blast
  then have "lossy_step X G S A (s, {}) (t, {})"
    using watched [of X G S A s t "{}"] reachable_step.hyps(2) by simp
  with reachable_step.IH show ?case by (rule reachable.reachable_step)
qed

subsection \<open>Every claim is backed, or its row is lost\<close>

definition accounted :: "externals \<Rightarrow> (str \<times> f64) set \<Rightarrow> json list \<Rightarrow> str \<Rightarrow> server_state \<Rightarrow> bool" where
  "accounted X L rows k st \<longleftrightarrow> server_id st = k \<and>
     (has_emitted_state st \<longrightarrow> last_emitted_at st \<noteq> None \<and> ((k, the (last_emitted_at st)) \<in> L \<or> backed X rows k st))"

definition loss_inv :: "externals \<Rightarrow> system \<times> (str \<times> f64) set \<Rightarrow> bool" where
  "loss_inv X sL \<longleftrightarrow> poller_inv (sy_poller (fst sL)) \<and>
     (named_truly (sy_poller (fst sL)) \<longrightarrow>
       (\<forall>k st. hm_get (p_states (sy_poller (fst sL))) k = Some st \<longrightarrow> accounted X (snd sL) (sy_admitted (fst sL)) k st))"

lemma accounted_carries:
  assumes "carries m m'" and "\<And>k st. hm_get m k = Some st \<Longrightarrow> accounted X L rows k st" and "hm_get m' k = Some st'"
  shows "accounted X (L \<union> L') rows k st'"
  using assms(1,3) by (rule carriesD) (use assms(2) in \<open>auto simp: accounted_def backed_def\<close>)

lemma loss_inv_step:
  assumes "loss_inv X sL" and "lossy_step X G S A sL tL"
  shows "loss_inv X tL"
proof -
  obtain s L t where p: "sL = (s, L)" "tL = (t, L \<union> losses s t)" "system_step X G S A s t"
    using assms(2) by (auto elim!: lossy_stepE)
  have ok: "hm_ok (p_states (sy_poller s))" using assms(1) by (simp add: loss_inv_def p poller_inv_ok)
  have "accounted X (L \<union> losses s t) (sy_admitted t) j st1"
    if honest: "named_truly (sy_poller t)" and j: "hm_get (p_states (sy_poller t)) j = Some st1" for j st1
    using p(3)
  proof (cases rule: system_stepE)
    case (polled p' new)
    have "named_truly (sy_poller s)" using honest named_truly_before [OF polled(2)] by (simp add: polled(1))
    then have old: "accounted X L (sy_admitted s) j st" if "hm_get (p_states (sy_poller s)) j = Some st" for j st
      using assms(1) that by (simp add: loss_inv_def p)
    have "named_truly p'" using honest by (simp add: polled(1))
    with polled(2) ok show ?thesis
    proof (cases rule: poller_step_carries)
      case none
      then have "new = []" using polled(3) by auto
      then show ?thesis using accounted_carries [OF none(1) old] j by (simp add: polled(1))
    next
      case (row k st' row st)
      have new: "new = [] \<or> new = [row]" using row(4) polled(3) by (auto simp: offer_def split: if_splits)
      have id: "server_id st = k" using old [OF row(6)] by (simp add: accounted_def)
      show ?thesis
      proof (cases "j = k")
        case True
        then have st1: "st1 = st'" using j row(2) by (simp add: polled(1))
        show ?thesis
        proof (cases "new = []")
          case False
          then have "rows_of k new = [row]" using new row(8) by (simp add: id rows_of_def)
          then show ?thesis using row(3,5,7) True by (simp add: accounted_def backed_def st1 id polled(1))
        next
          case no_row: True
          show ?thesis
          proof (cases "newly_claims (p_states (sy_poller s)) (p_states (sy_poller t)) k")
            case True
            then have "(k, the (last_emitted_at st')) \<in> losses s t"
              using row(2,3) no_row by (auto simp: losses_def polled(1))
            then show ?thesis using row(3,7) \<open>j = k\<close> by (simp add: accounted_def st1 id)
          next
            case False
            then show ?thesis
              using old [OF row(6)] row(2,3,6,7) no_row \<open>j = k\<close>
              by (auto simp: newly_claims_def accounted_def backed_def st1 polled(1))
          qed
        qed
      next
        case False
        then have "hm_get (p_states (sy_poller s)) j = Some st1" using j row(2) by (simp add: polled(1))
        from old [OF this] show ?thesis
          using new rows_of_other [OF row(8), of j] False by (auto simp: accounted_def backed_def id polled(1))
      qed
    qed
  qed (use j honest assms(1) in \<open>auto simp: accounted_def loss_inv_def p named_truly_def\<close>)
  with poller_inv_system_step [OF _ p(3)] assms(1) show ?thesis by (simp add: loss_inv_def p)
qed

lemma loss_inv_start: "lossy_start C w now sL \<Longrightarrow> loss_inv X sL"
  using poller_inv_system_start [of C w now "fst sL"]
  by (simp add: loss_inv_def lossy_start_def system_start_def system_new_def) (simp add: poller_new_def)

interpretation lossy: transition_system "lossy_start C w now" "lossy_step X G S A" "loss_inv X" for C w now X G S A
  by unfold_locales (auto intro: loss_inv_start loss_inv_step)

subsection \<open>What a lost row costs\<close>

text \<open>What a poll leaves as the time of the last emission is less than a heartbeat ago.\<close>

lemma finish_state_recent:
  assumes "finish_state X C e snap result st = (st', payload, calls)"
    and "pr_status_ok result \<or> \<not> ws_plugin_managed snap \<or> ws_plugin_fallback_mode snap"
    and "0 < f64_of_u64 (heartbeat_interval_seconds C)" and "last_emitted_at st' = Some d"
  shows "we_now_emit e - f64_of_u64 (heartbeat_interval_seconds C) < d"
proof (cases payload)
  case None
  with finish_state_quiet [of X C e snap result st st' calls] assms show ?thesis
    by (auto simp: heartbeat_due_def)
next
  case (Some row)
  then show ?thesis using finish_state_emits(3) [OF assms(1) Some] assms(3,4) by simp
qed


subsection \<open>A run that loses a row\<close>

text \<open>
  Between two polls of the only server the scheduler is about to take its request, and nothing else is under
  way; during a poll, a worker has it.
\<close>

definition at_rest :: "str \<Rightarrow> server_state \<Rightarrow> poller \<Rightarrow> bool" where
  "at_rest k st p \<longleftrightarrow> hm_get (p_states p) k = Some st \<and> \<not> plugin_managed st \<and> p_dispatch p = Waiting \<and>
     waiter (p_sched p) = Looking \<and> heap (p_sched p) = [] \<and> spawned (p_sched p) = [(k, next_due st)] \<and>
     p_queue p = [] \<and> p_workers p = [] \<and> p_fetched p = {}"

definition in_poll :: "str \<Rightarrow> server_state \<Rightarrow> poller \<Rightarrow> bool" where
  "in_poll k st p \<longleftrightarrow> hm_get (p_states p) k = Some st \<and> \<not> plugin_managed st \<and> p_dispatch p = Waiting \<and>
     waiter (p_sched p) = Looking \<and> heap (p_sched p) = [] \<and> spawned (p_sched p) = [] \<and>
     p_queue p = [] \<and> p_workers p = [Polling k (snapshot_of st)] \<and> p_fetched p = {}"

lemma next_poll_begins:
  assumes "at_rest k st p" and "0 < max_concurrency C"
  shows "\<exists>q. (quiet_step X C)\<^sup>*\<^sup>* p q \<and> in_poll k st q"
proof -
  note r = assms(1) [unfolded at_rest_def]
  let ?p1 = "p\<lparr>p_sched := do_push (k, next_due st) (p_sched p)\<rparr>"
  let ?dt = "max 0 (next_due st - clock (p_sched ?p1))"
  let ?p2 = "?p1\<lparr>p_sched := (p_sched ?p1)\<lparr>clock := clock (p_sched ?p1) + ?dt\<rparr>\<rparr>"
  have 1: "quiet_step X C p ?p1"
    using work_step.push [of "(k, next_due st)" p X C] r by (simp add: quiet_step_def)
  have 2: "quiet_step X C ?p1 ?p2"
    using work_step.pass [of ?dt X C ?p1] by (simp add: quiet_step_def)
  obtain e where e: "heap (p_sched ?p2) = [e]" "ekey e = k" "due e = next_due st"
    using r by (auto simp: do_push_def heap_push_def Let_def)
  have c: "p_dispatch ?p2 = Waiting" "waiter (p_sched ?p2) = Looking" "next_due st \<le> clock (p_sched ?p2)"
    using r by (simp_all add: do_push_def Let_def)
  let ?p3 = "?p2\<lparr>p_sched := do_pop ((p_sched ?p2)\<lparr>waiter := Popping\<rparr>), p_dispatch := Got (ekey e) (due e)\<rparr>"
  have 3: "(quiet_step X C)\<^sup>*\<^sup>* ?p2 ?p3"
    by (rule single_entry_handed_over [OF c(1,2) e(1)]) (simp only: e(3) c(3))
  have g: "p_dispatch ?p3 = Got k (next_due st)" "hm_get (p_states ?p3) k = Some st" "p_queue ?p3 = []"
    "length (p_workers ?p3) < max_concurrency C"
    using e r assms(2) by simp_all
  let ?q = "begin_work k (?p3\<lparr>p_dispatch := Waiting, p_queue := [], p_workers := Taken k # p_workers ?p3\<rparr>)"
  have 4: "(quiet_step X C)\<^sup>*\<^sup>* ?p3 ?q" by (rule dispatched_steps [OF g])
  have pop: "heap (do_pop ((p_sched ?p2)\<lparr>waiter := Popping\<rparr>)) = []" "waiter (do_pop ((p_sched ?p2)\<lparr>waiter := Popping\<rparr>)) = Looking"
    "spawned (do_pop ((p_sched ?p2)\<lparr>waiter := Popping\<rparr>)) = []"
    using e c(3) r by (simp_all add: do_pop_def heap_peek_def heap_pop_def do_push_def Let_def)
  have q: "?q = ?p3\<lparr>p_dispatch := Waiting, p_queue := [], p_workers := [Polling k (snapshot_of st)]\<rparr>"
    unfolding begin_work_now [OF g(2)] using r by simp
  have "in_poll k st ?q" unfolding q in_poll_def using r pop by simp
  moreover have "(quiet_step X C)\<^sup>*\<^sup>* p ?q"
    using converse_rtranclp_into_rtranclp [of "quiet_step X C", OF 1
        converse_rtranclp_into_rtranclp [of "quiet_step X C", OF 2 rtranclp_trans [OF 3 4]]] .
  ultimately show ?thesis by blast
qed

lemma finish_state_modes:
  assumes "finish_state X C e snap result st = (st', payload, calls)"
  shows "plugin_managed st' = plugin_managed st"
proof -
  have n: "plugin_managed (note_outcome ok st) = plugin_managed st" for ok by (simp add: note_outcome_def Let_def)
  have pr: "plugin_managed st2 = plugin_managed s" if "maybe_probe_bedrock net ms g api r iv j s = (st2, b, cs)"
    for net ms g api r iv j s st2 b cs
    using that by (auto simp: maybe_probe_bedrock_def Let_def split: if_splits option.splits prod.splits)
  have fv: "plugin_managed st3 = plugin_managed s" if "maybe_update_favicon X api s fav = (st3, cs)" for api s fav st3 cs
    using that by (auto simp: maybe_update_favicon_def split: if_splits option.splits)
  have b: "plugin_managed st5 = plugin_managed s" if "build_change_payload X s pl ok now hb = (st5, p)" for s pl ok now hb st5 p
    using that by (cases rule: build_change_payload_cases [of s X pl ok now hb]) auto
  show ?thesis
    using assms by (auto simp: finish_state_def Let_def n split: if_splits prod.splits dest!: pr fv b)
qed

lemma poll_ends:
  assumes "in_poll k st q" and "finish_state X C e (snapshot_of st) result st = (st', payload, calls)"
    and "duration_from_secs (status_timeout_seconds C) \<noteq> None"
  shows "\<exists>p. work_step X C q p \<and> at_rest k st' p \<and> p_states p = hm_insert k st' (p_states q) \<and>
    p_rows p = offer (result_queue_maxsize C) payload (p_rows q) \<and>
    finish_work X C e (snapshot_of st) result k (p_states q, p_rows q) =
      ((p_states p, p_rows p), [(k, next_due st')], calls)"
proof -
  note r = assms(1) [unfolded in_poll_def]
  let ?rows = "offer (result_queue_maxsize C) payload (p_rows q)"
  have fw: "finish_work X C e (snapshot_of st) result k (p_states q, p_rows q) =
      ((hm_insert k st' (p_states q), ?rows), [(k, next_due st')], calls)"
    using r assms(2) by (simp add: finish_work_def)
  let ?p = "with_requests (hm_insert k st' (p_states q), [(k, next_due st')])
      (q\<lparr>p_workers := remove1 (Polling k (snapshot_of st)) (p_workers q), p_rows := ?rows\<rparr>)"
  have "work_step X C q ?p"
    by (rule work_step.finish [OF _ assms(3) fw]) (use r in simp)
  moreover have "at_rest k st' ?p"
    using r finish_state_modes [OF assms(2)] by (auto simp: at_rest_def with_requests_def schedule_all_def do_schedule_def)
  ultimately show ?thesis using fw by (intro exI [of _ ?p]) simp
qed

text \<open>The same in the system, watched.\<close>

lemma losses_same_states: "p_states (sy_poller t) = p_states (sy_poller s) \<Longrightarrow> losses s t = {}"
  by (simp add: losses_def carries_no_claims)

lemma losses_of_poll:
  assumes "p_states (sy_poller t) = hm_insert k st' (p_states (sy_poller s))" and "hm_get (p_states (sy_poller s)) k = Some st"
    and "sy_admitted t = sy_admitted s" and "has_emitted_state st'" and "last_obs st' \<noteq> last_obs st"
    and "last_emitted_at st' = Some d"
  shows "losses s t = {(k, d)}"
proof -
  have k: "newly_claims (p_states (sy_poller s)) (p_states (sy_poller t)) k"
    using assms(4,5) by (simp add: newly_claims_def assms(1,2))
  have j: "\<not> newly_claims (p_states (sy_poller s)) (p_states (sy_poller t)) j" if "j \<noteq> k" for j
    using that by (simp add: newly_claims_def assms(1) split: option.split)
  have d: "Option.bind (hm_get (p_states (sy_poller t)) k) last_emitted_at = Some d" by (simp add: assms(1,6))
  have "newly_claims (p_states (sy_poller s)) (p_states (sy_poller t)) a \<longleftrightarrow> a = k" for a using k j by blast
  then have "(a, b) \<in> losses s t \<longleftrightarrow> a = k \<and> Option.bind (hm_get (p_states (sy_poller t)) a) last_emitted_at = Some b" for a b
    by (simp add: losses_def assms(3))
  with d have "x \<in> losses s t \<longleftrightarrow> x = (k, d)" for x by (cases x) auto
  then show ?thesis by blast
qed

lemma lossy_quiet:
  assumes "(quiet_step X (collector_cfg S))\<^sup>*\<^sup>* p q" and "sy_poller s = p"
    and "reachable (lossy_start C w now) (lossy_step X G S A) (s, L)"
  shows "reachable (lossy_start C w now) (lossy_step X G S A) (s\<lparr>sy_poller := q\<rparr>, L)"
  using assms(1)
proof (induction rule: rtranclp_induct)
  case base
  show ?case using assms(3) by (simp add: assms(2) [symmetric])
next
  case (step q r)
  let ?s = "s\<lparr>sy_poller := q\<rparr>" and ?t = "s\<lparr>sy_poller := r\<rparr>"
  have "system_step X G S A ?s ?t"
    using system_step.polled [of X S ?s r "[]" G A] step(2) by (simp add: quiet_step_def poller_step.work)
  moreover have "losses ?s ?t = {}" by (rule losses_same_states) (use step(2) in \<open>simp add: quiet_step_def\<close>)
  ultimately have "lossy_step X G S A (?s, L) (?t, L)" using watched [of X G S A ?s ?t L] by simp
  with step.IH show ?case by (rule reachable.reachable_step)
qed

lemma lossy_poll:
  assumes "reachable (lossy_start C w now) (lossy_step X G S A) (s, L)" and "at_rest k st (sy_poller s)"
    and "finish_state X (collector_cfg S) e (snapshot_of st) result st = (st', payload, calls)"
    and "duration_from_secs (status_timeout_seconds (collector_cfg S)) \<noteq> None" and "0 < max_concurrency (collector_cfg S)"
    and "offer (result_queue_maxsize (collector_cfg S)) payload (p_rows (sy_poller s)) = p_rows (sy_poller s) @ new"
  shows "\<exists>u t. reachable (lossy_start C w now) (lossy_step X G S A) (u, L) \<and> lossy_step X G S A (u, L) (t, L \<union> losses u t) \<and>
    at_rest k st' (sy_poller t) \<and> p_rows (sy_poller t) = p_rows (sy_poller s) @ new \<and>
    sy_admitted u = sy_admitted s \<and> sy_admitted t = sy_admitted u @ new \<and>
    hm_get (p_states (sy_poller u)) k = Some st \<and> p_states (sy_poller t) = hm_insert k st' (p_states (sy_poller u)) \<and>
    finish_work X (collector_cfg S) e (snapshot_of st) result k (p_states (sy_poller u), p_rows (sy_poller u)) =
      ((p_states (sy_poller t), p_rows (sy_poller t)), [(k, next_due st')], calls)"
proof -
  obtain q where q: "(quiet_step X (collector_cfg S))\<^sup>*\<^sup>* (sy_poller s) q" "in_poll k st q"
    using next_poll_begins [OF assms(2,5)] by blast
  have rows: "p_rows q = p_rows (sy_poller s)"
    using q(1) by (induction rule: rtranclp_induct) (simp_all add: quiet_step_def)
  obtain p where p: "work_step X (collector_cfg S) q p" "at_rest k st' p" "p_states p = hm_insert k st' (p_states q)"
    "p_rows p = p_rows (sy_poller s) @ new"
    "finish_work X (collector_cfg S) e (snapshot_of st) result k (p_states q, p_rows q) =
      ((p_states p, p_rows p), [(k, next_due st')], calls)"
    using poll_ends [OF q(2) assms(3,4)] assms(6) by (auto simp: rows)
  let ?u = "s\<lparr>sy_poller := q\<rparr>"
  let ?t = "?u\<lparr>sy_poller := p, sy_admitted := sy_admitted ?u @ new\<rparr>"
  have u: "reachable (lossy_start C w now) (lossy_step X G S A) (?u, L)"
    by (rule lossy_quiet [OF q(1) refl assms(1)])
  have "system_step X G S A ?u ?t"
    using system_step.polled [of X S ?u p new G A] p(1,4) by (simp add: poller_step.work rows)
  then have "lossy_step X G S A (?u, L) (?t, L \<union> losses ?u ?t)" by (rule watched)
  with u p q(2) show ?thesis
    by (intro exI [of _ ?u] exI [of _ ?t]) (simp add: in_poll_def)
qed

lemma lossy_takes:
  assumes "reachable (lossy_start (collector_cfg S) w now) (lossy_step X G S A) (s, L)" and "p_rows (sy_poller s) = v # rows"
    and "auth_channel G (grpc_target (monitoring_cfg S)) (unwrap_or [] (api_token (monitoring_cfg S))) = Channel tg tk"
    and "A e" and "duration_from_secs (ingest_flush_seconds (collector_cfg S)) \<noteq> None"
  shows "\<exists>t. reachable (lossy_start (collector_cfg S) w now) (lossy_step X G S A) (t, L) \<and>
    sy_poller t = (sy_poller s)\<lparr>p_rows := rows\<rparr>"
proof -
  have "running (sy_ingest s)"
    using history.reachable_inv [OF lossy_is_system [OF assms(1)]] assms(5) by (auto simp: ingest_history_def ingest_start_def)
  moreover obtain i where "ingest_turn X G (monitoring_cfg S) (ingest_batch_size (collector_cfg S))
      (ingest_flush_seconds (collector_cfg S)) e (Received v) (sy_ingest s) = Some i"
    using ingest_turn_runs [OF assms(3)] by blast
  ultimately have step: "system_step X G S A s (s\<lparr>sy_poller := (sy_poller s)\<lparr>p_rows := rows\<rparr>, sy_ingest := i\<rparr>)"
    using assms(2,4) by (intro system_step.delivers_rows delivery_step.received_row) simp_all
  have "losses s (s\<lparr>sy_poller := (sy_poller s)\<lparr>p_rows := rows\<rparr>, sy_ingest := i\<rparr>) = {}"
    by (rule losses_same_states) simp
  then show ?thesis
    using reachable.reachable_step [OF assms(1) watched [OF step]]
    by (intro exI [of _ "s\<lparr>sy_poller := (sy_poller s)\<lparr>p_rows := rows\<rparr>, sy_ingest := i\<rparr>"]) simp
qed

definition cramped :: settings where
  "cramped = (load demo_readers)\<lparr>collector_cfg := demo_settings\<lparr>result_queue_maxsize := 1\<rparr>\<rparr>"

lemma cramped_fields:
  "collector_cfg cramped = demo_settings\<lparr>result_queue_maxsize := 1\<rparr>" "0 < max_concurrency (collector_cfg cramped)"
  "duration_from_secs (status_timeout_seconds (collector_cfg cramped)) \<noteq> None"
  "duration_from_secs (ingest_flush_seconds (collector_cfg cramped)) \<noteq> None"
  "result_queue_maxsize (collector_cfg cramped) = 1"
  "f64_of_u64 (heartbeat_interval_seconds (collector_cfg cramped)) = 300"
  using demo_durations
  by (simp_all add: cramped_def) (simp add: demo_settings_def load_collector_def demo_readers_def chain_def f64_of_u64_def)

lemma cramped_rests:
  "\<exists>s. reachable (lossy_start (collector_cfg cramped) demo_wal 0) (lossy_step demo_externals demo_toolkit cramped accepting) (s, {}) \<and>
     at_rest ''srv-1'' demo_tracked (sy_poller s) \<and> p_rows (sy_poller s) = []"
proof -
  let ?y = "system_new (collector_cfg cramped) demo_wal 0"
  let ?s = "?y\<lparr>sy_poller := demo_poller\<rparr>"
  have k: "server_key demo_externals demo_catalog = ''srv-1''" by (simp add: server_key_def demo_catalog_def)
  have "refresh_states demo_externals (collector_cfg cramped) (\<lambda>_. demo_draws) 100 [demo_catalog] (p_states poller_new) =
      refresh_states demo_externals demo_settings (\<lambda>_. demo_draws) 100 [demo_catalog] (p_states poller_new)"
    by (simp add: cramped_fields(1) refresh_states_def refresh_server_def poller_new_def k Let_def)
  then have "poller_step demo_externals (collector_cfg cramped) poller_new demo_poller"
    using poller_step.refresh [of "[demo_catalog]" demo_externals "collector_cfg cramped" poller_new "\<lambda>_. demo_draws" 100]
    by (simp add: demo_poller_def)
  then have step: "system_step demo_externals demo_toolkit cramped accepting ?y ?s"
    using system_step.polled [of demo_externals cramped ?y demo_poller "[]" demo_toolkit accepting]
    by (simp add: system_new_def poller_new_def)
  have y: "reachable (lossy_start (collector_cfg cramped) demo_wal 0) (lossy_step demo_externals demo_toolkit cramped accepting) (?y, {})"
    by (rule reachable.reachable_start) (simp add: lossy_start_def system_start_def)
  have "losses ?y ?s = {}"
    by (rule losses_full [OF step])
      (simp_all add: system_new_def poller_new_def hm_ok_def roomy_def cramped_fields(5))
  then have "reachable (lossy_start (collector_cfg cramped) demo_wal 0) (lossy_step demo_externals demo_toolkit cramped accepting) (?s, {})"
    using reachable.reachable_step [OF y watched [OF step]] by simp
  moreover have "at_rest ''srv-1'' demo_tracked demo_poller"
    by (simp add: at_rest_def do_schedule_def sched_new_def)
  ultimately show ?thesis by (intro exI [of _ ?s]) simp
qed

text \<open>
  The first poll finds the server down; its row fills the channel. The second finds it up; its row is lost. The
  ingest task then takes the first row.
\<close>

definition up_result :: poll_result where
  "up_result = \<lparr>pr_payload = demo_poll 3, pr_status_ok = True, pr_favicon = []\<rparr>"

lemma cramped_loses:
  "\<exists>s st. reachable (lossy_start (collector_cfg cramped) demo_wal 0) (lossy_step demo_externals demo_toolkit cramped accepting)
       (s, {(''srv-1'', 1000)}) \<and>
     at_rest ''srv-1'' st (sy_poller s) \<and> p_rows (sy_poller s) = [] \<and> last_emitted_at st = Some 1000 \<and> has_emitted_state st"
proof -
  let ?R = "\<lambda>s L. reachable (lossy_start (collector_cfg cramped) demo_wal 0)
    (lossy_step demo_externals demo_toolkit cramped accepting) (s, L)"
  note c = cramped_fields
  obtain s0 where s0: "?R s0 {}" "at_rest ''srv-1'' demo_tracked (sy_poller s0)" "p_rows (sy_poller s0) = []"
    using cramped_rests by blast
  let ?down = "failed_poll (json_obj [])"
  obtain st1 pl1 calls1 where f1: "finish_state demo_externals (collector_cfg cramped) demo_work_env (snapshot_of demo_tracked)
      ?down demo_tracked = (st1, pl1, calls1)" by (metis prod_cases3)
  obtain v1 where v1: "pl1 = Some v1" using first_poll_emits(1) [OF f1] by (auto simp: snapshot_of_def)
  have o1: "offer (result_queue_maxsize (collector_cfg cramped)) pl1 (p_rows (sy_poller s0)) = p_rows (sy_poller s0) @ [v1]"
    using v1 s0(3) by (simp add: offer_def c(5))
  obtain u1 t1 where t1: "?R u1 {}" "lossy_step demo_externals demo_toolkit cramped accepting (u1, {}) (t1, {} \<union> losses u1 t1)"
    "at_rest ''srv-1'' st1 (sy_poller t1)" "p_rows (sy_poller t1) = [v1]" "sy_admitted t1 = sy_admitted u1 @ [v1]"
    using lossy_poll [OF s0(1,2) f1 c(3,2) o1] s0(3) by auto
  have "losses u1 t1 = {}" using t1(5) by (simp add: losses_def)
  then have r1: "?R t1 {}" using reachable.reachable_step [OF t1(1,2)] by simp
  obtain st2 pl2 calls2 where f2: "finish_state demo_externals (collector_cfg cramped) demo_work_env (snapshot_of st1)
      up_result st1 = (st2, pl2, calls2)" by (metis prod_cases3)
  have up: "last_emitted_up st1 = Some False" "last_emitted_up st2 = Some True" "has_emitted_state st2"
    using finish_state_observes [OF f1] finish_state_observes [OF f2]
    by (auto simp: snapshot_of_def up_result_def failed_poll_def obs_up_last_obs [symmetric] simp del: obs_up_last_obs)
  then have ne: "last_obs st2 \<noteq> last_obs st1" by (metis obs_up_last_obs option.inject)
  obtain v2 where v2: "pl2 = Some v2"
    using finish_state_reports [OF f2] ne by (cases pl2) (auto simp: up_result_def)
  have at2: "last_emitted_at st2 = Some 1000"
    using finish_state_emits(3) [OF f2 v2] by (simp add: demo_work_env_def)
  have o2: "offer (result_queue_maxsize (collector_cfg cramped)) pl2 (p_rows (sy_poller t1)) = p_rows (sy_poller t1) @ []"
    using v2 t1(4) by (simp add: offer_def c(5))
  obtain u2 t2 where t2: "?R u2 {}" "lossy_step demo_externals demo_toolkit cramped accepting (u2, {}) (t2, {} \<union> losses u2 t2)"
    "at_rest ''srv-1'' st2 (sy_poller t2)" "p_rows (sy_poller t2) = [v1]" "sy_admitted t2 = sy_admitted u2"
    "hm_get (p_states (sy_poller u2)) ''srv-1'' = Some st1"
    "p_states (sy_poller t2) = hm_insert ''srv-1'' st2 (p_states (sy_poller u2))"
    using lossy_poll [OF r1 t1(3) f2 c(3,2) o2] t1(4) by auto
  have "losses u2 t2 = {(''srv-1'', 1000)}" by (rule losses_of_poll [OF t2(7,6,5) up(3) ne at2])
  then have r2: "?R t2 {(''srv-1'', 1000)}" using reachable.reachable_step [OF t2(1,2)] by simp
  have acc: "accepting (demo_env True)" by (simp add: accepting_def demo_env_def)
  obtain t3 where "?R t3 {(''srv-1'', 1000)}" "sy_poller t3 = (sy_poller t2)\<lparr>p_rows := []\<rparr>"
    using lossy_takes [OF r2 t2(4) demo_channel acc c(4)] by blast
  then show ?thesis
    using t2(3) at2 up(3) by (intro exI [of _ t3] exI [of _ st2]) (simp add: at_rest_def)
qed


end
