(* ===== verification/Outages.thy ===== *)
theory Outages
  imports Process Losses
begin

text \<open>
  Settings that end a task for good: a panic in a spawned task is the end of that task and of nothing else
  (\<open>run\<close>, \<open>ingest_loop\<close> and \<open>send_batch\<close> of \<open>src/src/collector.rs\<close>, \<open>poll_server\<close> of \<open>src/src/ping.rs\<close>,
  \<open>auth_channel\<close> of \<open>src/src/grpc_clients.rs\<close>). The process stays up and goes on with the rest.
\<close>

subsection \<open>An ingest task that cannot send\<close>

lemma refused_turn:
  assumes "auth_channel G (grpc_target cfg) (unwrap_or [] (api_token cfg)) = Channel_panic"
    and "ingest_turn X G cfg n fi e ev s = Some s'"
  shows "accepted s' = accepted s \<and> disk s' = disk s"
proof -
  have "send_batch X G cfg acc b = None" for acc b using assms(1) by (simp add: send_batch_def)
  then have "ingest_flush X G cfg n e t = None" for t
    by (simp add: ingest_flush_def flush_batch_def split: option.split)
  then show ?thesis
    using assms(2) by (auto simp: ingest_turn_def Let_def split: ingest_event.splits if_splits)
qed

text \<open>The token is refused, or the flush interval is no \<open>Duration\<close>.\<close>

definition cannot_send :: "grpc_toolkit \<Rightarrow> settings \<Rightarrow> bool" where
  "cannot_send G S \<longleftrightarrow>
     auth_channel G (grpc_target (monitoring_cfg S)) (unwrap_or [] (api_token (monitoring_cfg S))) = Channel_panic \<or>
     duration_from_secs (ingest_flush_seconds (collector_cfg S)) = None"

lemma process_step_ingest:
  assumes "process_step X G S A K s t"
  shows "sy_ingest (pc_system t) = sy_ingest (pc_system s) \<or>
    running (sy_ingest (pc_system s)) \<and>
    (\<exists>e ev. ingest_turn X G (monitoring_cfg S) (ingest_batch_size (collector_cfg S)) (ingest_flush_seconds (collector_cfg S))
       e ev (sy_ingest (pc_system s)) = Some (sy_ingest (pc_system t)))"
  using assms
proof (cases rule: process_step_system)
  case step
  from step(1) show ?thesis by (cases rule: system_stepE) auto
qed simp_all

text \<open>The process starts with nothing sent, and no server claims that anything was.\<close>

lemma process_started:
  assumes "process_start X E S s"
  shows "sy_ingest (pc_system s) = ingest_start (collector_cfg S) (se_wal E) (se_ingest_now E)"
    and "sy_admitted (pc_system s) = []" and "p_rows (pc_poller s) = []"
    and "hm_get (pc_states s) k = Some st \<Longrightarrow> \<not> has_emitted_state st"
proof -
  obtain ok m' reqs y p where y: "y = system_new (collector_cfg S) (se_wal E) (se_ingest_now E)"
    and p: "p = (sy_poller y)\<lparr>p_sched := (p_sched (sy_poller y))\<lparr>clock := se_now E\<rparr>\<rparr>"
    and r: "refresh_servers_once X (se_toolkit E) (se_catalog E) S (se_draws E) (se_now E) (p_states p) = Some (ok, m', reqs)"
    and s: "s = spawn_tasks E S (y\<lparr>sy_poller := with_requests (m', reqs) p\<rparr>)"
    using assms by (auto simp: process_start_def elim: runE)
  show "sy_ingest (pc_system s) = ingest_start (collector_cfg S) (se_wal E) (se_ingest_now E)"
    "sy_admitted (pc_system s) = []" "p_rows (pc_poller s) = []"
    by (simp_all add: s y p system_new_def) (simp add: poller_new_def)
  have new: "p_states p = []" by (simp add: p y system_new_def) (simp add: poller_new_def)
  show "\<not> has_emitted_state st" if g: "hm_get (pc_states s) k = Some st"
    using refresh_is_poller_step [OF r]
  proof
    assume "with_requests (m', reqs) p = p"
    then have "m' = []" using new by (metis with_requests_fields(1) fst_conv)
    then show ?thesis using g by (simp add: s hm_get_def)
  next
    assume "poller_step X (collector_cfg S) p (with_requests (m', reqs) p)"
    then have "carries [] m'"
      by (rule poller_step_carries)
        (use new p in \<open>auto simp: hm_ok_def hm_get_def named_truly_def system_new_def y poller_new_def\<close>)
    then show ?thesis by (rule carriesD [where k = k and st' = st]) (use g in \<open>auto simp: s hm_get_def\<close>)
  qed
qed

text \<open>
  C30: A monitoring token that is refused, or a flush interval that is no \<open>Duration\<close>, silences the process. In
  every state it can reach nothing has been accepted by the monitoring service, and nothing has been saved on disk
  either: the buffer is as it was found.
\<close>

theorem refused_token_silences_process:
  assumes "reachable (process_start X E S) (process_step X G S A K) s" and "cannot_send G S"
  shows "accepted (sy_ingest (pc_system s)) = [] \<and>
    disk (sy_ingest (pc_system s)) = disk (ingest_start (collector_cfg S) (se_wal E) (se_ingest_now E))"
proof -
  let ?i0 = "ingest_start (collector_cfg S) (se_wal E) (se_ingest_now E)"
  have "accepted (sy_ingest (pc_system s)) = [] \<and> disk (sy_ingest (pc_system s)) = disk ?i0 \<and>
    (running (sy_ingest (pc_system s)) \<longrightarrow> duration_from_secs (ingest_flush_seconds (collector_cfg S)) \<noteq> None)"
    using assms(1)
  proof (induction rule: reachable.induct)
    case (reachable_start s)
    then show ?case by (simp add: process_started(1) ingest_start_def)
  next
    case (reachable_step s t)
    from process_step_ingest [OF reachable_step.hyps(2)] show ?case
    proof (elim disjE conjE exE)
      fix e ev
      assume r: "running (sy_ingest (pc_system s))"
        and turn: "ingest_turn X G (monitoring_cfg S) (ingest_batch_size (collector_cfg S))
          (ingest_flush_seconds (collector_cfg S)) e ev (sy_ingest (pc_system s)) = Some (sy_ingest (pc_system t))"
      then have "auth_channel G (grpc_target (monitoring_cfg S)) (unwrap_or [] (api_token (monitoring_cfg S))) = Channel_panic"
        using reachable_step.IH assms(2) by (auto simp: cannot_send_def)
      from refused_turn [OF this turn] r show ?thesis using reachable_step.IH by simp
    qed (use reachable_step.IH in simp)
  qed
  then show ?thesis by simp
qed

text \<open>A toolkit that refuses an empty token, and settings that have one for the server service alone.\<close>

definition careful_toolkit :: grpc_toolkit where
  "careful_toolkit = \<lparr>target_ok = (\<lambda>_. True), token_ok = (\<lambda>token. token \<noteq> [])\<rparr>"

definition tokenless_settings :: settings where
  "tokenless_settings = (load demo_readers)\<lparr>server_cfg := \<lparr>grpc_target = ''http://server'', api_token = Some ''secret''\<rparr>\<rparr>"

lemma tokenless_starts:
  "\<exists>s. process_start demo_externals (demo_start\<lparr>se_toolkit := careful_toolkit\<rparr>) tokenless_settings s \<and>
     set (hm_keys (pc_states s)) = {''1'', ''2'', ''3''}"
proof -
  let ?E = "demo_start\<lparr>se_toolkit := careful_toolkit\<rparr>"
  have ok: "start_ok ?E tokenless_settings"
    using demo_start_ok by (simp add: start_ok_def tokenless_settings_def)
  have ch: "auth_channel (se_toolkit ?E) (grpc_target (server_cfg tokenless_settings))
      (unwrap_or [] (api_token (server_cfg tokenless_settings))) = Channel ''http://server'' ''secret''"
    by (simp add: auth_channel_def careful_toolkit_def tokenless_settings_def)
  have sv: "serves (se_catalog ?E) [demo_catalog_item ''1'', demo_catalog_item ''2''] [demo_catalog_item ''3'']"
    using demo_serves by simp
  obtain p where p: "run demo_externals ?E tokenless_settings = Some (spawn_tasks ?E tokenless_settings
      ((system_new (collector_cfg tokenless_settings) (se_wal ?E) (se_ingest_now ?E))\<lparr>sy_poller := p\<rparr>))"
    "set (hm_keys (p_states p)) =
      ci_id ` set ([demo_catalog_item ''1'', demo_catalog_item ''2''] @ [demo_catalog_item ''3'']) - {[]}"
    using run_starts [OF ok ch sv, of demo_externals] by auto
  have "0 \<le> se_now ?E" by simp
  with p(1) have "process_start demo_externals ?E tokenless_settings (spawn_tasks ?E tokenless_settings
      ((system_new (collector_cfg tokenless_settings) (se_wal ?E) (se_ingest_now ?E))\<lparr>sy_poller := p\<rparr>))"
    by (simp only: process_start_def)
  moreover have "set (hm_keys (p_states p)) = {''1'', ''2'', ''3''}" using p(2) by (auto simp: demo_catalog_item_def)
  ultimately show ?thesis by (intro exI conjI) (assumption, simp)
qed

theorem refused_token_silences_process_witness:
  "\<exists>s. reachable (process_start demo_externals (demo_start\<lparr>se_toolkit := careful_toolkit\<rparr>) tokenless_settings)
       (process_step demo_externals careful_toolkit tokenless_settings (\<lambda>_. True) (\<lambda>_. True)) s \<and>
     set (hm_keys (pc_states s)) = {''1'', ''2'', ''3''} \<and> accepted (sy_ingest (pc_system s)) = []"
proof -
  obtain s where s: "process_start demo_externals (demo_start\<lparr>se_toolkit := careful_toolkit\<rparr>) tokenless_settings s"
    "set (hm_keys (pc_states s)) = {''1'', ''2'', ''3''}" using tokenless_starts by blast
  have "api_token (monitoring_cfg tokenless_settings) = None"
    by (simp add: tokenless_settings_def load_def demo_readers_def)
  then have "cannot_send careful_toolkit tokenless_settings"
    by (simp add: cannot_send_def auth_channel_def careful_toolkit_def)
  moreover have r: "reachable (process_start demo_externals (demo_start\<lparr>se_toolkit := careful_toolkit\<rparr>) tokenless_settings)
      (process_step demo_externals careful_toolkit tokenless_settings (\<lambda>_. True) (\<lambda>_. True)) s"
    by (rule reachable.reachable_start) (rule s(1))
  ultimately have "accepted (sy_ingest (pc_system s)) = []" using refused_token_silences_process [OF r] by blast
  with r s(2) show ?thesis by blast
qed

subsection \<open>Polls without a timeout\<close>

text \<open>
  A status timeout that is no \<open>Duration\<close> ends each worker at its first poll. The process can reach no state in
  which a row has been emitted, for any server, or a state claims that one was.
\<close>

theorem bad_timeout_reports_nothing:
  assumes "reachable (process_start X E S) (process_step X G S A K) s"
    and "duration_from_secs (status_timeout_seconds (collector_cfg S)) = None"
  shows "sy_admitted (pc_system s) = [] \<and> (\<forall>k st. hm_get (pc_states s) k = Some st \<longrightarrow> \<not> has_emitted_state st)"
  using assms(1)
proof (induction rule: reachable.induct)
  case (reachable_start s)
  then show ?case using process_started(2,4) by blast
next
  case (reachable_step s t)
  have ok: "hm_ok (p_states (pc_poller s))"
    using process.reachable_inv [OF reachable_step.hyps(1)] by (simp add: poller_inv_ok)
  from reachable_step.hyps(2) show ?case
  proof (cases rule: process_step_system)
    case idle
    then show ?thesis using reachable_step.IH by (simp add: pc_states_def pc_poller_def)
  next
    case step
    from step(1) show ?thesis
    proof (cases rule: system_stepE)
      case (polled p new)
      from polled(2) ok [unfolded pc_poller_def] show ?thesis
      proof (cases rule: poller_step_claims)
        case none
        have "new = []" using none(2) polled(3) by auto
        moreover have "\<not> has_emitted_state st'" if "hm_get (p_states p) k = Some st'" for k st'
          using none(1) that by (rule carriesD) (use reachable_step.IH in \<open>auto simp: pc_states_def pc_poller_def\<close>)
        ultimately show ?thesis using polled(1) reachable_step.IH by (simp add: pc_states_def pc_poller_def)
      next
        case (fetched d now target srv)
        have st: "p_states p = hm_insert target (build_state X (rd_due d) (rd_probe d) (rd_utc d) srv now
            (startup_spread_seconds (collector_cfg S)) (bedrock_probe_interval_seconds (collector_cfg S))
            (plugin_fallback_stale_seconds (collector_cfg S))) (pc_states s)"
          by (simp add: fetched(1) force_fetched_def force_ping_fetched_def pc_states_def pc_poller_def Let_def)
        have "new = []" using polled(3) by (simp add: fetched(1))
        with st show ?thesis
          using reachable_step.IH
          by (auto simp: polled(1) pc_states_def pc_poller_def hm_get_insert build_state_def Let_def split: if_splits prod.splits)
      qed (use assms(2) in simp)
    qed (use reachable_step.IH in \<open>simp_all add: pc_states_def pc_poller_def\<close>)
  qed
qed

text \<open>The defaults, but for \<^verbatim>\<open>STATUS_TIMEOUT_SECONDS=-1\<close>.\<close>

definition hasty_readers :: env_readers where
  "hasty_readers = demo_readers\<lparr>env_f64 := (\<lambda>k d. if k = ''STATUS_TIMEOUT_SECONDS'' then - 1 else d)\<rparr>"

lemma hasty_settings:
  "status_timeout_seconds (collector_cfg (load hasty_readers)) = - 1" "start_ok demo_start (load hasty_readers)"
proof -
  show "status_timeout_seconds (collector_cfg (load hasty_readers)) = - 1"
    unfolding collector_cfg_load by (simp add: load_collector_def hasty_readers_def demo_readers_def chain_def)
  have "http_timeout_seconds (load_collector hasty_readers) = 15" "max_concurrency (load_collector hasty_readers) = 25"
    "result_queue_maxsize (load_collector hasty_readers) = 5000" "page_size (load_collector hasty_readers) = 100"
    by (simp_all add: load_collector_def hasty_readers_def demo_readers_def chain_def)
  moreover have "dns_max_concurrency (load_geo hasty_readers) = 32"
    by (simp add: load_geo_def hasty_readers_def demo_readers_def)
  moreover have "se_http_ok demo_start" by (simp add: demo_start_def)
  ultimately show "start_ok demo_start (load hasty_readers)"
    by (simp add: start_ok_def collector_cfg_load geo_cfg_load MAX_PERMITS_def)
qed

theorem bad_timeout_reports_nothing_witness:
  "\<exists>s. reachable (process_start demo_externals demo_start (load hasty_readers))
       (process_step demo_externals demo_toolkit (load hasty_readers) (\<lambda>_. True) (\<lambda>_. True)) s \<and>
     set (hm_keys (pc_states s)) = {''1'', ''2'', ''3''} \<and> sy_admitted (pc_system s) = []"
proof -
  obtain s where s: "process_start demo_externals demo_start (load hasty_readers) s"
    "set (hm_keys (pc_states s)) = {''1'', ''2'', ''3''}"
    using run_starts [OF hasty_settings(2), of _ _ "[demo_catalog_item ''1'', demo_catalog_item ''2'']" "[demo_catalog_item ''3'']" demo_externals]
      demo_channel demo_serves by (auto simp: process_start_def demo_catalog_item_def)
  have "duration_from_secs (status_timeout_seconds (collector_cfg (load hasty_readers))) = None"
    by (simp add: hasty_settings(1) duration_from_secs_def)
  moreover have r: "reachable (process_start demo_externals demo_start (load hasty_readers))
      (process_step demo_externals demo_toolkit (load hasty_readers) (\<lambda>_. True) (\<lambda>_. True)) s"
    by (rule reachable.reachable_start) (rule s(1))
  ultimately have "sy_admitted (pc_system s) = []" using bad_timeout_reports_nothing [OF r] by blast
  with r s(2) show ?thesis by blast
qed

end
