(* ===== verification/Reporting.thy ===== *)
theory Reporting
  imports Worker
begin

text \<open>
  One poll from the bytes on the wire to the row: \<open>process_work_item\<close> of \<open>src/src/collector.rs\<close> over
  \<open>src/src/ping.rs\<close> and \<open>src/src/change_detection.rs\<close>, for a server that answers as the protocol asks.
\<close>

text \<open>
  A connection to a server that takes what it is sent and answers with the status in \<open>body\<close>; anything may
  follow.
\<close>

definition answers_with :: "u8 list \<Rightarrow> tcp_conn \<Rightarrow> bool" where
  "answers_with body conn \<longleftrightarrow>
     tcp_connects conn \<and> tcp_options conn \<and> (\<forall>bs. tcp_write conn bs) \<and>
     (\<exists>rest. tcp_stream conn = status_packet body @ rest) \<and> length body < 2 ^ 31"

lemma try_ping_answers:
  assumes "answers_with body conn" and "decode body = Some js"
  shows "try_ping_java_status decode conn h p v = Inr js"
  using assms read_status_packet [of body decode]
  by (auto simp: answers_with_def try_ping_java_status_def split: prod.split)

text \<open>
  The server answers at attempt \<open>j\<close>: the connections before it do not come about, and no attempt up to it begins
  after the timeout.
\<close>

definition answers_at :: "nat \<Rightarrow> u8 list \<Rightarrow> poll_env \<Rightarrow> f64 \<Rightarrow> bool" where
  "answers_at j body env timeout \<longleftrightarrow>
     answers_with body (conn_at (pe_ping env) j) \<and> elapsed (pe_ping env) j \<le> timeout \<and>
     (\<forall>i<j. \<not> tcp_connects (conn_at (pe_ping env) i) \<and> elapsed (pe_ping env) i \<le> timeout)"

lemma poll_java_answers:
  assumes "resolve_java_connect_target (pe_srv env) h p = (target, target_port)"
    and "pe_addrs env target target_port = Some addrs" and "pe_worker_ok env"
    and "answers_at j body env timeout" and "j < 9 * length addrs" and "pe_decode env body = Some js"
  shows "poll_java env sid h p timeout t c cc = java_poll_result js sid t c cc"
proof -
  have "try_ping_java_status (pe_decode env) (conn_at (pe_ping env) i) h target_port v = Inl Connect_failed" if "i < j" for i v
    using assms(4) that by (simp add: answers_at_def try_ping_java_status_def split: prod.split)
  then have "ping_java_status_blocking (pe_decode env) (pe_ping env) addrs h target_port timeout = Inr js"
    unfolding ping_blocking_Inr
    using assms(4-6) try_ping_answers [of body "conn_at (pe_ping env) j" "pe_decode env" js]
    by (intro exI [of _ j]) (auto simp: answers_at_def)
  then show ?thesis using assms(1-3) by (simp add: poll_java_def)
qed

text \<open>What there is to observe when a server answers with the status \<open>js\<close>.\<close>

definition observed :: "externals \<Rightarrow> java_status \<Rightarrow> str \<Rightarrow> str \<Rightarrow> observation" where
  "observed X js c cc =
     \<lparr>obs_up = Some True, obs_online = Some (js_online js), obs_max = Some (js_max js),
      obs_version = trim (sanitize_minecraft_version (trim (js_version_name js))),
      obs_motd = trim (motd_from_description (js_description js)),
      obs_country = trim c, obs_country_code = trim cc,
      obs_hash = players_hash X (keep_new {} (filter (\<lambda>n. n \<noteq> []) (map trim (extract_player_names (js_sample js)))))\<rparr>"

lemma current_obs_java:
  assumes "js_online js < 2 ^ 63" and "js_max js < 2 ^ 63"
  shows "snd (current_obs X st (pr_payload (java_poll_result js sid t c cc)) True) = observed X js c cc"
proof -
  have "js_online js \<le> 0x7FFFFFFFFFFFFFFF" "js_max js \<le> 0x7FFFFFFFFFFFFFFF"
    using assms by (simp_all add: word_le_nat_alt word_less_nat_alt)
  then show ?thesis
    by (simp add: current_obs_def observed_def java_poll_result_def Let_def get_i64_def get_str_def text_field_def
        json_u64_def extract_players_def SERVER_LIST_VERSION_NAME_EXTRA_KEY_def)
qed

text \<open>
  C3: A server that answers is reported as it answered. When the server of a work item is a Java server and
  its answer arrives whole at some attempt before the timeout, the item leaves a state whose emitted fields are that
  answer: up, with its numbers, the cleaned version, the message, the players, and the country that was looked up.
  The server is put back on the schedule, and exactly when this is its first report, or differs from what was
  emitted last, or a heartbeat is due, the channel, which has room, ends with a new row, and that row shows just
  this answer under the identifier of the server. The timeouts of the poll and of the look-up are \<open>Duration\<close>s.
\<close>

theorem answering_server_is_reported:
  assumes "process_work_item X C e penv genv t k (cache, m, queue) = ((cache', m', queue'), outcome)"
    and "hm_get m k = Some st" and "edition st = Java" and "\<not> (plugin_managed st \<and> is_internal_only_host (host st))"
    and "resolve_java_connect_target (pe_srv penv) (host st) (port st) = (target, target_port)"
    and "pe_addrs penv target target_port = Some addrs" and "pe_worker_ok penv"
    and "answers_at j body penv (status_timeout_seconds C)" and "j < 9 * length addrs"
    and "pe_decode penv body = Some js" and "js_online js < 2 ^ 63" and "js_max js < 2 ^ 63"
    and "length queue < result_queue_maxsize C"
    and "duration_from_secs (status_timeout_seconds C) \<noteq> None" and "duration_from_secs (lookup_timeout cache) \<noteq> None"
  shows "\<exists>st' calls c cc. outcome = Some ([(k, next_due st')], calls) \<and>
    hm_get m' k = Some st' \<and> has_emitted_state st' \<and>
    last_obs st' = observed X js c cc \<and> fst (fetch_geo genv cache (host st) (port st) Java) = Some (c, cc) \<and>
    (if has_emitted_state st \<and> last_obs st = observed X js c cc \<and>
        \<not> heartbeat_due st (we_now_emit e) (f64_of_u64 (heartbeat_interval_seconds C))
     then queue' = queue
     else \<exists>row. queue' = queue @ [row] \<and> row_shows X row (observed X js c cc) \<and>
       get_str ''server_id'' row = Some (server_id st))"
proof -
  obtain c cc cache1 gcalls where geo: "fetch_geo genv cache (host st) (port st) Java = (Some (c, cc), cache1, gcalls)"
    using fetch_geo_answers [OF assms(15)] by (metis not_None_eq prod.collapse)
  let ?result = "java_poll_result js (server_id st) t c cc"
  have poll: "poll_server penv genv cache t (server_id st) (host st) (port st) Java (status_timeout_seconds C) =
      (Some ?result, cache1, gcalls)"
    using poll_java_answers [OF assms(5-10)] assms(14) by (simp add: poll_server_def geo)
  obtain st' payload calls' where f: "finish_state X C e (snapshot_of st) ?result st = (st', payload, calls')"
    by (metis prod_cases3)
  have ok: "pr_status_ok ?result" by (simp add: java_poll_result_def Let_def)
  have "work_begin m k = Poll (snapshot_of st)"
    using assms(2,4) by (auto simp: work_begin_def snapshot_of_def Let_def)
  then have m': "m' = hm_insert k st' m" "queue' = offer (result_queue_maxsize C) payload queue"
    "outcome = Some ([(k, next_due st')], calls')"
    using assms(1-3) poll f by (auto simp: process_work_item_def finish_work_def snapshot_of_def)
  have up: "has_emitted_state st' \<and> last_obs st' = snd (current_obs X st' (pr_payload ?result) True)"
    using finish_state_observes [OF f] ok by simp
  then have obs: "last_obs st' = observed X js c cc" using current_obs_java [OF assms(11,12)] by simp
  have "payload = None \<longleftrightarrow> has_emitted_state st \<and> last_obs st = observed X js c cc \<and>
      \<not> heartbeat_due st (we_now_emit e) (f64_of_u64 (heartbeat_interval_seconds C))"
    using finish_state_reports [OF f] ok obs by simp
  then show ?thesis
    using up finish_state_emits(3) [OF f] assms(13) geo obs
    by (intro exI [of _ st'] exI [of _ calls'] exI [of _ c] exI [of _ cc]) (auto simp: m' offer_def split: option.split)
qed

text \<open>A server that answers at the second attempt.\<close>

lemma demo_resolve_java:
  "resolve_java_connect_target (pe_srv demo_poll_env) h p = (h, unwrap_or 25565 p)"
  by (simp add: resolve_java_connect_target_def demo_poll_env_def JAVA_DEFAULT_PORT_def Let_def split: option.split)

theorem answering_server_is_reported_witness:
  "\<exists>m' cache' outcome st' row. process_work_item demo_externals demo_settings demo_work_env demo_poll_env
       (demo_geo_env 0) ''now'' ''srv-1'' (demo_geo_cache, [(''srv-1'', demo_state)], []) = ((cache', m', [row]), outcome) \<and>
     outcome \<noteq> None \<and> hm_get m' ''srv-1'' = Some st' \<and> last_emitted_online st' = Some 3 \<and>
     get_str ''server_id'' row = Some (server_id demo_state) \<and> row_status (view_of_row row) = Some ''ok'' \<and>
     row_online (view_of_row row) = Some 3"
proof -
  let ?F = "process_work_item demo_externals demo_settings demo_work_env demo_poll_env
       (demo_geo_env 0) ''now'' ''srv-1'' (demo_geo_cache, [(''srv-1'', demo_state)], [])"
  obtain cache' m' queue' outcome where f: "?F = ((cache', m', queue'), outcome)"
    by (metis prod.collapse)
  have g: "hm_get [(''srv-1'', demo_state)] ''srv-1'' = Some demo_state" by (simp add: hm_get_def)
  have st: "edition demo_state = Java" "\<not> (plugin_managed demo_state \<and> is_internal_only_host (host demo_state))"
    by (auto simp: demo_state_def build_state_def demo_catalog_def is_plugin_managed_def normalize_edition_def get_str_def
        Let_def split: prod.splits)
  have fresh: "\<not> has_emitted_state demo_state" by (simp add: demo_state_def build_state_def Let_def split: prod.splits)
  have a: "pe_addrs demo_poll_env (host demo_state) (unwrap_or 25565 (port demo_state)) = Some [''192.0.2.1'']"
    "pe_worker_ok demo_poll_env" "pe_decode demo_poll_env [0x7B, 0x7D] = Some demo_status"
    by (simp_all add: demo_poll_env_def)
  have "status_timeout_seconds demo_settings = 8"
    by (simp add: demo_settings_def load_collector_def demo_readers_def chain_def)
  then have w: "answers_at 1 [0x7B, 0x7D] demo_poll_env (status_timeout_seconds demo_settings)"
    by (auto simp: answers_at_def answers_with_def demo_poll_env_def demo_ping_env_def)
  have n: "1 < 9 * length [''192.0.2.1'']" "js_online demo_status < 2 ^ 63" "js_max demo_status < 2 ^ 63"
    "length ([] :: json list) < result_queue_maxsize demo_settings"
    by (simp_all add: demo_status_def demo_settings_def load_collector_def demo_readers_def chain_def)
  from answering_server_is_reported [OF f g st demo_resolve_java a(1,2) w n(1) a(3) n(2-4) demo_status_timeout
      demo_geo_cache_timeout]
  obtain st' c cc row where r: "outcome \<noteq> None" "hm_get m' ''srv-1'' = Some st'"
    "last_obs st' = observed demo_externals demo_status c cc" "queue' = [row]"
    "row_shows demo_externals row (observed demo_externals demo_status c cc)"
    "get_str ''server_id'' row = Some (server_id demo_state)"
    by (auto simp: fresh)
  have "last_emitted_online st' = obs_online (last_obs st')" by (simp add: last_obs_def)
  then have "last_emitted_online st' = Some 3" unfolding r(3) by (simp add: observed_def demo_status_def)
  moreover have "row_status (view_of_row row) = Some ''ok''" "row_online (view_of_row row) = Some 3"
    using r(5) by (simp_all add: row_shows_def observed_def demo_status_def status_name_def Let_def)
  ultimately show ?thesis using f r(1,2,4,6) by blast
qed

end
