(* ===== verification/Races.thy ===== *)
theory Races
  imports Poller
begin

text \<open>
  Two polls of one server at a time (\<open>run\<close> and \<open>process_work_item\<close> of \<open>src/src/collector.rs\<close>): a worker gives
  its server back to nobody while it polls, so that a trigger, a refresh or a force ping in that time sends
  a second worker to it.
\<close>

lemma finish_steps:
  fixes result :: poll_result
  assumes "Polling k snap \<in> set (p_workers s)" and "hm_get (p_states s) k = Some st"
    and "pr_status_ok result \<or> \<not> ws_plugin_managed snap \<or> ws_plugin_fallback_mode snap"
    and "duration_from_secs (status_timeout_seconds C) \<noteq> None"
  shows "\<exists>t st' e reqs calls. work_step X C s t \<and> p_workers t = remove1 (Polling k snap) (p_workers s) \<and>
    finish_work X C e snap result k (p_states s, p_rows s) = ((p_states t, p_rows t), reqs, calls) \<and>
    hm_get (p_states t) k = Some st' \<and>
    last_obs st' = snd (current_obs X st' (pr_payload result) (pr_status_ok result))"
proof -
  obtain st' payload calls where f: "finish_state X C demo_work_env snap result st = (st', payload, calls)"
    by (metis prod_cases3)
  let ?t = "with_requests (hm_insert k st' (p_states s), [(k, next_due st')])
    (s\<lparr>p_workers := remove1 (Polling k snap) (p_workers s), p_rows := offer (result_queue_maxsize C) payload (p_rows s)\<rparr>)"
  have fw: "finish_work X C demo_work_env snap result k (p_states s, p_rows s) =
      ((p_states ?t, p_rows ?t), [(k, next_due st')], calls)"
    by (simp add: finish_work_def assms(2) f)
  have "work_step X C s ?t"
    by (rule work_step.finish [OF assms(1,4), of X demo_work_env result _ _ _ calls])
      (simp add: finish_work_def assms(2) f)
  moreover have "p_workers ?t = remove1 (Polling k snap) (p_workers s)" "hm_get (p_states ?t) k = Some st'" by simp_all
  ultimately show ?thesis using finish_state_observes [OF f assms(3)] fw by blast
qed

text \<open>A server that is made due now, with nothing else scheduled, is polled by a worker more.\<close>

lemma triggered_steps:
  assumes "hm_get (p_states s) k = Some st" and "key st = k" and "\<not> plugin_managed st"
    and "p_dispatch s = Waiting" and "waiter (p_sched s) = Looking" and "heap (p_sched s) = []"
    and "spawned (p_sched s) = []" and "p_queue s = []" and "length (p_workers s) < max_concurrency C"
  shows "\<exists>t st' snap. (poller_step X C)\<^sup>*\<^sup>* s t \<and> p_workers t = Polling k snap # p_workers s \<and>
    \<not> ws_plugin_managed snap \<and> hm_get (p_states t) k = Some st'"
proof -
  let ?now = "clock (p_sched s)"
  let ?st = "due_now ?now st"
  let ?s1 = "with_requests (hm_insert k ?st (p_states s), [(k, ?now)]) s"
  let ?s2 = "?s1\<lparr>p_sched := do_push (k, ?now) (p_sched ?s1)\<rparr>"
  have t: "trigger_targets ?now (Some [k]) (p_states s) = (hm_insert k ?st (p_states s), [(k, ?now)])"
    using assms(1,2) by (simp add: trigger_targets_def)
  have 1: "poller_step X C s ?s1"
    using poller_step.trigger [of X C s ?now "Some [k]"] unfolding t .
  have sp: "spawned (p_sched ?s1) = [(k, ?now)]" using assms(7) by (simp add: with_requests_def)
  have 2: "work_step X C ?s1 ?s2" by (rule work_step.push) (simp add: sp)
  obtain e where e: "heap (p_sched ?s2) = [e]" "ekey e = k" "due e = ?now" "clock (p_sched ?s2) = ?now"
    "waiter (p_sched ?s2) = Looking"
    using assms(5-7) by (auto simp: with_requests_def do_push_def heap_push_def Let_def schedule_all_def do_schedule_def)
  have d: "p_dispatch ?s2 = Waiting" using assms(4) by simp
  let ?s3 = "?s2\<lparr>p_sched := do_pop ((p_sched ?s2)\<lparr>waiter := Popping\<rparr>), p_dispatch := Got (ekey e) (due e)\<rparr>"
  have 3: "(work_step X C)\<^sup>*\<^sup>* ?s2 ?s3"
    by (rule quiet_steps, rule single_entry_handed_over [OF d e(5,1)]) (simp only: e(3,4))
  have g: "hm_get (p_states ?s3) k = Some ?st" by simp
  have got: "p_dispatch ?s3 = Got k (next_due ?st)" "p_queue ?s3 = []" "length (p_workers ?s3) < max_concurrency C"
    using e(2,3) assms(8,9) by simp_all
  let ?s4 = "begin_work k (?s3\<lparr>p_dispatch := Waiting, p_queue := [], p_workers := Taken k # p_workers ?s3\<rparr>)"
  have 4: "(work_step X C)\<^sup>*\<^sup>* ?s3 ?s4"
    by (rule quiet_steps, rule dispatched_steps [OF got(1) g got(2,3)])
  have m: "\<not> plugin_managed ?st" using assms(3) by (simp add: due_now_def)
  have s4: "?s4 = ?s3\<lparr>p_dispatch := Waiting, p_queue := [], p_workers := Polling k (snapshot_of ?st) # p_workers ?s3\<rparr>"
    unfolding begin_work_now [OF g] using m by simp
  have "(work_step X C)\<^sup>*\<^sup>* ?s1 ?s4"
    by (rule converse_rtranclp_into_rtranclp [of "work_step X C", OF 2 rtranclp_trans [OF 3 4]])
  then have "(poller_step X C)\<^sup>*\<^sup>* ?s1 ?s4" by (rule mono_rtranclp [rule_format, rotated]) (rule poller_step.work)
  then have steps: "(poller_step X C)\<^sup>*\<^sup>* s ?s4" by (rule converse_rtranclp_into_rtranclp [of "poller_step X C", OF 1])
  have "p_workers ?s4 = Polling k (snapshot_of ?st) # p_workers s" unfolding s4 by simp
  moreover have "hm_get (p_states ?s4) k = Some ?st" unfolding s4 by simp
  moreover have "\<not> ws_plugin_managed (snapshot_of ?st)" using m by (simp add: snapshot_of_def)
  ultimately show ?thesis using steps by blast
qed

text \<open>
  C25: Nothing keeps a second worker from a server that is being polled, and the poll that ends last counts, not the
  one that began last. With a status timeout that is a \<open>Duration\<close>, from a state in which a worker polls a server (the
  older poll), the tasks can go on to one in which a second worker has begun to poll it while the first still does
  (the newer poll); the newer poll can end first, and be recorded, while the older one is still under way; and when
  the older one ends, its result replaces the newer one.
\<close>

theorem older_poll_can_replace_newer:
  fixes newer older :: poll_result
  assumes "Polling k snap \<in> set (p_workers s)" and "\<not> ws_plugin_managed snap"
    and "hm_get (p_states s) k = Some st" and "key st = k" and "\<not> plugin_managed st"
    and "p_dispatch s = Waiting" and "waiter (p_sched s) = Looking" and "heap (p_sched s) = []"
    and "spawned (p_sched s) = []" and "p_queue s = []" and "length (p_workers s) < max_concurrency C"
    and timeout: "duration_from_secs (status_timeout_seconds C) \<noteq> None"
  shows "\<exists>a snap2 t st1 e1 r1 c1 u st2 e2 r2 c2.
    (poller_step X C)\<^sup>*\<^sup>* s a \<and> p_workers a = Polling k snap2 # p_workers s \<and>
    work_step X C a t \<and> p_workers t = p_workers s \<and>
    finish_work X C e1 snap2 newer k (p_states a, p_rows a) = ((p_states t, p_rows t), r1, c1) \<and>
    hm_get (p_states t) k = Some st1 \<and>
    last_obs st1 = snd (current_obs X st1 (pr_payload newer) (pr_status_ok newer)) \<and>
    work_step X C t u \<and> p_workers u = remove1 (Polling k snap) (p_workers s) \<and>
    finish_work X C e2 snap older k (p_states t, p_rows t) = ((p_states u, p_rows u), r2, c2) \<and>
    hm_get (p_states u) k = Some st2 \<and>
    last_obs st2 = snd (current_obs X st2 (pr_payload older) (pr_status_ok older))"
proof -
  obtain a sta snap2 where a: "(poller_step X C)\<^sup>*\<^sup>* s a" "p_workers a = Polling k snap2 # p_workers s"
    "\<not> ws_plugin_managed snap2" "hm_get (p_states a) k = Some sta"
    using triggered_steps [OF assms(3-11), of X] by blast
  have "Polling k snap2 \<in> set (p_workers a)" using a(2) by simp
  from finish_steps [OF this a(4) _ timeout, of newer X] obtain t st1 e1 r1 c1 where
    t: "work_step X C a t" "p_workers t = p_workers s" "hm_get (p_states t) k = Some st1"
      "last_obs st1 = snd (current_obs X st1 (pr_payload newer) (pr_status_ok newer))"
      "finish_work X C e1 snap2 newer k (p_states a, p_rows a) = ((p_states t, p_rows t), r1, c1)"
    using a(2,3) by auto
  have "Polling k snap \<in> set (p_workers t)" using assms(1) t(2) by simp
  from finish_steps [OF this t(3) _ timeout, of older X] obtain u st2 e2 r2 c2 where
    u: "work_step X C t u" "p_workers u = remove1 (Polling k snap) (p_workers s)" "hm_get (p_states u) k = Some st2"
      "last_obs st2 = snd (current_obs X st2 (pr_payload older) (pr_status_ok older))"
      "finish_work X C e2 snap older k (p_states t, p_rows t) = ((p_states u, p_rows u), r2, c2)"
    using assms(2) t(2) by auto
  show ?thesis using a(1,2) t u by blast
qed

definition demo_polled_twice :: poller where
  "demo_polled_twice = demo_poller\<lparr>p_sched := sched_new, p_workers := [Polling ''srv-1'' (snapshot_of demo_tracked)]\<rparr>"

theorem older_poll_can_replace_newer_witness:
  "\<exists>a snap2 t u st1 st2. (poller_step demo_externals demo_settings)\<^sup>*\<^sup>* demo_polled_twice a \<and>
     p_workers a = [Polling ''srv-1'' snap2, Polling ''srv-1'' (snapshot_of demo_tracked)] \<and>
     work_step demo_externals demo_settings a t \<and> p_workers t = [Polling ''srv-1'' (snapshot_of demo_tracked)] \<and>
     hm_get (p_states t) ''srv-1'' = Some st1 \<and> last_emitted_up st1 = Some True \<and>
     work_step demo_externals demo_settings t u \<and> p_workers u = [] \<and>
     hm_get (p_states u) ''srv-1'' = Some st2 \<and> last_emitted_up st2 = Some False"
proof -
  have s: "Polling ''srv-1'' (snapshot_of demo_tracked) \<in> set (p_workers demo_polled_twice)"
    "\<not> ws_plugin_managed (snapshot_of demo_tracked)"
    "hm_get (p_states demo_polled_twice) ''srv-1'' = Some demo_tracked" "key demo_tracked = ''srv-1''"
    "\<not> plugin_managed demo_tracked" "p_dispatch demo_polled_twice = Waiting"
    "waiter (p_sched demo_polled_twice) = Looking" "heap (p_sched demo_polled_twice) = []"
    "spawned (p_sched demo_polled_twice) = []" "p_queue demo_polled_twice = []"
    "length (p_workers demo_polled_twice) < max_concurrency demo_settings"
    by (simp_all add: demo_polled_twice_def sched_new_def snapshot_of_def)
      (simp add: demo_tracked_def build_state_def demo_catalog_def server_key_def Let_def split: prod.splits)
  let ?newer = "\<lparr>pr_payload = demo_poll 3, pr_status_ok = True, pr_favicon = []\<rparr>"
  have ws: "p_workers demo_polled_twice = [Polling ''srv-1'' (snapshot_of demo_tracked)]"
    by (simp add: demo_polled_twice_def)
  obtain a snap2 t u st1 st2 where w: "(poller_step demo_externals demo_settings)\<^sup>*\<^sup>* demo_polled_twice a"
    "p_workers a = Polling ''srv-1'' snap2 # p_workers demo_polled_twice"
    "work_step demo_externals demo_settings a t" "p_workers t = p_workers demo_polled_twice"
    "hm_get (p_states t) ''srv-1'' = Some st1"
    "last_obs st1 = snd (current_obs demo_externals st1 (pr_payload ?newer) (pr_status_ok ?newer))"
    "work_step demo_externals demo_settings t u"
    "p_workers u = remove1 (Polling ''srv-1'' (snapshot_of demo_tracked)) (p_workers demo_polled_twice)"
    "hm_get (p_states u) ''srv-1'' = Some st2"
    "last_obs st2 = snd (current_obs demo_externals st2 (pr_payload (failed_poll (json_obj []))) (pr_status_ok (failed_poll (json_obj []))))"
    using older_poll_can_replace_newer [OF s demo_durations(1), of demo_externals ?newer "failed_poll (json_obj [])"]
    by (elim exE conjE) rule
  have "last_emitted_up st1 = obs_up (last_obs st1)" "last_emitted_up st2 = obs_up (last_obs st2)" by simp_all
  then have "last_emitted_up st1 = Some True" "last_emitted_up st2 = Some False"
    unfolding w(6,10) by (simp_all add: failed_poll_def)
  with w(1-5,7-9) ws show ?thesis
    by (intro exI [of _ a] exI [of _ snap2] exI [of _ t] exI [of _ u] exI [of _ st1] exI [of _ st2]) simp
qed

end
