(* ===== verification/Typing.thy ===== *)
theory Typing
  imports Process
begin

text \<open>
  What is true of every state the process keeps of a server (\<open>ServerState\<close> of \<open>src/src/models.rs\<close>), whichever
  task changed it last: the refresh, the trigger, a force ping, a worker that polls, or one that postpones.
\<close>

subsection \<open>A well kept state\<close>

text \<open>
  Its emitted fields are filled together; it is as its catalog entry says (address, ports, edition, plugin mode),
  also when the entry has been changed by a Bedrock probe; fallback is a mode of plugin-managed servers; and a
  Bedrock probe is scheduled exactly when the entry wants one.
\<close>

definition well_kept :: "collector_settings \<Rightarrow> server_state \<Rightarrow> bool" where
  "well_kept C st \<longleftrightarrow> wf_state st \<and> mirrors st \<and>
     (next_bedrock_probe st \<noteq> None \<longleftrightarrow> wants_bedrock_probe (server st) (bedrock_probe_interval_seconds C))"

lemma well_kept_due [simp]: "well_kept C (st\<lparr>next_due := d\<rparr>) = well_kept C st"
  by (simp add: well_kept_def wf_state_def emitted_ok_def mirrors_def)

lemma well_kept_due_now [simp]: "well_kept C (due_now now st) = well_kept C st"
  by (simp add: due_now_def)

lemma well_kept_note_outcome [simp]: "well_kept C (note_outcome ok st) = well_kept C st"
  by (simp add: note_outcome_def well_kept_def wf_state_def emitted_ok_def mirrors_def Let_def)

lemma well_kept_build_state:
  "well_kept C (build_state X r1 r2 utc srv now sp (bedrock_probe_interval_seconds C) stale)"
  by (simp add: well_kept_def)

lemma keep_probing_wants: "next_bedrock_probe (keep_probing r iv now srv st) \<noteq> None \<longleftrightarrow> wants_bedrock_probe srv iv"
  by (simp add: keep_probing_def flip: not_None_eq)

lemma well_kept_update_existing:
  assumes "update_existing X C r utc now k srv st = (st', reqs)" and "well_kept C st"
  shows "well_kept C st'"
proof -
  note u = update_existing_spec [OF assms(1)]
  have st': "st' = fst (update_existing X C r utc now k srv st)" using assms(1) by simp
  have "emitted_ok st'"
  proof (cases "moved srv st")
    case False
    then show ?thesis
      using assms(2) by (simp add: st' update_existing_unfold readdress_unmoved well_kept_def wf_state_def)
  qed (use u(7) in simp)
  moreover have "plugin_fallback_mode st' \<longrightarrow> plugin_managed st'"
    by (auto simp: st' update_existing_unfold dest: fallback_imp_managed)
  moreover have "next_bedrock_probe st' \<noteq> None \<longleftrightarrow> wants_bedrock_probe srv (bedrock_probe_interval_seconds C)"
    unfolding st' update_existing_unfold by (simp only: fst_conv keep_probing_wants)
  ultimately show ?thesis using u(1,4) by (simp add: well_kept_def wf_state_def)
qed

text \<open>The edition that a successful Bedrock probe writes into the entry leaves the state as the entry says.\<close>

definition both_editions :: "json \<Rightarrow> json" where
  "both_editions srv =
     (case srv of JObj m \<Rightarrow> JObj (obj_insert ''game_edition'' (JStr ''java_bedrock'') m) | v \<Rightarrow> v)"

lemma get_both_editions: "k \<noteq> ''game_edition'' \<Longrightarrow> get k (both_editions srv) = get k srv"
  by (cases srv) (simp_all add: both_editions_def)

lemma get_str_both_editions: "k \<noteq> ''game_edition'' \<Longrightarrow> get_str k (both_editions srv) = get_str k srv"
  by (simp add: get_str_def get_both_editions)

lemma java_bedrock_is_java: "to_lowercase ''java_bedrock'' \<noteq> ''bedrock''"
  by (simp add: to_lowercase_def lower_char_def ascii_lower_def chars.simps char_width_def)

lemma both_editions_java:
  assumes "wants_bedrock_probe srv iv"
  shows "normalize_edition (get_str ''game_edition'' srv) = Java"
    "normalize_edition (get_str ''game_edition'' (both_editions srv)) = Java"
proof -
  have l: "to_lowercase (unwrap_or ''java'' (get_str ''game_edition'' srv)) = ''java''"
    using assms by (simp add: wants_bedrock_probe_def split: if_splits)
  then show j: "normalize_edition (get_str ''game_edition'' srv) = Java"
    by (cases "get_str ''game_edition'' srv") (auto simp: normalize_edition_def)
  show "normalize_edition (get_str ''game_edition'' (both_editions srv)) = Java"
    using j java_bedrock_is_java by (cases srv) (simp_all add: both_editions_def get_str_def normalize_edition_def)
qed

lemma mirrors_both_editions:
  assumes "mirrors st" and "wants_bedrock_probe (server st) iv"
  shows "mirrors (st\<lparr>server := both_editions (server st)\<rparr>)"
proof -
  have "host_value (both_editions srv) = host_value srv" "is_plugin_managed (both_editions srv) = is_plugin_managed srv"
    "resolve_state_ports (both_editions srv) h pp ed = resolve_state_ports srv h pp ed" for srv h pp ed
    by (simp_all add: get_str_both_editions get_both_editions host_value_def is_plugin_managed_def resolve_state_ports_def Let_def split: option.split)
  with assms(1) both_editions_java [OF assms(2)] show ?thesis
    by (simp add: mirrors_def)
qed

lemma well_kept_probe:
  assumes "maybe_probe_bedrock net ms g api r (bedrock_probe_interval_seconds C) j st = (st', b, calls)" and "well_kept C st"
  shows "well_kept C st'"
proof (cases "next_bedrock_probe st")
  case None
  then show ?thesis using assms by (simp add: maybe_probe_bedrock_def)
next
  case (Some t)
  then have w: "wants_bedrock_probe (server st) (bedrock_probe_interval_seconds C)" "mirrors st" "wf_state st"
    using assms(2) by (auto simp: well_kept_def)
  have "\<exists>st1. (st1 = st \<or> st1 = st\<lparr>server := both_editions (server st)\<rparr>) \<and>
      st' = st1\<lparr>next_bedrock_probe := schedule_next_bedrock_probe r (server st1) 0 (bedrock_probe_interval_seconds C) j\<rparr>"
    using assms(1) Some
    by (auto simp: maybe_probe_bedrock_def both_editions_def Let_def split: if_splits option.splits prod.splits)
  then obtain st1 where st1: "st1 = st \<or> st1 = st\<lparr>server := both_editions (server st)\<rparr>"
    "st' = st1\<lparr>next_bedrock_probe := schedule_next_bedrock_probe r (server st1) 0 (bedrock_probe_interval_seconds C) j\<rparr>"
    by blast
  have "mirrors st1 \<and> wf_state st1"
    using st1(1) w mirrors_both_editions [OF w(2,1)] by (auto simp: wf_state_def emitted_ok_def)
  then show ?thesis by (simp add: st1(2) well_kept_def wf_state_def emitted_ok_def mirrors_def)
qed

lemma well_kept_favicon:
  "maybe_update_favicon X api st fav = (st', calls) \<Longrightarrow> well_kept C st' = well_kept C st"
  by (auto simp: maybe_update_favicon_def well_kept_def wf_state_def emitted_ok_def mirrors_def
      split: if_splits option.splits)

lemma well_kept_build_payload:
  assumes "build_change_payload X st payload ok now hb = (st', p)" and "well_kept C st"
  shows "well_kept C st'"
proof -
  have "wf_state st'" using wf_build_change_payload [of st X payload ok now hb] assms by (simp add: well_kept_def)
  then show ?thesis
    using assms by (cases rule: build_change_payload_cases [of st X payload ok now hb])
      (auto simp: well_kept_def mirrors_def remember_def)
qed

lemma well_kept_finish_state:
  assumes "finish_state X C e snap result st = (st', payload, calls)" and "well_kept C st"
  shows "well_kept C st'"
proof -
  let ?st1 = "note_outcome (pr_status_ok result) st"
  obtain st2 b calls1 where p: "maybe_probe_bedrock (we_udp e) (we_millis e) (we_guid e) (we_edition_api e)
      (we_probe_draw e) (bedrock_probe_interval_seconds C) (bedrock_probe_jitter_seconds C) ?st1 = (st2, b, calls1)"
    by (metis prod_cases3)
  obtain st3 calls2 where f: "(if pr_favicon result \<noteq> []
      then maybe_update_favicon X (we_favicon_api e) st2 (pr_favicon result) else (st2, [])) = (st3, calls2)"
    by fastforce
  have "well_kept C st2" using well_kept_probe [OF p] assms(2) by simp
  then have "well_kept C st3" using f well_kept_favicon by (auto split: if_splits)
  then have "well_kept C (st3\<lparr>next_due := d\<rparr>)" for d by simp
  then show ?thesis
    using assms(1) by (auto simp: finish_state_def p f Let_def split: if_splits prod.splits intro: well_kept_build_payload)
qed

subsection \<open>Every task keeps the states well\<close>

definition all_kept :: "collector_settings \<Rightarrow> states \<Rightarrow> bool" where
  "all_kept C m \<longleftrightarrow> (\<forall>k st. hm_get m k = Some st \<longrightarrow> well_kept C st)"

lemma all_keptD: "all_kept C m \<Longrightarrow> hm_get m k = Some st \<Longrightarrow> well_kept C st"
  by (simp add: all_kept_def)

lemma all_kept_insert: "all_kept C m \<Longrightarrow> well_kept C st \<Longrightarrow> all_kept C (hm_insert k st m)"
  by (simp add: all_kept_def hm_get_insert)

lemma all_kept_refresh_server:
  "refresh_server X C now srv d (m, inc, reqs) = (m', inc', reqs') \<Longrightarrow> all_kept C m \<Longrightarrow> all_kept C m'"
  by (auto simp: refresh_server_def Let_def split: if_splits option.splits prod.splits
      intro: all_kept_insert well_kept_build_state well_kept_update_existing all_keptD)

lemma all_kept_refresh_all:
  "refresh_all X C now L (m, inc, reqs) = (m', inc', reqs') \<Longrightarrow> all_kept C m \<Longrightarrow> all_kept C m'"
proof (induction L arbitrary: m inc reqs)
  case (Cons x L)
  obtain srv d where x: "x = (srv, d)" by (cases x)
  obtain m1 inc1 reqs1 where s: "refresh_server X C now srv d (m, inc, reqs) = (m1, inc1, reqs1)" by (metis prod_cases3)
  have "all_kept C m1" using all_kept_refresh_server [OF s] Cons.prems(2) by simp
  with Cons.IH [of m1 inc1 reqs1] Cons.prems(1) show ?case by (simp add: x s)
qed simp

lemma all_kept_refresh_states:
  assumes "refresh_states X C draws now servers m = (m', reqs)" and "hm_ok m" and "all_kept C m"
  shows "all_kept C m'"
proof -
  from assms(1) obtain m1 inc where r: "refresh_all X C now (zip servers (map draws [0..<length servers])) (m, [], []) = (m1, inc, reqs)"
    and m': "m' = hm_retain (\<lambda>k _. k \<in> set inc) m1" by (rule refresh_states_unfold)
  have "hm_ok m1" using refresh_all_keys [OF r assms(2)] by simp
  with all_kept_refresh_all [OF r assms(3)] show ?thesis
    by (auto simp: all_kept_def m' hm_get_retain split: option.splits if_splits)
qed

lemma all_kept_trigger: "trigger_targets now targets m = (m', reqs) \<Longrightarrow> all_kept C m \<Longrightarrow> all_kept C m'"
  unfolding all_kept_def by (auto simp: trigger_targets_spec(1) split: if_splits)

lemma all_kept_force_known: "force_ping_known now target m = Some (m', reqs) \<Longrightarrow> all_kept C m \<Longrightarrow> all_kept C m'"
  by (auto simp: force_ping_known_def split: option.splits intro!: all_kept_insert dest: all_keptD)

lemma all_kept_skip: "skip_internal C' r now k m = (m', reqs) \<Longrightarrow> all_kept C m \<Longrightarrow> all_kept C m'"
  by (auto simp: skip_internal_def Let_def split: option.splits intro!: all_kept_insert dest: all_keptD)

lemma all_kept_finish:
  "finish_work X C e snap result k (m, rows) = ((m', rows'), reqs, calls) \<Longrightarrow> all_kept C m \<Longrightarrow> all_kept C m'"
  by (auto simp: finish_work_def split: option.splits prod.splits intro!: all_kept_insert
      intro: well_kept_finish_state all_keptD)

lemma work_step_kept: "work_step X C s t \<Longrightarrow> all_kept C (p_states s) \<Longrightarrow> all_kept C (p_states t)"
proof (erule work_stepE, goal_cases)
  case (9 k r now)
  then show ?case by (cases "skip_internal C r now k (p_states s)") (auto intro: all_kept_skip)
next
  case (10 k snap e result m' rows' reqs calls)
  then show ?case by (auto intro: all_kept_finish)
qed (simp_all add: begin_work_rows)

definition keeping :: "collector_settings \<Rightarrow> poller \<Rightarrow> bool" where
  "keeping C s \<longleftrightarrow> poller_inv s \<and> all_kept C (p_states s)"

lemma poller_step_kept: "poller_step X C s t \<Longrightarrow> keeping C s \<Longrightarrow> keeping C t"
proof -
  assume step: "poller_step X C s t" and k: "keeping C s"
  have kept: "all_kept C (p_states s)" and ok: "hm_ok (p_states s)"
    using k by (simp_all add: keeping_def poller_inv_ok)
  from step have "all_kept C (p_states t)"
  proof (cases rule: poller_step.cases)
    case work
    then show ?thesis using kept by (rule work_step_kept)
  next
    case (refresh servers draws now)
    then show ?thesis
      using ok kept by (cases "refresh_states X C draws now servers (p_states s)") (auto intro: all_kept_refresh_states)
  next
    case (trigger now targets)
    then show ?thesis using kept by (cases "trigger_targets now targets (p_states s)") (auto intro: all_kept_trigger)
  next
    case (force now target mr)
    then show ?thesis using kept by (cases mr) (auto intro: all_kept_force_known)
  next
    case (fetched d now target srv)
    then show ?thesis
      using kept by (auto simp: force_fetched_def force_ping_fetched_def Let_def intro!: all_kept_insert well_kept_build_state)
  qed
  with poller_step_inv [OF _ step] k show ?thesis by (simp add: keeping_def)
qed

lemma keeping_start: "system_start C' w now s \<Longrightarrow> keeping C (sy_poller s)"
  by (simp add: keeping_def system_start_def system_new_def poller_inv_new) (simp add: all_kept_def poller_new_def)

lemma system_step_kept: "keeping (collector_cfg S) (sy_poller s) \<Longrightarrow> system_step X G S A s t \<Longrightarrow> keeping (collector_cfg S) (sy_poller t)"
  using system_step_poller poller_step_kept by metis

interpretation typing: transition_system "system_start C w now" "system_step X G S A" "\<lambda>s. keeping (collector_cfg S) (sy_poller s)"
    for C w now X G S A
  by unfold_locales (auto intro: keeping_start system_step_kept)

text \<open>
  C34: Every state of a server that the process keeps is well formed and true to its catalog entry, in every
  state the process can reach, whichever tasks have run in whichever order, polls with Bedrock probes and favicons
  included: the emitted fields are filled together, the address, the ports, the edition and the plugin mode are those
  the entry asks for, fallback is a mode of plugin-managed servers only, and a Bedrock probe is scheduled exactly
  when the entry wants one.
\<close>

theorem kept_states_are_typed:
  assumes "reachable (process_start X E S) (process_step X G S A K) s" and "hm_get (pc_states s) k = Some st"
  shows "wf_state st \<and> mirrors st \<and>
    (next_bedrock_probe st \<noteq> None \<longleftrightarrow> wants_bedrock_probe (server st) (bedrock_probe_interval_seconds (collector_cfg S)))"
proof -
  have "keeping (collector_cfg S) (sy_poller (pc_system s))"
    by (rule typing.reachable_inv [OF process_reaches_system [OF assms(1)]])
  then show ?thesis
    using assms(2) by (auto simp: keeping_def all_kept_def well_kept_def pc_states_def pc_poller_def)
qed

theorem kept_states_are_typed_witness:
  "\<exists>s st. reachable (process_start demo_externals demo_start (load demo_readers))
     (process_step demo_externals demo_toolkit (load demo_readers) any_turn pages_honestly) s \<and>
     hm_get (pc_states s) ''3'' = Some st \<and> wf_state st \<and> mirrors st"
proof -
  obtain s where s: "reachable (process_start demo_externals demo_start (load demo_readers))
     (process_step demo_externals demo_toolkit (load demo_readers) any_turn pages_honestly) s"
    "set (hm_keys (pc_states s)) = {''1'', ''2'', ''3''}"
    using demo_process_reachable by (elim exE conjE) rule
  have "hm_get (pc_states s) ''3'' \<noteq> None" using s(2) by (simp add: hm_get_None_iff)
  then obtain st where st: "hm_get (pc_states s) ''3'' = Some st" by blast
  from kept_states_are_typed [OF s(1) st] s(1) st show ?thesis by blast
qed

end
