(* ===== verification/Unit_Tests.thy ===== *)
theory Unit_Tests
  imports Sync
begin

text \<open>
  The unit tests of the repository, on the model: each test of the \<open>tests\<close> modules under \<open>src/src\<close> is a predicate
  of its own name that says what the test asserts, and a lemma that the definitions pass it. The tests that open
  sockets are on the bytes that the test server sends. What other crates do (JSON, time stamps, SHA-256, the draws)
  are arguments of the predicates, and the lemmas name what is assumed of them.
\<close>

subsection \<open>\<open>models.rs\<close>\<close>

definition test_parse_address_simple :: bool where
  "test_parse_address_simple \<longleftrightarrow> parse_address ''mc.example.com'' = (''mc.example.com'', None)"

definition test_parse_address_with_port :: bool where
  "test_parse_address_with_port \<longleftrightarrow> parse_address ''mc.example.com:25566'' = (''mc.example.com'', Some 25566)"

definition test_parse_address_ipv6_bracket :: bool where
  "test_parse_address_ipv6_bracket \<longleftrightarrow> parse_address ''[::1]:25565'' = (''::1'', Some 25565)"

definition test_parse_address_ipv6_no_port :: bool where
  "test_parse_address_ipv6_no_port \<longleftrightarrow> parse_address ''[::1]'' = (''::1'', None)"

definition test_parse_address_raw_ipv6 :: bool where
  "test_parse_address_raw_ipv6 \<longleftrightarrow> parse_address ''2001:db8::1'' = (''2001:db8::1'', None)"

lemma address_tests_pass:
  "test_parse_address_simple" "test_parse_address_with_port" "test_parse_address_ipv6_bracket"
  "test_parse_address_ipv6_no_port" "test_parse_address_raw_ipv6"
  unfolding test_parse_address_simple_def test_parse_address_with_port_def test_parse_address_ipv6_bracket_def
    test_parse_address_ipv6_no_port_def test_parse_address_raw_ipv6_def
  by (rule parse_address_host, simp, simp) code_simp+

definition test_normalize_edition :: bool where
  "test_normalize_edition \<longleftrightarrow>
     normalize_edition None = Java \<and> normalize_edition (Some ''java'') = Java \<and> normalize_edition (Some ''Java'') = Java \<and>
     normalize_edition (Some ''bedrock'') = Bedrock \<and> normalize_edition (Some ''Bedrock'') = Bedrock \<and>
     normalize_edition (Some ''java_bedrock'') = Java"

lemma test_normalize_edition_passes: "test_normalize_edition"
  unfolding test_normalize_edition_def by (intro conjI; code_simp)

definition test_is_plugin_managed :: bool where
  "test_is_plugin_managed \<longleftrightarrow>
     \<not> is_plugin_managed (json_obj [(''is_verified'', JBool False)]) \<and>
     \<not> is_plugin_managed (json_obj [(''is_verified'', JBool True)]) \<and>
     is_plugin_managed (json_obj [(''is_verified'', JBool True), (''verification_source'', JStr ''plugin'')]) \<and>
     \<not> is_plugin_managed (json_obj [(''is_verified'', JBool True), (''verification_source'', JStr ''manual'')])"

lemma test_is_plugin_managed_passes: "test_is_plugin_managed"
  unfolding test_is_plugin_managed_def by (intro conjI; code_simp)

text \<open>A server whose plugin was last seen as \<open>v\<close> says. Times are nanoseconds of the clock.\<close>

definition seen_at :: "json \<Rightarrow> json" where
  "seen_at v = json_obj [(''is_verified'', JBool True), (''verification_source'', JStr ''plugin''),
     (''verified_plugin_last_seen_at'', v)]"

definition test_plugin_fallback_mode_enables_when_plugin_signal_is_missing :: "externals \<Rightarrow> int \<Rightarrow> bool" where
  "test_plugin_fallback_mode_enables_when_plugin_signal_is_missing X now \<longleftrightarrow>
     is_plugin_fallback_mode X (seen_at JNull) 300 now"

text \<open>\<open>to_rfc3339\<close> is how a time is printed.\<close>

definition test_plugin_fallback_mode_disables_when_plugin_signal_is_recent ::
  "externals \<Rightarrow> (int \<Rightarrow> str) \<Rightarrow> int \<Rightarrow> bool" where
  "test_plugin_fallback_mode_disables_when_plugin_signal_is_recent X to_rfc3339 now \<longleftrightarrow>
     \<not> is_plugin_fallback_mode X (seen_at (JStr (to_rfc3339 (now - delta_seconds X 120)))) 300 now"

definition test_plugin_fallback_mode_enables_when_plugin_signal_is_stale ::
  "externals \<Rightarrow> (int \<Rightarrow> str) \<Rightarrow> int \<Rightarrow> bool" where
  "test_plugin_fallback_mode_enables_when_plugin_signal_is_stale X to_rfc3339 now \<longleftrightarrow>
     is_plugin_fallback_mode X (seen_at (JStr (to_rfc3339 (now - delta_seconds X (15 * 60))))) 300 now"

lemma seen_at_managed: "is_plugin_managed (seen_at v)"
proof -
  have "to_lowercase (trim ''plugin'') = ''plugin''" by code_simp
  then show ?thesis by (simp add: is_plugin_managed_def seen_at_def get_str_def)
qed

lemma fallback_by_age:
  assumes "parse_rfc3339 X (trim stamp) = Some t" and "trim stamp \<noteq> []"
  shows "is_plugin_fallback_mode X (seen_at (JStr stamp)) 300 now \<longleftrightarrow> delta_seconds X 300 \<le> now - t"
  using assms seen_at_managed [of "JStr stamp"]
  by (simp add: is_plugin_fallback_mode_def parse_plugin_last_seen_at_def seen_at_def get_str_def Let_def max_def)

lemma fallback_tests_pass:
  assumes "\<And>t. trim (to_rfc3339 t) = to_rfc3339 t" and "\<And>t. to_rfc3339 t \<noteq> []"
    and "\<And>t. parse_rfc3339 X (to_rfc3339 t) = Some t" and "\<And>n. n < 2 ^ 32 \<Longrightarrow> delta_seconds X n = uint n * 10 ^ 9"
  shows "test_plugin_fallback_mode_enables_when_plugin_signal_is_missing X now"
    "test_plugin_fallback_mode_disables_when_plugin_signal_is_recent X to_rfc3339 now"
    "test_plugin_fallback_mode_enables_when_plugin_signal_is_stale X to_rfc3339 now"
proof -
  show "test_plugin_fallback_mode_enables_when_plugin_signal_is_missing X now"
    unfolding test_plugin_fallback_mode_enables_when_plugin_signal_is_missing_def
    using seen_at_managed [of JNull]
    by (simp add: is_plugin_fallback_mode_def parse_plugin_last_seen_at_def seen_at_def get_str_def)
  have age: "is_plugin_fallback_mode X (seen_at (JStr (to_rfc3339 t))) 300 now \<longleftrightarrow> 300 * 10 ^ 9 \<le> now - t" for t
    using fallback_by_age [of X "to_rfc3339 t" t now] assms(1-3) assms(4) [of 300] by simp
  show "test_plugin_fallback_mode_disables_when_plugin_signal_is_recent X to_rfc3339 now"
    "test_plugin_fallback_mode_enables_when_plugin_signal_is_stale X to_rfc3339 now"
    unfolding test_plugin_fallback_mode_disables_when_plugin_signal_is_recent_def
      test_plugin_fallback_mode_enables_when_plugin_signal_is_stale_def age
    using assms(4) [of 120] assms(4) [of "15 * 60"] by simp_all
qed

definition test_is_internal_only_host :: bool where
  "test_is_internal_only_host \<longleftrightarrow>
     is_internal_only_host ''internal-server.local'' \<and> is_internal_only_host ''INTERNAL-server.local'' \<and>
     \<not> is_internal_only_host ''mc.example.com'' \<and> \<not> is_internal_only_host ''192.168.1.1''"

lemma test_is_internal_only_host_passes: "test_is_internal_only_host"
  unfolding test_is_internal_only_host_def by (intro conjI; code_simp)

definition test_resolve_state_ports_ignores_default_java_for_hostname :: bool where
  "test_resolve_state_ports_ignores_default_java_for_hostname \<longleftrightarrow>
     fst (resolve_state_ports (json_obj [(''ping_port'', json_u64 25565)]) ''mc.example.com'' None Java) = None"

definition test_resolve_state_ports_keeps_default_java_for_ip :: bool where
  "test_resolve_state_ports_keeps_default_java_for_ip \<longleftrightarrow>
     fst (resolve_state_ports (json_obj [(''ping_port'', json_u64 25565)]) ''192.168.1.1'' None Java) = Some 25565"

definition test_resolve_state_ports_custom_port :: bool where
  "test_resolve_state_ports_custom_port \<longleftrightarrow>
     fst (resolve_state_ports (json_obj [(''ping_port'', json_u64 25566)]) ''mc.example.com'' None Java) = Some 25566"

definition test_resolve_state_ports_bedrock_fallback :: bool where
  "test_resolve_state_ports_bedrock_fallback \<longleftrightarrow>
     resolve_state_ports (json_obj [(''bedrock_port'', json_u64 19133)]) ''mc.example.com'' None Bedrock =
       (Some 19133, Some 19133)"

lemma one_field_port:
  "resolve_state_ports (json_obj [(''ping_port'', json_u64 n)]) h None Java =
     (if (ucast n :: u16) = 25565 \<and> \<not> is_ip_addr h then None else Some (ucast n), None)"
  by (simp add: resolve_state_ports_def looks_like_ip_def JAVA_DEFAULT_PORT_def json_u64_def)

lemma port_tests_pass:
  "test_resolve_state_ports_ignores_default_java_for_hostname" "test_resolve_state_ports_keeps_default_java_for_ip"
  "test_resolve_state_ports_custom_port" "test_resolve_state_ports_bedrock_fallback"
proof -
  have "\<not> is_ip_addr ''mc.example.com''" "is_ip_addr ''192.168.1.1''" by (simp_all add: ip_defs)
  then show "test_resolve_state_ports_ignores_default_java_for_hostname" "test_resolve_state_ports_keeps_default_java_for_ip"
    "test_resolve_state_ports_custom_port"
    by (simp_all add: one_field_port test_resolve_state_ports_ignores_default_java_for_hostname_def
        test_resolve_state_ports_keeps_default_java_for_ip_def test_resolve_state_ports_custom_port_def)
  show "test_resolve_state_ports_bedrock_fallback"
    by (simp add: test_resolve_state_ports_bedrock_fallback_def resolve_state_ports_def json_u64_def Let_def)
qed

definition test_wants_bedrock_probe :: bool where
  "test_wants_bedrock_probe \<longleftrightarrow>
     wants_bedrock_probe (json_obj [(''game_edition'', JStr ''java'')]) 3600 \<and>
     \<not> wants_bedrock_probe (json_obj [(''game_edition'', JStr ''bedrock'')]) 3600 \<and>
     \<not> wants_bedrock_probe (json_obj [(''game_edition'', JStr ''java'')]) 0"

lemma test_wants_bedrock_probe_passes: "test_wants_bedrock_probe"
proof -
  have "to_lowercase ''java'' = ''java''" "to_lowercase ''bedrock'' = ''bedrock''" by code_simp+
  then show ?thesis by (simp add: test_wants_bedrock_probe_def wants_bedrock_probe_def get_str_def)
qed

definition test_build_state :: "externals \<Rightarrow> rng \<Rightarrow> rng \<Rightarrow> int \<Rightarrow> bool" where
  "test_build_state X r1 r2 utc \<longleftrightarrow>
     (let state = build_state X r1 r2 utc (json_obj [(''id'', JStr ''12345''), (''ip_or_domain'', JStr ''mc.example.com:25566''),
        (''game_edition'', JStr ''java'')]) 100 60 3600 300
      in server_id state = ''12345'' \<and> host state = ''mc.example.com'' \<and> port state = Some 25566 \<and> edition state = Java \<and>
         \<not> has_emitted_state state \<and> 100 \<le> next_due state \<and> next_due state \<le> 160)"

lemma test_build_state_passes: "in_range r1 \<Longrightarrow> test_build_state X r1 r2 utc"
proof -
  assume r: "in_range r1"
  have p: "parse_address ''mc.example.com:25566'' = (''mc.example.com'', Some 25566)"
    using address_tests_pass(2) by (simp only: test_parse_address_with_port_def)
  have e: "normalize_edition (Some ''java'') = Java"
    using test_normalize_edition_passes by (simp only: test_normalize_edition_def)
  have "0 \<le> r1 0 60" "r1 0 60 < 60" using in_rangeD [OF r, of 0 60] by simp_all
  then show ?thesis
    by (simp add: test_build_state_def build_state_def server_key_def host_value_def get_str_def p e resolve_state_ports_def Let_def)
qed

subsection \<open>\<open>sync.rs\<close>\<close>

definition test_empty_content :: "externals \<Rightarrow> bool" where
  "test_empty_content X \<longleftrightarrow> parse_trigger_content X '''' = Some [] \<and> parse_trigger_content X ''  '' = Some []"

definition test_all_keyword :: "externals \<Rightarrow> bool" where
  "test_all_keyword X \<longleftrightarrow>
     parse_trigger_content X ''all'' = None \<and> parse_trigger_content X ''ALL'' = None \<and> parse_trigger_content X ''*'' = None"

definition test_comma_separated :: "externals \<Rightarrow> bool" where
  "test_comma_separated X \<longleftrightarrow> parse_trigger_content X ''1,2,3'' = Some [''1'', ''2'', ''3'']"

definition test_space_separated :: "externals \<Rightarrow> bool" where
  "test_space_separated X \<longleftrightarrow> parse_trigger_content X ''10 20 30'' = Some [''10'', ''20'', ''30'']"

lemma plain_trigger_tests_pass:
  "test_empty_content X" "test_all_keyword X" "test_comma_separated X" "test_space_separated X"
proof -
  have "trim '''' = ''''" "trim ''  '' = ''''" by code_simp+
  then show "test_empty_content X" by (simp add: test_empty_content_def parse_trigger_content_def)
  have "trim ''all'' = ''all''" "trim ''ALL'' = ''ALL''" "trim ''*'' = ''*''"
    "to_lowercase ''all'' = ''all''" "to_lowercase ''ALL'' = ''all''" "to_lowercase ''*'' = ''*''" by code_simp+
  then show "test_all_keyword X" by (simp add: test_all_keyword_def parse_trigger_content_def Let_def)
  have "trim ''1,2,3'' = ''1,2,3''" "to_lowercase ''1,2,3'' = ''1,2,3''" "split_ids ''1,2,3'' = [''1'', ''2'', ''3'']"
    by code_simp+
  then show "test_comma_separated X" by (simp add: test_comma_separated_def parse_trigger_content_def Let_def)
  have "trim ''10 20 30'' = ''10 20 30''" "to_lowercase ''10 20 30'' = ''10 20 30''"
    "split_ids ''10 20 30'' = [''10'', ''20'', ''30'']" by code_simp+
  then show "test_space_separated X" by (simp add: test_space_separated_def parse_trigger_content_def Let_def)
qed

definition test_json_object_with_server_ids :: "externals \<Rightarrow> bool" where
  "test_json_object_with_server_ids X \<longleftrightarrow>
     parse_trigger_content X ''{\"server_ids\": [\"1\", \"2\"]}'' = Some [''1'', ''2'']"

definition test_json_object_with_all :: "externals \<Rightarrow> bool" where
  "test_json_object_with_all X \<longleftrightarrow> parse_trigger_content X ''{\"all\": true}'' = None"

definition test_json_array :: "externals \<Rightarrow> bool" where
  "test_json_array X \<longleftrightarrow> parse_trigger_content X ''[\"5\", \"10\"]'' = Some [''5'', ''10'']"

definition test_json_numeric_ids :: "externals \<Rightarrow> bool" where
  "test_json_numeric_ids X \<longleftrightarrow> parse_trigger_content X ''{\"ids\": [1, 2, 3]}'' = Some [''1'', ''2'', ''3'']"

text \<open>A file that holds JSON.\<close>

lemma trigger_json:
  assumes "json_from_slice X (as_bytes raw) = Some v" and "trim raw = raw" and "prefix ''{'' raw \<or> prefix ''['' raw"
  shows "parse_trigger_content X raw =
    (case v of
       JObj m \<Rightarrow>
         (if unwrap_or False (Option.bind (map_of m ''all'') as_bool) then None
          else Some (unwrap_or [] (map_option (List.map_filter (id_of X))
            (Option.bind (case map_of m ''server_ids'' of Some v \<Rightarrow> Some v | None \<Rightarrow> map_of m ''ids'') as_array))))
     | JArr arr \<Rightarrow> Some (List.map_filter (id_of X) arr)
     | _ \<Rightarrow> Some (split_ids raw))"
proof -
  obtain c cs where c: "raw = c # cs" "c = CHR ''{'' \<or> c = CHR ''[''" using assms(3) by (cases raw) auto
  have w: "char_width c = 1" "lower_char [c] = [c]" using c(2) by (elim disjE; hypsubst; code_simp)+
  have "to_lowercase raw = c # concat (map lower_char (chars cs))" by (simp add: to_lowercase_def c(1) w)
  then have "to_lowercase raw \<noteq> ''all''" "to_lowercase raw \<noteq> ''*''" using c(2) by auto
  then show ?thesis using assms c(1) by (simp add: parse_trigger_content_def Let_def split: json.split)
qed

text \<open>What \<open>serde_json\<close> is to do with the texts of the tests.\<close>

definition reads_test_json :: "externals \<Rightarrow> bool" where
  "reads_test_json X \<longleftrightarrow>
     json_from_slice X (as_bytes ''{\"server_ids\": [\"1\", \"2\"]}'') =
       Some (json_obj [(''server_ids'', JArr [JStr ''1'', JStr ''2''])]) \<and>
     json_from_slice X (as_bytes ''{\"all\": true}'') = Some (json_obj [(''all'', JBool True)]) \<and>
     json_from_slice X (as_bytes ''[\"5\", \"10\"]'') = Some (JArr [JStr ''5'', JStr ''10'']) \<and>
     json_from_slice X (as_bytes ''{\"ids\": [1, 2, 3]}'') = Some (json_obj [(''ids'', JArr (map json_u64 [1, 2, 3]))]) \<and>
     json_to_string X (json_u64 1) = ''1'' \<and> json_to_string X (json_u64 2) = ''2'' \<and> json_to_string X (json_u64 3) = ''3''"

lemma json_trigger_tests_pass:
  assumes "reads_test_json X"
  shows "test_json_object_with_server_ids X" "test_json_object_with_all X" "test_json_array X" "test_json_numeric_ids X"
proof -
  note a = assms [unfolded reads_test_json_def]
  have t: "trim ''1'' = ''1''" "trim ''2'' = ''2''" "trim ''5'' = ''5''" "trim ''10'' = ''10''" by code_simp+
  have "trim ''{\"server_ids\": [\"1\", \"2\"]}'' = ''{\"server_ids\": [\"1\", \"2\"]}''" by code_simp
  from trigger_json [OF conjunct1 [OF a] this] show "test_json_object_with_server_ids X"
    by (simp add: test_json_object_with_server_ids_def json_obj_def id_of_def map_filter_simps t)
  have "trim ''{\"all\": true}'' = ''{\"all\": true}''" by code_simp
  from trigger_json [OF _ this, of X] a show "test_json_object_with_all X"
    by (simp add: test_json_object_with_all_def json_obj_def)
  have "trim ''[\"5\", \"10\"]'' = ''[\"5\", \"10\"]''" by code_simp
  from trigger_json [OF _ this, of X] a show "test_json_array X"
    by (simp add: test_json_array_def id_of_def map_filter_simps t)
  have "trim ''{\"ids\": [1, 2, 3]}'' = ''{\"ids\": [1, 2, 3]}''" by code_simp
  from trigger_json [OF _ this, of X] a show "test_json_numeric_ids X"
    by (simp add: test_json_numeric_ids_def json_obj_def json_u64_def id_of_def map_filter_simps)
qed

subsection \<open>\<open>ping.rs\<close>\<close>

text \<open>The reader of the tests; \<^const>\<open>None\<close> where it would panic, on bytes that end or a shift of 32 bits or more.\<close>

fun read_varint_bytes :: "i32 \<Rightarrow> nat \<Rightarrow> u8 list \<Rightarrow> (i32 \<times> u8 list) option" where
  "read_varint_bytes result shift [] = None"
| "read_varint_bytes result shift (byte # data) =
     (if 32 \<le> shift then None
      else
        let result' = result OR push_bit shift (ucast (byte AND 0x7f)) in
        if byte AND 0x80 = 0 then Some (result', data) else read_varint_bytes result' (shift + 7) data)"

definition build_latest_response :: "u8 list \<Rightarrow> u8 list" where
  "build_latest_response json_bytes =
     (let packet = write_varint 0x00 @ write_varint (of_nat (length json_bytes)) @ json_bytes
      in write_varint (of_nat (length packet)) @ packet)"

lemma build_latest_response_status: "build_latest_response = status_packet"
  by (simp add: fun_eq_iff build_latest_response_def status_packet_def)

text \<open>The connections of the test servers: one that is closed at once, and one that is answered with \<open>body\<close>.\<close>

definition closing :: tcp_conn where
  "closing = \<lparr>tcp_connects = True, tcp_options = True, tcp_write = (\<lambda>_. True), tcp_stream = []\<rparr>"

definition sending :: "u8 list \<Rightarrow> tcp_conn" where
  "sending body = closing\<lparr>tcp_stream := build_latest_response body\<rparr>"

definition velocity_status :: str where
  "velocity_status = ''{\"version\":{\"name\":\"Velocity 1.7.2-1.21.11\",\"protocol\":767},\"players\":{\"max\":777,\"online\":30,\"sample\":[{\"name\":\"Alice\",\"id\":\"1\"}]},\"description\":{\"text\":\"Minecrafter\"}}''"

definition luxor_status :: str where
  "luxor_status = ''{\"version\":{\"name\":\"Velocity 1.7.2-1.21.11\",\"protocol\":767},\"players\":{\"max\":100,\"online\":17},\"description\":{\"text\":\"LuxorCraft\"}}''"

text \<open>\<open>decode\<close> reads a status from JSON.\<close>

definition blocking_java_ping_parses_latest_status :: "(u8 list \<Rightarrow> java_status option) \<Rightarrow> str \<Rightarrow> u16 \<Rightarrow> bool" where
  "blocking_java_ping_parses_latest_status decode addr p \<longleftrightarrow>
     (case ping_java_status_blocking decode
             \<lparr>elapsed = (\<lambda>_. 0), conn_at = (\<lambda>_. sending (as_bytes velocity_status))\<rparr> [addr] ''play.minecrafter.in.ua'' p 2 of
        Inl e \<Rightarrow> False
      | Inr response \<Rightarrow> js_online response = 30 \<and> js_max response = 777 \<and>
          js_version_name response = ''Velocity 1.7.2-1.21.11'' \<and>
          motd_from_description (js_description response) = ''Minecrafter'')"

text \<open>The first connection, with protocol 769, is closed; the second, with 767, is answered.\<close>

definition blocking_java_ping_retries_protocol_versions :: "(u8 list \<Rightarrow> java_status option) \<Rightarrow> str \<Rightarrow> u16 \<Rightarrow> bool" where
  "blocking_java_ping_retries_protocol_versions decode addr p \<longleftrightarrow>
     take 2 java_status_protocol_versions = [769, 767] \<and>
     (case ping_java_status_blocking decode
             \<lparr>elapsed = (\<lambda>_. 0), conn_at = (\<lambda>k. if k = 0 then closing else sending (as_bytes luxor_status))\<rparr> [addr]
             ''play.luxorcraft.fun'' p 2 of
        Inl e \<Rightarrow> False
      | Inr response \<Rightarrow> js_online response = 17 \<and> js_max response = 100 \<and>
          js_version_name response = ''Velocity 1.7.2-1.21.11'' \<and>
          motd_from_description (js_description response) = ''LuxorCraft'')"

lemma closing_fails: "\<exists>e. try_ping_java_status decode closing h p v = Inl e"
  by (simp add: try_ping_java_status_def closing_def read_status_response_def read_stream_varint_def read_varint_def
      split: prod.split)

lemma sending_answers:
  "length body < 2 ^ 31 \<Longrightarrow> decode body = Some status \<Longrightarrow> try_ping_java_status decode (sending body) h p v = Inr status"
  using read_status_packet [of body decode "[]"]
  by (simp add: try_ping_java_status_def sending_def closing_def build_latest_response_status split: prod.split)

lemma status_lengths: "length (as_bytes velocity_status) < 2 ^ 31" "length (as_bytes luxor_status) < 2 ^ 31"
  by (simp_all add: as_bytes_def velocity_status_def luxor_status_def)

lemma ping_tests_pass:
  assumes "decode (as_bytes velocity_status) = Some \<lparr>js_version_name = ''Velocity 1.7.2-1.21.11'', js_max = 777,
      js_online = 30, js_sample = Some [''Alice''], js_description = Some (json_obj [(''text'', JStr ''Minecrafter'')]),
      js_favicon = None\<rparr>"
    and "decode (as_bytes luxor_status) = Some \<lparr>js_version_name = ''Velocity 1.7.2-1.21.11'', js_max = 100,
      js_online = 17, js_sample = None, js_description = Some (json_obj [(''text'', JStr ''LuxorCraft'')]), js_favicon = None\<rparr>"
  shows "blocking_java_ping_parses_latest_status decode addr p" "blocking_java_ping_retries_protocol_versions decode addr p"
proof -
  let ?v = "\<lparr>js_version_name = ''Velocity 1.7.2-1.21.11'', js_max = 777, js_online = 30, js_sample = Some [''Alice''],
      js_description = Some (json_obj [(''text'', JStr ''Minecrafter'')]), js_favicon = None\<rparr>"
  let ?l = "\<lparr>js_version_name = ''Velocity 1.7.2-1.21.11'', js_max = 100, js_online = 17, js_sample = None,
      js_description = Some (json_obj [(''text'', JStr ''LuxorCraft'')]), js_favicon = None\<rparr>"
  have motd: "motd_from_description (js_description ?v) = ''Minecrafter''" "motd_from_description (js_description ?l) = ''LuxorCraft''"
    by (simp_all add: motd_from_description_def json_obj_def)
  have v: "try_ping_java_status decode (sending (as_bytes velocity_status)) h q w = Inr ?v" for h q w
    by (rule sending_answers [of "as_bytes velocity_status" decode ?v, OF status_lengths(1) assms(1)])
  have l: "try_ping_java_status decode (sending (as_bytes luxor_status)) h q w = Inr ?l" for h q w
    by (rule sending_answers [of "as_bytes luxor_status" decode ?l, OF status_lengths(2) assms(2)])
  have "ping_java_status_blocking decode \<lparr>elapsed = (\<lambda>_. 0), conn_at = (\<lambda>_. sending (as_bytes velocity_status))\<rparr> [addr]
      ''play.minecrafter.in.ua'' p 2 = Inr ?v"
    unfolding ping_blocking_Inr using v by (intro exI [of _ 0]) simp
  then show "blocking_java_ping_parses_latest_status decode addr p"
    using motd(1) by (simp add: blocking_java_ping_parses_latest_status_def)
  have "ping_java_status_blocking decode
      \<lparr>elapsed = (\<lambda>_. 0), conn_at = (\<lambda>k. if k = 0 then closing else sending (as_bytes luxor_status))\<rparr> [addr]
      ''play.luxorcraft.fun'' p 2 = Inr ?l"
    unfolding ping_blocking_Inr using l closing_fails by (intro exI [of _ 1]) simp
  then show "blocking_java_ping_retries_protocol_versions decode addr p"
    using motd(2) by (simp add: blocking_java_ping_retries_protocol_versions_def java_status_protocol_versions_def)
qed

definition build_java_status_requests_writes_protocol_version :: bool where
  "build_java_status_requests_writes_protocol_version \<longleftrightarrow>
     (case build_java_status_requests ''play.luxorcraft.fun'' 25565 767 of (handshake, status) \<Rightarrow>
        status = [0x01, 0x00] \<and>
        (case read_varint_bytes 0 0 handshake of None \<Rightarrow> False | Some (packet_len, r1) \<Rightarrow>
         case read_varint_bytes 0 0 r1 of None \<Rightarrow> False | Some (packet_id, r2) \<Rightarrow>
         case read_varint_bytes 0 0 r2 of None \<Rightarrow> False | Some (protocol, r3) \<Rightarrow>
           packet_id = 0 \<and> protocol = 767))"

lemma build_java_status_requests_writes_protocol_version_passes: "build_java_status_requests_writes_protocol_version"
proof -
  have "write_varint 767 = [0xFF, 0x05]" "write_varint 1 = [0x01]" "write_varint 19 = [0x13]" "write_varint 26 = [0x1A]"
    by code_simp+
  then show ?thesis
    by (simp add: build_java_status_requests_writes_protocol_version_def build_java_status_requests_def as_bytes_def Let_def)
qed

definition sanitize_minecraft_version_rejects_player_count_status_text :: bool where
  "sanitize_minecraft_version_rejects_player_count_status_text \<longleftrightarrow>
     sanitize_minecraft_version (section_sign @ ''a'' @ section_sign @ ''lJoin us -> '' @ section_sign @ ''a '' @
       section_sign @ ''78 '' @ section_sign @ ''8| '' @ section_sign @ ''750'') = ''''"

definition sanitize_minecraft_version_rejects_proxy_software_version :: bool where
  "sanitize_minecraft_version_rejects_proxy_software_version \<longleftrightarrow> sanitize_minecraft_version ''Velocity 3.4.0'' = ''''"

definition sanitize_minecraft_version_keeps_proxy_supported_range :: bool where
  "sanitize_minecraft_version_keeps_proxy_supported_range \<longleftrightarrow>
     sanitize_minecraft_version ''Velocity 1.7.2-1.21.11'' = ''1.7.2-1.21.11''"

definition sanitize_minecraft_version_extracts_mc_parenthetical :: bool where
  "sanitize_minecraft_version_extracts_mc_parenthetical \<longleftrightarrow>
     sanitize_minecraft_version ''Paper 1.20.1 (MC: 1.21.4)'' = ''1.21.4''"

lemma version_tests_pass:
  "sanitize_minecraft_version_rejects_player_count_status_text" "sanitize_minecraft_version_rejects_proxy_software_version"
  "sanitize_minecraft_version_keeps_proxy_supported_range" "sanitize_minecraft_version_extracts_mc_parenthetical"
  by code_simp+

text \<open>\<open>srv_lookup\<close> is what the resolver would answer.\<close>

definition java_connect_target_keeps_explicit_port :: "(str \<Rightarrow> (str \<times> u16) list option) \<Rightarrow> bool" where
  "java_connect_target_keeps_explicit_port srv_lookup \<longleftrightarrow>
     resolve_java_connect_target srv_lookup ''wizard.harmoniya.net'' (Some 25565) = (''wizard.harmoniya.net'', 25565)"

definition java_connect_target_resolves_srv_port :: "(str \<Rightarrow> (str \<times> u16) list option) \<Rightarrow> bool" where
  "java_connect_target_resolves_srv_port srv_lookup \<longleftrightarrow>
     (case resolve_java_connect_target srv_lookup ''wizard.harmoniya.net'' None of
        (connect_host, connect_port) \<Rightarrow> connect_host = ''wizard.harmoniya.net'' \<and> connect_port \<noteq> 25565)"

text \<open>The second of these asks the live DNS: it passes when the record points back to the name, at another port.\<close>

lemma connect_tests_pass:
  "java_connect_target_keeps_explicit_port srv_lookup"
  "srv_lookup ''_minecraft._tcp.wizard.harmoniya.net'' = Some ((''wizard.harmoniya.net.'', n) # records) \<Longrightarrow> n \<noteq> 25565 \<Longrightarrow>
   java_connect_target_resolves_srv_port srv_lookup"
proof -
  show "java_connect_target_keeps_explicit_port srv_lookup"
    by (simp add: java_connect_target_keeps_explicit_port_def resolve_java_connect_target_def)
  assume s: "srv_lookup ''_minecraft._tcp.wizard.harmoniya.net'' = Some ((''wizard.harmoniya.net.'', n) # records)" "n \<noteq> 25565"
  have ip: "\<not> is_ip_addr ''wizard.harmoniya.net''" by (simp add: ip_defs)
  have t: "trim_end_matches ''.'' ''wizard.harmoniya.net.'' = ''wizard.harmoniya.net''" by code_simp
  show "java_connect_target_resolves_srv_port srv_lookup"
    using s ip t by (simp add: java_connect_target_resolves_srv_port_def resolve_java_connect_target_def Let_def)
qed

subsection \<open>\<open>geo.rs\<close>\<close>

definition test_ttl_with_jitter :: "(u64 \<Rightarrow> u64) \<Rightarrow> bool" where
  "test_ttl_with_jitter draw \<longleftrightarrow>
     (let cache = geo_new \<lparr>ttl_seconds = 3600, refresh_jitter_seconds = 300, retry_seconds = 300, dns_ttl_seconds = 600,
            dns_retry_seconds = 120, dns_cache_max_entries = 100, dns_max_concurrency = 4\<rparr> 5;
          ttl = ttl_with_jitter draw (geo_cfg cache) 3600
      in 3600 \<le> ttl \<and> ttl < 3900)"

definition test_ttl_zero_jitter :: "(u64 \<Rightarrow> u64) \<Rightarrow> bool" where
  "test_ttl_zero_jitter draw \<longleftrightarrow>
     (let cache = geo_new \<lparr>ttl_seconds = 100, refresh_jitter_seconds = 0, retry_seconds = 60, dns_ttl_seconds = 600,
            dns_retry_seconds = 120, dns_cache_max_entries = 100, dns_max_concurrency = 4\<rparr> 5
      in ttl_with_jitter draw (geo_cfg cache) 100 = 100)"

lemma ttl_tests_pass: "draw 300 < 300 \<Longrightarrow> test_ttl_with_jitter draw" "test_ttl_zero_jitter draw"
proof -
  show "test_ttl_zero_jitter draw" by (simp add: test_ttl_zero_jitter_def geo_new_def ttl_with_jitter_def f64_of_u64_def)
  assume "draw 300 < 300"
  then have d: "unat (draw 300) < 300" by (simp add: word_less_nat_alt)
  then have "unat (3600 + draw 300) = 3600 + unat (draw 300)" by (simp add: unat_word_ariths)
  then show "test_ttl_with_jitter draw"
    using d by (simp add: test_ttl_with_jitter_def geo_new_def ttl_with_jitter_def f64_of_u64_def Let_def del: of_nat_unat)
qed

subsection \<open>\<open>bedrock.rs\<close>\<close>

definition test_build_ping_packet :: "nat \<Rightarrow> i64 \<Rightarrow> bool" where
  "test_build_ping_packet millis guid \<longleftrightarrow>
     (let packet = build_ping_packet millis guid
      in length packet = 1 + 8 + 16 + 8 \<and> packet ! 0 = UNCONNECTED_PING_ID \<and> take (25 - 9) (drop 9 packet) = RAKNET_MAGIC)"

lemma test_build_ping_packet_passes: "test_build_ping_packet millis guid"
  by (simp add: test_build_ping_packet_def build_ping_packet_def RAKNET_MAGIC_def drop_Cons')

lemma pong_of_text:
  assumes "\<forall>c\<in>set s. (of_char c :: nat) < 128" and "length s < 65536"
  shows "parse_pong (pong_packet 0 1 (as_bytes s)) =
    (let parts = split_on (CHR '';'') s in
     if length parts < 6 then None
     else Some \<lparr>bs_edition = parts ! 0, bs_motd = parts ! 1, bs_version = parts ! 3,
       bs_online_players = parse_i64 (parts ! 4), bs_max_players = parse_i64 (parts ! 5),
       bs_motd_line2 = part_or_empty parts 7, bs_gamemode = part_or_empty parts 8\<rparr>)"
  using parse_pong_packet [of "as_bytes s" 0 1 "[]"] assms by (simp add: utf8_lossy_ascii)

text \<open>\<^const>\<open>pong_packet\<close> puts its parts together as the tests do.\<close>

definition test_parse_pong_valid :: bool where
  "test_parse_pong_valid \<longleftrightarrow>
     (let motd = as_bytes ''MCPE;My Server;527;1.19.1;5;20;12345;Second Line;Survival;1;19132;19133;''
      in case parse_pong (pong_packet 0 1 motd) of
           None \<Rightarrow> False
         | Some status \<Rightarrow> bs_edition status = ''MCPE'' \<and> bs_motd status = ''My Server'' \<and> bs_version status = ''1.19.1'' \<and>
             bs_online_players status = Some 5 \<and> bs_max_players status = Some 20 \<and>
             bs_motd_line2 status = ''Second Line'' \<and> bs_gamemode status = ''Survival'')"

lemma test_parse_pong_valid_passes: "test_parse_pong_valid"
proof -
  have n: "parse_i64 ''5'' = Some 5" "parse_i64 ''20'' = Some 20" by code_simp+
  show ?thesis
    unfolding test_parse_pong_valid_def Let_def by (subst pong_of_text) (simp_all add: n part_or_empty_def)
qed

definition test_parse_pong_too_short :: bool where
  "test_parse_pong_too_short \<longleftrightarrow> parse_pong [0x1c, 0, 0, 0] = None"

definition test_parse_pong_wrong_id :: bool where
  "test_parse_pong_wrong_id \<longleftrightarrow> parse_pong ((replicate 35 0)[0 := 0xFF]) = None"

definition test_parse_pong_too_few_fields :: bool where
  "test_parse_pong_too_few_fields \<longleftrightarrow> parse_pong (pong_packet 0 1 (as_bytes ''MCPE;Server;527'')) = None"

lemma pong_tests_pass: "test_parse_pong_too_short" "test_parse_pong_wrong_id" "test_parse_pong_too_few_fields"
proof -
  show "test_parse_pong_too_short" by (simp add: test_parse_pong_too_short_def parse_pong_def)
  show "test_parse_pong_wrong_id" by (simp add: test_parse_pong_wrong_id_def parse_pong_def UNCONNECTED_PONG_ID_def)
  show "test_parse_pong_too_few_fields"
    unfolding test_parse_pong_too_few_fields_def by (subst pong_of_text) simp_all
qed

subsection \<open>\<open>change_detection.rs\<close>\<close>

definition make_state :: server_state where
  "make_state = \<lparr>key = ''1'', server_id = ''1'', server = json_obj [], host = ''mc.example.com'', port = None,
     bedrock_port = None, edition = Java, next_due = 0, next_bedrock_probe = None, next_query_attempt = 0,
     plugin_managed = False, plugin_fallback_mode = False, last_favicon_hash = None, has_succeeded = False,
     initial_failures = 0, consecutive_failures = 0, has_emitted_state = False, last_emitted_up = None,
     last_emitted_online = None, last_emitted_max_players = None, last_emitted_version = None,
     last_emitted_motd = None, last_emitted_country = None, last_emitted_country_code = None,
     last_emitted_players_hash = None, last_emitted_at = None\<rparr>"

text \<open>
  The payloads of the tests: of a server that is up, with what it says after the fields \<open>pre\<close>, and of one that is
  down.
\<close>

definition up_payload ::
  "(str \<times> json) list \<Rightarrow> str \<Rightarrow> i64 \<Rightarrow> i64 \<Rightarrow> str \<Rightarrow> str \<Rightarrow> str \<Rightarrow> str list \<Rightarrow> json" where
  "up_payload pre t online most v m c names = json_obj (pre @
     [(''collected_at'', JStr t), (''online'', json_i64 online), (''max_players'', json_i64 most),
      (''version'', JStr v), (''motd'', JStr m), (''country'', JStr c), (''country_code'', JStr c),
      (''extra'', json_obj (if names = [] then [] else [(''players'', JArr (map JStr names))]))])"

abbreviation (input) hello :: "(str \<times> json) list \<Rightarrow> json" where
  "hello pre \<equiv> up_payload pre ''2025-01-01T00:00:00'' 10 100 ''1.20.4'' ''Hello'' ''US'' []"

definition down_payload :: json where
  "down_payload = json_obj
     [(''collected_at'', JStr ''t2''), (''online'', JNull), (''max_players'', JNull), (''version'', JStr ''''),
      (''motd'', JStr ''''), (''country'', JStr ''''), (''country_code'', JStr '''')]"

definition first_down_payload :: json where
  "first_down_payload = json_obj
     [(''collected_at'', JStr ''t1''), (''online'', JNull), (''country'', JStr ''''), (''country_code'', JStr '''')]"

lemma plain_texts [simp]:
  "trim ''1.20'' = ''1.20''" "trim ''1.20.4'' = ''1.20.4''" "trim ''Hi'' = ''Hi''" "trim ''Hello'' = ''Hello''"
  "trim ''US'' = ''US''" "trim '''' = ''''" "trim ''Alice'' = ''Alice''" "trim ''Bob'' = ''Bob''" "trim ''Charlie'' = ''Charlie''"
  by code_simp+

lemma observed_up:
  assumes "trim v = v" and "trim m = m" and "trim c = c" and "\<forall>n\<in>set names. trim n = n \<and> n \<noteq> []" and "distinct names"
  shows "current_obs X st (up_payload pre t online most v m c names) True =
    (names, \<lparr>obs_up = Some True, obs_online = Some online, obs_max = Some most, obs_version = v, obs_motd = m,
       obs_country = c, obs_country_code = c, obs_hash = players_hash X names\<rparr>)"
proof -
  have "List.map_filter as_str (map JStr names) = names" by (simp add: map_filter_def comp_def)
  moreover have "map trim names = names" using assms(4) by (simp add: map_idI)
  moreover have "filter (\<lambda>n. n \<noteq> []) names = names" using assms(4) by simp
  ultimately have "extract_players (json_obj (if names = [] then [] else [(''players'', JArr (map JStr names))])) = names"
    using assms(5) by (simp add: extract_players_def keep_new_distinct)
  then show ?thesis using assms(1-3) by (simp add: current_obs_def up_payload_def text_field_def get_str_def get_i64_def Let_def)
qed

definition last_seen_down :: "server_state \<Rightarrow> str list \<times> observation" where
  "last_seen_down st =
    ([], \<lparr>obs_up = Some False, obs_online = Some 0, obs_max = last_emitted_max_players st,
       obs_version = unwrap_or [] (last_emitted_version st), obs_motd = unwrap_or [] (last_emitted_motd st),
       obs_country = unwrap_or [] (last_emitted_country st),
       obs_country_code = unwrap_or [] (last_emitted_country_code st), obs_hash = None\<rparr>)"

lemma observed_down:
  "current_obs X st down_payload False = last_seen_down st"
  "current_obs X st first_down_payload False = last_seen_down st"
  by (simp_all add: current_obs_def down_payload_def first_down_payload_def last_seen_down_def text_field_def get_str_def Let_def)

lemmas observed_down_pair = observed_down [unfolded last_seen_down_def]

text \<open>A state right after a row, and a state before its first.\<close>

lemma emits_first:
  assumes "current_obs X st p ok = (names, ob)" and "\<not> has_emitted_state st"
  shows "build_change_payload X st p ok now hb = (remember st ob now, Some (change_row st p names ob StateFull))"
  using assms by (simp add: build_change_payload_def event_of_def Let_def)

lemma emits_next:
  assumes "current_obs X (remember st old t0) p ok = (names, ob)"
  shows "build_change_payload X (remember st old t0) p ok now hb =
    (case (if obs_up old \<noteq> obs_up ob then (if obs_up ob = Some True then Some ServerUp else Some ServerDown)
           else if obs_online old \<noteq> obs_online ob then Some OnlineChanged
           else if old \<noteq> ob then Some StateUpdated
           else if 0 < hb \<and> hb \<le> now - t0 then Some Heartbeat else None) of
       None \<Rightarrow> (remember st old t0, None)
     | Some ev \<Rightarrow> (remember (remember st old t0) ob now, Some (change_row (remember st old t0) p names ob ev)))"
proof -
  have "(obs_max old \<noteq> obs_max ob \<or> obs_version old \<noteq> obs_version ob \<or> obs_motd old \<noteq> obs_motd ob \<or>
      obs_country old \<noteq> obs_country ob \<or> obs_country_code old \<noteq> obs_country_code ob \<or> obs_hash old \<noteq> obs_hash ob) = (old \<noteq> ob)"
    if "obs_up old = obs_up ob" "obs_online old = obs_online ob"
    using that by (cases old; cases ob) auto
  then show ?thesis using assms by (auto simp: build_change_payload_def event_of_def remember_def Let_def)
qed

lemmas change_tests =
  emits_first [OF observed_up] emits_first [OF observed_down_pair(1)] emits_first [OF observed_down_pair(2)]
  emits_next [OF observed_up] emits_next [OF observed_down_pair(1)] emits_next [OF observed_down_pair(2)]
  make_state_def change_row_def

text \<open>The event of the row, \<^const>\<open>None\<close> when there is no row.\<close>

definition row_says :: "str \<Rightarrow> json option \<Rightarrow> json option" where
  "row_says k result = Option.bind result (get k)"

definition test_first_emission_is_state_full :: "externals \<Rightarrow> bool" where
  "test_first_emission_is_state_full X \<longleftrightarrow>
     (let state = make_state;
          (state1, result1) = build_change_payload X state (hello [(''server_id'', JStr ''1'')]) True 1000 0
      in row_says ''event_type'' result1 = Some (JStr ''state_full'') \<and>
         has_emitted_state state1 \<and>
         last_emitted_up state1 = Some True \<and>
         last_emitted_online state1 = Some 10)"

definition test_no_change_returns_none :: "externals \<Rightarrow> bool" where
  "test_no_change_returns_none X \<longleftrightarrow>
     (let state = make_state;
          (state1, result1) = build_change_payload X state (hello []) True 1000 0;
          (state2, result2) = build_change_payload X state1 (hello []) True 1001 0
      in result2 = None)"

definition test_server_down_event :: "externals \<Rightarrow> bool" where
  "test_server_down_event X \<longleftrightarrow>
     (let state = make_state;
          (state1, result1) = build_change_payload X state (up_payload [] ''t1'' 5 20 ''1.20'' ''Hi'' '''' []) True 1000 0;
          (state2, result2) = build_change_payload X state1 (down_payload) False 1001 0
      in row_says ''event_type'' result2 = Some (JStr ''server_down'') \<and>
         row_says ''online'' result2 = Some (json_i64 0) \<and>
         row_says ''version'' result2 = Some (JStr ''1.20'') \<and>
         row_says ''motd'' result2 = Some (JStr ''Hi''))"

definition test_server_up_event :: "externals \<Rightarrow> bool" where
  "test_server_up_event X \<longleftrightarrow>
     (let state = make_state;
          (state1, result1) = build_change_payload X state (first_down_payload) False 1000 0;
          (state2, result2) = build_change_payload X state1 (up_payload [] ''t2'' 5 20 ''1.20'' ''Hi'' '''' []) True 1001 0
      in row_says ''event_type'' result2 = Some (JStr ''server_up''))"

definition test_online_changed_event :: "externals \<Rightarrow> bool" where
  "test_online_changed_event X \<longleftrightarrow>
     (let state = make_state;
          (state1, result1) = build_change_payload X state (up_payload [] ''t1'' 10 100 ''1.20'' ''Hi'' '''' []) True 1000 0;
          (state2, result2) = build_change_payload X state1 (up_payload [] ''t2'' 15 100 ''1.20'' ''Hi'' '''' []) True 1001 0
      in row_says ''event_type'' result2 = Some (JStr ''online_changed''))"

definition test_player_change_detected :: "externals \<Rightarrow> bool" where
  "test_player_change_detected X \<longleftrightarrow>
     (let state = make_state;
          (state1, result1) = build_change_payload X state (up_payload [] ''t1'' 2 20 ''1.20'' ''Hi'' '''' [''Alice'', ''Bob'']) True 1000 0;
          (state2, result2) = build_change_payload X state1 (up_payload [] ''t2'' 2 20 ''1.20'' ''Hi'' '''' [''Alice'', ''Charlie'']) True 1001 0
      in row_says ''event_type'' result2 = Some (JStr ''state_updated''))"

definition test_heartbeat_emits_when_interval_elapsed :: "externals \<Rightarrow> bool" where
  "test_heartbeat_emits_when_interval_elapsed X \<longleftrightarrow>
     (let state = make_state;
          (state1, result1) = build_change_payload X state (hello []) True 1000 300;
          (state2, result2) = build_change_payload X state1 (hello []) True 1100 300;
          (state3, result3) = build_change_payload X state2 (hello []) True 1300 300
      in row_says ''event_type'' result1 = Some (JStr ''state_full'') \<and>
         last_emitted_at state1 = Some 1000 \<and>
         result2 = None \<and>
         last_emitted_at state2 = Some 1000 \<and>
         row_says ''event_type'' result3 = Some (JStr ''heartbeat'') \<and>
         last_emitted_at state3 = Some 1300)"

definition test_heartbeat_disabled_when_zero :: "externals \<Rightarrow> bool" where
  "test_heartbeat_disabled_when_zero X \<longleftrightarrow>
     (let state = make_state;
          (state1, result1) = build_change_payload X state (hello []) True 1000 0;
          (state2, result2) = build_change_payload X state1 (hello []) True 9999 0
      in result2 = None)"

definition test_plugin_managed_adds_compare_probe :: "externals \<Rightarrow> bool" where
  "test_plugin_managed_adds_compare_probe X \<longleftrightarrow>
     (let state = make_state\<lparr>plugin_managed := True\<rparr>;
          (state1, result1) = build_change_payload X state (up_payload [] ''t1'' 5 20 ''1.20'' ''Hi'' '''' []) True 1000 0
      in Option.bind (row_says ''extra'' result1) (get ''compare_probe'') = Some (JBool True))"

definition test_plugin_fallback_does_not_add_compare_probe :: "externals \<Rightarrow> bool" where
  "test_plugin_fallback_does_not_add_compare_probe X \<longleftrightarrow>
     (let state = make_state\<lparr>plugin_managed := True, plugin_fallback_mode := True\<rparr>;
          (state1, result1) = build_change_payload X state (up_payload [] ''t1'' 5 20 ''1.20'' ''Hi'' '''' []) True 1000 0
      in Option.bind (row_says ''extra'' result1) (get ''plugin_fallback'') = Some (JBool True) \<and>
         Option.bind (row_says ''extra'' result1) (get ''compare_probe'') = None)"

lemma change_tests_pass:
  "test_first_emission_is_state_full X"
  "test_no_change_returns_none X"
  "test_server_down_event X"
  "test_server_up_event X"
  "test_online_changed_event X"
  "test_heartbeat_emits_when_interval_elapsed X"
  "test_heartbeat_disabled_when_zero X"
  "test_plugin_managed_adds_compare_probe X"
  "test_plugin_fallback_does_not_add_compare_probe X"
  by (simp_all add: change_tests row_says_def test_first_emission_is_state_full_def test_no_change_returns_none_def test_server_down_event_def test_server_up_event_def test_online_changed_event_def test_heartbeat_emits_when_interval_elapsed_def test_heartbeat_disabled_when_zero_def test_plugin_managed_adds_compare_probe_def test_plugin_fallback_does_not_add_compare_probe_def)
    (simp_all add: remember_def)

text \<open>SHA-256 tells the two lists of players apart.\<close>

lemma test_player_change_detected_passes:
  "players_hash X [''Alice'', ''Bob''] \<noteq> players_hash X [''Alice'', ''Charlie''] \<Longrightarrow> test_player_change_detected X"
  by (simp add: change_tests row_says_def test_player_change_detected_def)

end
